(* ===== verification/Evnet_Prelude.thy ===== *)
theory Evnet_Prelude
  imports Main "HOL-Library.Word" "HOL-Library.Monad_Syntax" "HOL-Library.Sublist"
begin

text \<open>
  Shared vocabulary of the development: the machine types of the C code, the two memory
  primitives every component copies bytes with, and the lemmas about words, slices and
  copies that the component theories use.

  A C \<^verbatim>\<open>char\<close> is a HOL \<open>char\<close> (eight bits), an \<^verbatim>\<open>unsigned int\<close> a 32-bit word,
  an \<^verbatim>\<open>unsigned short\<close> a 16-bit word. A \<^verbatim>\<open>memcpy\<close> is checked: it yields \<open>None\<close>
  when it would read or write outside its object, so that a theorem which says an
  operation returns \<open>Some\<close> also says that it stays inside its buffers.
\<close>

type_synonym byte = char
type_synonym u8 = "8 word"
type_synonym u16 = "16 word"
type_synonym u32 = "32 word"

abbreviation NUL :: byte where "NUL \<equiv> CHR 0x00"
abbreviation CR :: byte where "CR \<equiv> CHR 0x0D"
abbreviation LF :: byte where "LF \<equiv> CHR 0x0A"
abbreviation TAB :: byte where "TAB \<equiv> CHR 0x09"

text \<open>Hints shared by the component proofs: facts that move word arithmetic to \<open>nat\<close>.\<close>

named_theorems nat_words

lemmas [nat_words] = word_less_nat_alt word_le_nat_alt word_unat_eq_iff

section \<open>Slices and checked copies\<close>

definition seg :: "'a list \<Rightarrow> nat \<Rightarrow> nat \<Rightarrow> 'a list" where
  "seg xs i n = take n (drop i xs)"

definition mem_read :: "'a list \<Rightarrow> nat \<Rightarrow> nat \<Rightarrow> 'a list option" where
  "mem_read src i n = (if i + n \<le> length src then Some (seg src i n) else None)"

definition mem_write :: "'a list \<Rightarrow> nat \<Rightarrow> 'a list \<Rightarrow> 'a list option" where
  "mem_write dst i bs =
     (if i + length bs \<le> length dst
      then Some (take i dst @ bs @ drop (i + length bs) dst) else None)"

lemma seg_0 [simp]: "seg xs i 0 = []"
  by (simp add: seg_def)

lemma length_seg [simp]: "i + n \<le> length xs \<Longrightarrow> length (seg xs i n) = n"
  by (simp add: seg_def)

lemma seg_all: "seg xs 0 (length xs) = xs"
  by (simp add: seg_def)

lemma seg_from_0: "seg xs 0 n = take n xs"
  by (simp add: seg_def)

lemma take_seg: "take k (seg xs i n) = seg xs i (min k n)"
  by (simp add: seg_def)

lemma drop_seg: "drop k (seg xs i n) = seg xs (i + k) (n - k)"
  by (simp add: seg_def drop_take add.commute)

lemma seg_append_seg: "seg xs i m @ seg xs (i + m) n = seg xs i (m + n)"
  by (simp add: seg_def take_add add.commute)

lemma mem_read_Some [simp]: "i + n \<le> length src \<Longrightarrow> mem_read src i n = Some (seg src i n)"
  by (simp add: mem_read_def)

lemma mem_readD: "mem_read src i n = Some bs \<Longrightarrow> i + n \<le> length src \<and> bs = seg src i n"
  by (simp add: mem_read_def split: if_splits)

lemma mem_write_Some:
  "i + length bs \<le> length dst \<Longrightarrow>
   mem_write dst i bs = Some (take i dst @ bs @ drop (i + length bs) dst)"
  by (simp add: mem_write_def)

lemma mem_write_NoneD: "mem_write dst i bs = None \<Longrightarrow> length dst < i + length bs"
  by (simp add: mem_write_def split: if_splits)

lemma length_mem_write: "mem_write dst i bs = Some dst' \<Longrightarrow> length dst' = length dst"
  by (auto simp: mem_write_def split: if_splits)

lemma seg_mem_write_same:
  "mem_write dst i bs = Some dst' \<Longrightarrow> seg dst' i (length bs) = bs"
  by (auto simp: mem_write_def seg_def split: if_splits)

lemma seg_mem_write_before:
  "mem_write dst i bs = Some dst' \<Longrightarrow> j + n \<le> i \<Longrightarrow> seg dst' j n = seg dst j n"
  by (auto simp: mem_write_def seg_def drop_take split: if_splits)

lemma seg_mem_write_after:
  assumes "mem_write dst i bs = Some dst'" and "i + length bs \<le> j"
  shows "seg dst' j n = seg dst j n"
proof -
  from assms(1) have le: "i + length bs \<le> length dst"
    and dst': "dst' = take i dst @ bs @ drop (i + length bs) dst"
    by (simp_all add: mem_write_def split: if_splits)
  have "drop j dst' = drop j dst"
    using le assms(2) by (simp add: dst')
  then show ?thesis by (simp add: seg_def)
qed

lemma mem_write_at_0:
  "length bs \<le> length dst \<Longrightarrow> mem_write dst 0 bs = Some (bs @ drop (length bs) dst)"
  by (simp add: mem_write_def)

section \<open>Words\<close>

lemma unat_add_small:
  fixes a b :: "'a::len word"
  shows "unat a + unat b < 2 ^ LENGTH('a) \<Longrightarrow> unat (a + b) = unat a + unat b"
  by (simp add: unat_word_ariths)

lemma unat_diff_le:
  fixes a b :: "'a::len word"
  shows "unat b \<le> unat a \<Longrightarrow> unat (a - b) = unat a - unat b"
  by (simp add: unat_sub_if')

lemma unat_u32_of_nat [simp]: "n < 2 ^ 32 \<Longrightarrow> unat (word_of_nat n :: u32) = n"
  by (simp add: unat_of_nat)

lemma unat_u32_less: "unat (x :: u32) < 2 ^ 32"
  using unsigned_less [of x] by simp

lemma unat_half: "unat (x div 2 :: u32) = unat x div 2"
  by (simp add: unat_div)

lemma unat_max: "unat (max a b :: 'a::len word) = max (unat a) (unat b)"
  by (simp add: max_def word_le_nat_alt)

section \<open>Computations that return\<close>

text \<open>The computation succeeds and its result satisfies \<open>P\<close>.\<close>

definition returns :: "'a option \<Rightarrow> ('a \<Rightarrow> bool) \<Rightarrow> bool" where
  "returns m P \<longleftrightarrow> (\<exists>x. m = Some x \<and> P x)"

lemma returns_simps [simp]: "returns (Some x) P \<longleftrightarrow> P x" "\<not> returns None P"
  by (simp_all add: returns_def)

lemma returns_bind: "returns (m \<bind> f) P \<longleftrightarrow> returns m (\<lambda>x. returns (f x) P)"
  by (cases m) simp_all

lemma returnsI: "m = Some x \<Longrightarrow> P x \<Longrightarrow> returns m P"
  by simp

lemma returns_mono: "returns m P \<Longrightarrow> (\<And>x. m = Some x \<Longrightarrow> P x \<Longrightarrow> Q x) \<Longrightarrow> returns m Q"
  by (auto simp: returns_def)

lemma returns_bindI: "returns m P \<Longrightarrow> (\<And>x. P x \<Longrightarrow> returns (f x) Q) \<Longrightarrow> returns (m \<bind> f) Q"
  by (auto simp: returns_def)

end
