(* ===== verification/Msg_Frame.thy ===== *)
theory Msg_Frame
  imports Evnet_Prelude
begin

text \<open>
  \<^verbatim>\<open>msg_frame.h\<close> and \<^verbatim>\<open>msg_pack.c\<close>: the eight-byte frame head of the message protocol,
  its memory image on a little-endian machine, and the packing of a message.
\<close>

section \<open>The frame head\<close>

record CMD_Info =
  cbVersion :: u8
  cbCheckCode :: u8
  wPacketSize :: u16

record CMD_Command =
  wMainCmdID :: u16
  wSubCmdID :: u16

record CMD_Head =
  CmdInfo :: CMD_Info
  CommandInfo :: CMD_Command

definition SOCKET_VER :: u8 where "SOCKET_VER = 0x66"
definition sizeof_CMD_Head :: nat where "sizeof_CMD_Head = 8"
definition SOCKET_BUFFER :: nat where "SOCKET_BUFFER = 32 * 1024"
definition SOCKET_PACKET :: nat where
  "SOCKET_PACKET = SOCKET_BUFFER - sizeof_CMD_Head - 2 * 4"

text \<open>The size of the two static packet buffers, \<^verbatim>\<open>SOCKET_PACKET+sizeof(CMD_Head)\<close>.\<close>

definition PACKET_BUFFER :: nat where "PACKET_BUFFER = SOCKET_PACKET + sizeof_CMD_Head"

lemmas frame_sizes = SOCKET_PACKET_def SOCKET_BUFFER_def sizeof_CMD_Head_def PACKET_BUFFER_def

text \<open>Little-endian bytes of the two field widths.\<close>

definition u8_byte :: "u8 \<Rightarrow> byte" where "u8_byte w = char_of (unat w)"
definition byte_u8 :: "byte \<Rightarrow> u8" where "byte_u8 b = word_of_nat (of_char b)"

definition u16_bytes :: "u16 \<Rightarrow> byte list" where
  "u16_bytes w = [char_of (unat w), char_of (unat w div 256)]"

definition bytes_u16 :: "byte \<Rightarrow> byte \<Rightarrow> u16" where
  "bytes_u16 lo hi = word_of_nat (of_char lo + 256 * of_char hi)"

lemma of_char_less [simp]: "of_char c < (256 :: nat)"
  using of_char_mod_256 [of c, where 'a = nat] by (metis mod_less_divisor zero_less_numeral)

lemma byte_u8_u8_byte [simp]: "byte_u8 (u8_byte w) = w"
proof -
  have "unat w < 256" using unsigned_less [of w] by simp
  then show ?thesis by (simp add: u8_byte_def byte_u8_def of_char_of)
qed

lemma u8_byte_byte_u8 [simp]: "u8_byte (byte_u8 b) = b"
  by (simp add: u8_byte_def byte_u8_def unat_of_nat)

lemma bytes_u16_u16_bytes [simp]: "bytes_u16 (char_of (unat w)) (char_of (unat w div 256)) = w"
proof -
  have "unat w < 65536" using unsigned_less [of w] by simp
  then have "of_char (char_of (unat w)) + 256 * of_char (char_of (unat w div 256)) = unat w"
    by (simp add: of_char_of)
  then show ?thesis by (simp add: bytes_u16_def)
qed

lemma u16_bytes_bytes_u16 [simp]: "u16_bytes (bytes_u16 lo hi) = [lo, hi]"
proof -
  let ?n = "of_char lo + 256 * of_char hi :: nat"
  have "?n < 65536"
    using of_char_less [of lo] of_char_less [of hi] by linarith
  then have "unat (bytes_u16 lo hi) = ?n"
    unfolding bytes_u16_def by (subst unat_of_nat) simp
  moreover have "?n div 256 = of_char hi" by simp
  moreover have "char_of ?n = lo"
    by (metis char_of_mod_256 char_of_char mod_mult_self2)
  ultimately show ?thesis by (simp add: u16_bytes_def)
qed

text \<open>The memory image of a \<^verbatim>\<open>CMD_Head\<close> (no padding) and reading it back.\<close>

definition head_bytes :: "CMD_Head \<Rightarrow> byte list" where
  "head_bytes h = [u8_byte (cbVersion (CmdInfo h)), u8_byte (cbCheckCode (CmdInfo h))]
     @ u16_bytes (wPacketSize (CmdInfo h))
     @ u16_bytes (wMainCmdID (CommandInfo h)) @ u16_bytes (wSubCmdID (CommandInfo h))"

definition bytes_head :: "byte list \<Rightarrow> CMD_Head" where
  "bytes_head bs =
     \<lparr>CmdInfo = \<lparr>cbVersion = byte_u8 (bs ! 0), cbCheckCode = byte_u8 (bs ! 1),
                 wPacketSize = bytes_u16 (bs ! 2) (bs ! 3)\<rparr>,
      CommandInfo = \<lparr>wMainCmdID = bytes_u16 (bs ! 4) (bs ! 5),
                     wSubCmdID = bytes_u16 (bs ! 6) (bs ! 7)\<rparr>\<rparr>"

lemma length_head_bytes [simp]: "length (head_bytes h) = sizeof_CMD_Head"
  by (simp add: head_bytes_def u16_bytes_def sizeof_CMD_Head_def)

lemma bytes_head_head_bytes [simp]: "bytes_head (head_bytes h @ bs) = h"
  by (simp add: bytes_head_def head_bytes_def u16_bytes_def)

lemma head_bytes_bytes_head:
  assumes "length bs = sizeof_CMD_Head"
  shows "head_bytes (bytes_head bs) = bs"
proof -
  obtain a b c d e f g h where "bs = [a, b, c, d, e, f, g, h]"
    using assms by (auto simp: sizeof_CMD_Head_def length_Suc_conv eval_nat_numeral)
  then show ?thesis by (simp add: head_bytes_def bytes_head_def)
qed

section \<open>Packing a message\<close>

text \<open>
  \<^verbatim>\<open>make_msg_packet\<close> fills the static buffer \<^verbatim>\<open>g_cbSendDataBuffer\<close>, here an argument
  and a result, and returns the number of bytes to send. \<open>pData\<close> is \<open>None\<close> for \<^verbatim>\<open>NULL\<close>.
\<close>

definition make_msg_packet ::
  "byte list \<Rightarrow> u16 \<Rightarrow> u16 \<Rightarrow> byte list option \<Rightarrow> u16 \<Rightarrow> (byte list \<times> u16) option" where
  "make_msg_packet sendbuf main sub pData wDataSize =
     (let wSendSize = word_of_nat (sizeof_CMD_Head + unat wDataSize) :: u16;
          h = \<lparr>CmdInfo = \<lparr>cbVersion = SOCKET_VER, cbCheckCode = 0, wPacketSize = wSendSize\<rparr>,
               CommandInfo = \<lparr>wMainCmdID = main, wSubCmdID = sub\<rparr>\<rparr>
      in do {
        buf1 \<leftarrow> mem_write sendbuf 0 (head_bytes h);
        buf2 \<leftarrow> (case pData of
                   None \<Rightarrow> Some buf1
                 | Some d \<Rightarrow> if wDataSize > 0
                             then do { bs \<leftarrow> mem_read d 0 (unat wDataSize);
                                       mem_write buf1 sizeof_CMD_Head bs }
                             else Some buf1);
        Some (buf2, wSendSize) })"

text \<open>The bytes of a well-formed frame.\<close>

definition frame_head :: "u16 \<Rightarrow> u16 \<Rightarrow> byte list \<Rightarrow> CMD_Head" where
  "frame_head main sub d =
     \<lparr>CmdInfo = \<lparr>cbVersion = SOCKET_VER, cbCheckCode = 0,
                 wPacketSize = word_of_nat (sizeof_CMD_Head + length d)\<rparr>,
      CommandInfo = \<lparr>wMainCmdID = main, wSubCmdID = sub\<rparr>\<rparr>"

definition frame_bytes :: "u16 \<Rightarrow> u16 \<Rightarrow> byte list \<Rightarrow> byte list" where
  "frame_bytes main sub d = head_bytes (frame_head main sub d) @ d"

lemma make_msg_packet_frame:
  assumes buf: "length sendbuf = PACKET_BUFFER" and len: "length d \<le> SOCKET_PACKET"
  shows "\<exists>buf'. make_msg_packet sendbuf main sub (Some d) (word_of_nat (length d))
             = Some (buf', word_of_nat (sizeof_CMD_Head + length d))
           \<and> length buf' = PACKET_BUFFER
           \<and> take (sizeof_CMD_Head + length d) buf' = frame_bytes main sub d"
proof -
  let ?h = "head_bytes (frame_head main sub d)"
  have n: "unat (word_of_nat (length d) :: u16) = length d"
    using len by (simp add: frame_sizes unat_of_nat)
  have "mem_write sendbuf 0 ?h = Some (?h @ drop sizeof_CMD_Head sendbuf)"
    using buf by (simp add: mem_write_at_0 frame_sizes)
  moreover have "mem_write (?h @ drop sizeof_CMD_Head sendbuf) sizeof_CMD_Head d
      = Some (?h @ d @ drop (sizeof_CMD_Head + length d) sendbuf)"
    using buf len by (simp add: mem_write_Some frame_sizes add.commute)
  moreover have "mem_read d 0 (length d) = Some d" by (simp add: seg_all)
  ultimately show ?thesis
    using buf len n
    by (cases d) (auto simp: make_msg_packet_def Let_def frame_head_def frame_bytes_def
        word_less_nat_alt frame_sizes)
qed

lemma make_msg_packet_overrun:
  assumes "length sendbuf = PACKET_BUFFER" and "SOCKET_PACKET < length d" "length d < 65536"
  shows "make_msg_packet sendbuf main sub (Some d) (word_of_nat (length d)) = None"
proof -
  have n: "unat (word_of_nat (length d) :: u16) = length d"
    using assms(3) by (simp add: unat_of_nat)
  have "mem_read d 0 (length d) = Some d" by (simp add: seg_all)
  with n show ?thesis
    using assms length_head_bytes
    by (auto simp: make_msg_packet_def Let_def mem_write_def word_less_nat_alt frame_sizes)
qed

section \<open>Properties\<close>

text \<open>
  C9. Packing writes, inside the static buffer, exactly the frame: the eight head bytes with the
  total size, then the payload; and it returns that size.
\<close>

theorem make_msg_packet_correct:
  assumes "length sendbuf = PACKET_BUFFER" and "length d \<le> SOCKET_PACKET"
  shows "\<exists>buf'. make_msg_packet sendbuf main sub (Some d) (word_of_nat (length d))
             = Some (buf', word_of_nat (sizeof_CMD_Head + length d))
           \<and> length buf' = PACKET_BUFFER
           \<and> take (sizeof_CMD_Head + length d) buf' = frame_bytes main sub d"
  using assms by (rule make_msg_packet_frame)

theorem make_msg_packet_correct_witness:
  "\<exists>buf'. make_msg_packet (replicate PACKET_BUFFER NUL) 1 2 (Some ''hi'') (word_of_nat (length ''hi''))
             = Some (buf', word_of_nat (sizeof_CMD_Head + length ''hi''))
           \<and> length buf' = PACKET_BUFFER
           \<and> take (sizeof_CMD_Head + length ''hi'') buf' = frame_bytes 1 2 ''hi''"
  by (rule make_msg_packet_correct) (simp_all add: frame_sizes)

text \<open>
  C13. There is no size check: a payload longer than \<^verbatim>\<open>SOCKET_PACKET\<close>, which the 16-bit size
  parameter allows, is copied past the end of the static buffer.
\<close>

theorem make_msg_packet_overruns:
  assumes "length sendbuf = PACKET_BUFFER" and "SOCKET_PACKET < length d" and "length d < 65536"
  shows "make_msg_packet sendbuf main sub (Some d) (word_of_nat (length d)) = None"
  using assms by (rule make_msg_packet_overrun)

theorem make_msg_packet_overruns_witness:
  "make_msg_packet (replicate PACKET_BUFFER NUL) 1 2 (Some (replicate 40000 NUL))
     (word_of_nat (length (replicate 40000 NUL))) = None"
  by (rule make_msg_packet_overruns) (simp_all add: frame_sizes)

end
