(* ===== verification/Byte_Queue.thy ===== *)
theory Byte_Queue
  imports Evnet_Prelude
begin

text \<open>
  The interface between the byte buffers and the code that reads them. A \<^emph>\<open>source\<close> is what
  the protocol parsers rely on: peek at a first chunk, then discard (a part of) it. A
  \<^emph>\<open>queue\<close> adds insertion. The provider is \<^verbatim>\<open>dataqueue.c\<close> (theory \<open>Dataqueue\<close>); the clients
  are the message parser and the channels.
\<close>

locale byte_source =
  fixes peek :: "'q \<Rightarrow> ('q \<times> byte list) option"
    and distill :: "'q \<Rightarrow> u32 \<Rightarrow> 'q"
    and size_of :: "'q \<Rightarrow> u32"
    and abs :: "'q \<Rightarrow> byte list"
    and inv :: "'q \<Rightarrow> bool"
  assumes size_abs: "inv q \<Longrightarrow> unat (size_of q) = length (abs q)"
    and peek_chunk: "inv q \<Longrightarrow> abs q \<noteq> [] \<Longrightarrow>
      \<exists>q' c. peek q = Some (q', c) \<and> inv q' \<and> abs q' = abs q \<and> c \<noteq> [] \<and> prefix c (abs q)"
    and distill_peeked: "inv q \<Longrightarrow> abs q \<noteq> [] \<Longrightarrow> peek q = Some (q', c) \<Longrightarrow> unat k \<le> length c \<Longrightarrow>
      inv (distill q' k) \<and> abs (distill q' k) = drop (unat k) (abs q)"
begin

lemma size_zero_iff: "inv q \<Longrightarrow> size_of q = 0 \<longleftrightarrow> abs q = []"
  using size_abs [of q] by (auto simp: word_unat_eq_iff)

text \<open>One read step: peek, use \<open>k\<close> bytes of the chunk, discard them.\<close>

lemma read_step:
  assumes "inv q" and "abs q \<noteq> []"
  obtains q' c where "peek q = Some (q', c)" and "c \<noteq> []" and "prefix c (abs q)"
    and "length c < 2 ^ 32"
    and "\<And>k. k \<le> length c \<Longrightarrow> inv (distill q' (word_of_nat k))
              \<and> abs (distill q' (word_of_nat k)) = drop k (abs q)"
proof -
  from peek_chunk [OF assms] obtain q' c where c: "peek q = Some (q', c)" "c \<noteq> []" "prefix c (abs q)"
    by blast
  have "length c \<le> unat (size_of q)"
    using c(3) size_abs [OF assms(1)] by (simp add: prefix_length_le)
  then have lt: "length c < 2 ^ 32" using unat_u32_less [of "size_of q"] by linarith
  show thesis
  proof (rule that [OF c lt])
    fix k assume "k \<le> length c"
    moreover from this lt have "unat (word_of_nat k :: u32) = k" by simp
    ultimately show "inv (distill q' (word_of_nat k))
        \<and> abs (distill q' (word_of_nat k)) = drop k (abs q)"
      using distill_peeked [OF assms c(1), of "word_of_nat k"] by simp
  qed
qed

end

section \<open>Queues and first-in first-out\<close>

locale byte_queue = byte_source peek distill size_of abs inv
  for peek :: "'q \<Rightarrow> ('q \<times> byte list) option"
    and distill :: "'q \<Rightarrow> u32 \<Rightarrow> 'q"
    and size_of :: "'q \<Rightarrow> u32"
    and abs :: "'q \<Rightarrow> byte list"
    and inv :: "'q \<Rightarrow> bool" +
  fixes empty :: 'q
    and insert_bytes :: "'q \<Rightarrow> byte list \<Rightarrow> 'q option"
    and can_insert :: "'q \<Rightarrow> byte list \<Rightarrow> bool"
  assumes inv_empty: "inv empty"
    and abs_empty: "abs empty = []"
    and insert_appends: "inv q \<Longrightarrow> can_insert q bs \<Longrightarrow>
      \<exists>q'. insert_bytes q bs = Some q' \<and> inv q' \<and> abs q' = abs q @ bs"

text \<open>
  A user of a queue: a sequence of insertions and reads, where a read takes at most the
  given number of bytes of the first chunk (a socket write that accepts only a part).
  The run returns the bytes read and the queue left over.
\<close>

datatype queue_op = Put "byte list" | Take nat

fun queue_run :: "('q \<Rightarrow> ('q \<times> byte list) option) \<Rightarrow> ('q \<Rightarrow> u32 \<Rightarrow> 'q) \<Rightarrow> ('q \<Rightarrow> u32)
    \<Rightarrow> ('q \<Rightarrow> byte list \<Rightarrow> 'q option) \<Rightarrow> queue_op list \<Rightarrow> 'q \<Rightarrow> (byte list \<times> 'q) option" where
  "queue_run pk ds sz ins [] q = Some ([], q)"
| "queue_run pk ds sz ins (Put bs # ops) q = do { q1 \<leftarrow> ins q bs; queue_run pk ds sz ins ops q1 }"
| "queue_run pk ds sz ins (Take n # ops) q =
     (if sz q = 0 then queue_run pk ds sz ins ops q
      else do { (q1, c) \<leftarrow> pk q;
                let k = min n (length c);
                (out, q2) \<leftarrow> queue_run pk ds sz ins ops (ds q1 (word_of_nat k));
                Some (take k c @ out, q2) })"

text \<open>Every insertion of the run meets its precondition.\<close>

fun run_admissible :: "('q \<Rightarrow> ('q \<times> byte list) option) \<Rightarrow> ('q \<Rightarrow> u32 \<Rightarrow> 'q) \<Rightarrow> ('q \<Rightarrow> u32)
    \<Rightarrow> ('q \<Rightarrow> byte list \<Rightarrow> 'q option) \<Rightarrow> ('q \<Rightarrow> byte list \<Rightarrow> bool) \<Rightarrow> queue_op list \<Rightarrow> 'q \<Rightarrow> bool" where
  "run_admissible pk ds sz ins can [] q = True"
| "run_admissible pk ds sz ins can (Put bs # ops) q =
     (can q bs \<and> (case ins q bs of None \<Rightarrow> True | Some q1 \<Rightarrow> run_admissible pk ds sz ins can ops q1))"
| "run_admissible pk ds sz ins can (Take n # ops) q =
     (if sz q = 0 then run_admissible pk ds sz ins can ops q
      else (case pk q of None \<Rightarrow> True
            | Some (q1, c) \<Rightarrow>
                run_admissible pk ds sz ins can ops (ds q1 (word_of_nat (min n (length c))))))"

fun bytes_put :: "queue_op list \<Rightarrow> byte list" where
  "bytes_put [] = []"
| "bytes_put (Put bs # ops) = bs @ bytes_put ops"
| "bytes_put (Take n # ops) = bytes_put ops"

context byte_queue
begin

lemma run_fifo:
  "inv q \<Longrightarrow> run_admissible peek distill size_of insert_bytes can_insert ops q \<Longrightarrow>
   \<exists>out q'. queue_run peek distill size_of insert_bytes ops q = Some (out, q') \<and> inv q'
     \<and> out @ abs q' = abs q @ bytes_put ops"
proof (induction ops arbitrary: q)
  case Nil
  then show ?case by simp
next
  case (Cons op ops)
  show ?case
  proof (cases op)
    case (Put bs)
    with Cons.prems obtain q1 where q1: "insert_bytes q bs = Some q1" "inv q1" "abs q1 = abs q @ bs"
      using insert_appends by auto
    with Cons.prems Put Cons.IH [of q1] show ?thesis by auto
  next
    case (Take n)
    show ?thesis
    proof (cases "abs q = []")
      case True
      then show ?thesis
        using Cons.prems Take Cons.IH [of q] by (simp add: size_zero_iff)
    next
      case False
      with Cons.prems(1) obtain q1 c where c: "peek q = Some (q1, c)" "prefix c (abs q)"
        and dist: "\<And>k. k \<le> length c \<Longrightarrow> inv (distill q1 (word_of_nat k))
              \<and> abs (distill q1 (word_of_nat k)) = drop k (abs q)"
        by (rule read_step) blast
      let ?k = "min n (length c)" and ?q2 = "distill q1 (word_of_nat (min n (length c)))"
      have q2: "inv ?q2" "abs ?q2 = drop ?k (abs q)" using dist [of ?k] by simp_all
      moreover have "size_of q \<noteq> 0" using False Cons.prems(1) by (simp add: size_zero_iff)
      moreover from this have "run_admissible peek distill size_of insert_bytes can_insert ops ?q2"
        using Cons.prems(2) Take c(1) by simp
      ultimately obtain out q' where run: "queue_run peek distill size_of insert_bytes ops ?q2 = Some (out, q')"
        "inv q'" "out @ abs q' = drop ?k (abs q) @ bytes_put ops"
        using Cons.IH [of ?q2] by auto
      have "take ?k c @ drop ?k (abs q) = abs q"
        using c(2) by (auto simp: prefix_def)
      then have "(take ?k c @ out) @ abs q' = abs q @ bytes_put ops"
        by (metis append_assoc run(3))
      then show ?thesis
        using run(1,2) Take c(1) \<open>size_of q \<noteq> 0\<close> by auto
    qed
  qed
qed

end

end
