(* ===== verification/Dataqueue.thy ===== *)
theory Dataqueue
  imports Byte_Queue
begin

text \<open>
  \<^verbatim>\<open>dataqueue.c\<close> / \<^verbatim>\<open>dataqueue.h\<close>: the growing ring buffer that every channel
  keeps twice (bytes received, bytes to send).
\<close>

section \<open>State and operations\<close>

record dataqueue =
  insertPos :: u32
  terminalPos :: u32
  queryPos :: u32
  dataSize :: u32
  bufferSize :: u32
  m_pDataQueueBuffer :: "byte list option"

text \<open>\<^verbatim>\<open>NULL\<close> is \<open>None\<close>; its bytes are the empty list.\<close>

definition dq_bytes :: "dataqueue \<Rightarrow> byte list" where
  "dq_bytes q = (case m_pDataQueueBuffer q of None \<Rightarrow> [] | Some b \<Rightarrow> b)"

definition dq_init :: dataqueue where
  "dq_init = \<lparr>insertPos = 0, terminalPos = 0, queryPos = 0, dataSize = 0, bufferSize = 0,
              m_pDataQueueBuffer = None\<rparr>"

definition dataqueue_remove_data :: "dataqueue \<Rightarrow> bool \<Rightarrow> dataqueue" where
  "dataqueue_remove_data q bFreeMemory =
     (let q1 = q\<lparr>dataSize := 0, insertPos := 0, terminalPos := 0, queryPos := 0\<rparr>
      in if bFreeMemory then q1\<lparr>bufferSize := 0, m_pDataQueueBuffer := None\<rparr> else q1)"

text \<open>
  \<^verbatim>\<open>dataqueue_insert_data\<close>, lines 22 to 39: does the insertion need a new buffer
  (\<^verbatim>\<open>excp\<close>), and is the insert position moved to the start.
\<close>

definition dq_probe :: "dataqueue \<Rightarrow> u32 \<Rightarrow> bool \<times> dataqueue" where
  "dq_probe q n =
     (if dataSize q + n > bufferSize q then (True, q)
      else if insertPos q = terminalPos q \<and> insertPos q + n > bufferSize q then
        (if queryPos q \<ge> n then (False, q\<lparr>insertPos := 0\<rparr>) else (True, q))
      else if insertPos q < terminalPos q \<and> insertPos q + n > queryPos q then (True, q)
      else (False, q))"

text \<open>Lines 51 to 57: copy the stored bytes, in order, to the start of a new buffer.\<close>

definition dq_compact :: "dataqueue \<Rightarrow> byte list \<Rightarrow> byte list \<Rightarrow> byte list option" where
  "dq_compact q old new0 =
     (let partOne = terminalPos q - queryPos q in do {
        new1 \<leftarrow> (if partOne > 0
                 then do { a \<leftarrow> mem_read old (unat (queryPos q)) (unat partOne);
                           mem_write new0 0 a }
                 else Some new0);
        (if dataSize q > partOne
         then do { b \<leftarrow> mem_read old 0 (unat (insertPos q)); mem_write new1 (unat partOne) b }
         else Some new1) })"

text \<open>
  Lines 41 to 68: move to a larger zeroed buffer. \<^verbatim>\<open>malloc\<close> is taken to succeed
  (the code does not test it).
\<close>

definition dq_grow :: "dataqueue \<Rightarrow> u32 \<Rightarrow> dataqueue option" where
  "dq_grow q n =
     (let newSize = bufferSize q + max (bufferSize q div 2) n;
          new0 = replicate (unat newSize) NUL
      in do {
        new \<leftarrow> (case m_pDataQueueBuffer q of None \<Rightarrow> Some new0 | Some old \<Rightarrow> dq_compact q old new0);
        Some (q\<lparr>queryPos := 0, insertPos := dataSize q, terminalPos := dataSize q,
                bufferSize := newSize, m_pDataQueueBuffer := Some new\<rparr>) })"

text \<open>Lines 70 to 73: the copy itself. Copying no bytes to a \<^verbatim>\<open>NULL\<close> buffer does nothing.\<close>

definition dq_store :: "dataqueue \<Rightarrow> byte list \<Rightarrow> dataqueue option" where
  "dq_store q bs =
     (let n = word_of_nat (length bs) in do {
        buf \<leftarrow> mem_write (dq_bytes q) (unat (insertPos q)) bs;
        Some (q\<lparr>m_pDataQueueBuffer := map_option (\<lambda>_. buf) (m_pDataQueueBuffer q),
                dataSize := dataSize q + n,
                insertPos := insertPos q + n,
                terminalPos := max (terminalPos q) (insertPos q + n)\<rparr>) })"

definition dataqueue_insert_data :: "dataqueue \<Rightarrow> byte list \<Rightarrow> dataqueue option" where
  "dataqueue_insert_data q bs =
     (let n = word_of_nat (length bs); (excp, q1) = dq_probe q n
      in do { q2 \<leftarrow> (if excp then dq_grow q1 n else Some q1); dq_store q2 bs })"

text \<open>The step both read operations start with: the first part is used up, start over at 0.\<close>

definition dq_rewind :: "dataqueue \<Rightarrow> dataqueue" where
  "dq_rewind q =
     (if queryPos q = terminalPos q then q\<lparr>queryPos := 0, terminalPos := insertPos q\<rparr> else q)"

definition dataqueue_distill_data :: "dataqueue \<Rightarrow> u32 \<Rightarrow> dataqueue" where
  "dataqueue_distill_data q n =
     (if dataSize q = 0 \<or> m_pDataQueueBuffer q = None then q
      else let q1 = dq_rewind q
           in q1\<lparr>dataSize := dataSize q1 - n, queryPos := queryPos q1 + n\<rparr>)"

text \<open>
  \<^verbatim>\<open>dataqueue_next_data\<close> hands out a pointer into the buffer (here its offset) and a
  length; \<open>dq_peek\<close> is the read of those bytes that every caller makes.
\<close>

definition dataqueue_next_data :: "dataqueue \<Rightarrow> dataqueue \<times> u32 \<times> u32" where
  "dataqueue_next_data q =
     (let q1 = dq_rewind q in (q1, queryPos q1, terminalPos q1 - queryPos q1))"

definition dq_peek :: "dataqueue \<Rightarrow> (dataqueue \<times> byte list) option" where
  "dq_peek q =
     (let (q1, off, len) = dataqueue_next_data q
      in map_option (\<lambda>chunk. (q1, chunk)) (mem_read (dq_bytes q1) (unat off) (unat len)))"

section \<open>Contents and invariant\<close>

text \<open>
  The queue is in one of two layouts. \<^emph>\<open>Linear\<close>: the stored bytes are
  \<open>buf[queryPos..terminalPos)\<close> and insertion continues at \<open>terminalPos\<close>.
  \<^emph>\<open>Wrapped\<close>: they are \<open>buf[queryPos..terminalPos)\<close> followed by \<open>buf[0..insertPos)\<close>.
  The fields tell the two apart by \<open>dataSize\<close>.
\<close>

definition dq_linear :: "dataqueue \<Rightarrow> bool" where
  "dq_linear q \<longleftrightarrow> insertPos q = terminalPos q \<and> queryPos q \<le> terminalPos q
     \<and> unat (dataSize q) = unat (terminalPos q) - unat (queryPos q)"

definition dq_wrapped :: "dataqueue \<Rightarrow> bool" where
  "dq_wrapped q \<longleftrightarrow> 0 < insertPos q \<and> insertPos q \<le> queryPos q \<and> queryPos q \<le> terminalPos q
     \<and> unat (dataSize q) = unat (terminalPos q) - unat (queryPos q) + unat (insertPos q)"

definition dq_inv :: "dataqueue \<Rightarrow> bool" where
  "dq_inv q \<longleftrightarrow> length (dq_bytes q) = unat (bufferSize q) \<and> terminalPos q \<le> bufferSize q
     \<and> (dq_linear q \<or> dq_wrapped q)"

definition dq_contents :: "dataqueue \<Rightarrow> byte list" where
  "dq_contents q =
     (let part = seg (dq_bytes q) (unat (queryPos q)) (unat (terminalPos q) - unat (queryPos q))
      in if unat (dataSize q) = unat (terminalPos q) - unat (queryPos q) then part
         else part @ take (unat (insertPos q)) (dq_bytes q))"

text \<open>
  A wrapped queue whose three positions coincide. Its first part is used up and its second
  part fills \<open>buf[0..insertPos)\<close>; \<open>dataqueue_insert_data\<close> takes it for a linear queue.
\<close>

definition dq_aliased :: "dataqueue \<Rightarrow> bool" where
  "dq_aliased q \<longleftrightarrow> insertPos q = terminalPos q \<and> queryPos q = terminalPos q \<and> dataSize q \<noteq> 0"

text \<open>The room an insertion needs: no 32-bit sum of the code may wrap around.\<close>

definition dq_room :: "dataqueue \<Rightarrow> nat \<Rightarrow> bool" where
  "dq_room q n \<longleftrightarrow> unat (dataSize q) + n < 2 ^ 32 \<and> unat (bufferSize q) + n < 2 ^ 32
     \<and> unat (bufferSize q) + unat (bufferSize q) div 2 < 2 ^ 32"

definition dq_insert_ok :: "dataqueue \<Rightarrow> nat \<Rightarrow> bool" where
  "dq_insert_ok q n \<longleftrightarrow> dq_room q n
     \<and> (dq_aliased q \<longrightarrow> n = 0 \<or> unat (bufferSize q) < unat (dataSize q) + n)"

named_theorems dq_defs

lemmas [dq_defs] = dq_linear_def dq_wrapped_def dq_inv_def dq_contents_def

lemma dq_inv_init: "dq_inv dq_init" "dq_contents dq_init = []"
  by (simp_all add: dq_init_def dq_defs dq_bytes_def)

lemma dq_inv_bounds:
  assumes "dq_inv q"
  shows "unat (queryPos q) \<le> unat (terminalPos q)"
    and "unat (terminalPos q) \<le> length (dq_bytes q)"
    and "unat (insertPos q) \<le> unat (terminalPos q)"
  using assms by (auto simp: dq_defs word_le_nat_alt)

lemma dq_length_contents: "dq_inv q \<Longrightarrow> length (dq_contents q) = unat (dataSize q)"
  by (auto simp: dq_defs nat_words Let_def)

lemma dq_contents_linear:
  "dq_linear q \<Longrightarrow> dq_contents q = seg (dq_bytes q) (unat (queryPos q)) (unat (dataSize q))"
  by (simp add: dq_contents_def dq_linear_def)

lemma dq_contents_wrapped:
  "dq_wrapped q \<Longrightarrow> dq_contents q =
     seg (dq_bytes q) (unat (queryPos q)) (unat (terminalPos q) - unat (queryPos q))
     @ take (unat (insertPos q)) (dq_bytes q)"
  by (auto simp: dq_contents_def dq_wrapped_def nat_words Let_def)

lemma dq_size_le_buffer: "dq_inv q \<Longrightarrow> dataSize q \<le> bufferSize q"
  by (auto simp: dq_defs nat_words)

lemma dq_remove_data_inv: "dq_inv q \<Longrightarrow> dq_inv (dataqueue_remove_data q b)"
  by (auto simp: dq_defs nat_words dataqueue_remove_data_def Let_def dq_bytes_def)

lemma dq_remove_data_contents: "dq_contents (dataqueue_remove_data q b) = []"
  by (simp add: dq_defs dataqueue_remove_data_def Let_def)

subsection \<open>Reading\<close>

lemma dq_bytes_rewind [simp]: "dq_bytes (dq_rewind q) = dq_bytes q"
  by (simp add: dq_rewind_def dq_bytes_def)

lemma dq_rewind_size [simp]: "dataSize (dq_rewind q) = dataSize q"
  by (simp add: dq_rewind_def)

lemma dq_rewind_buffer [simp]: "bufferSize (dq_rewind q) = bufferSize q"
  "m_pDataQueueBuffer (dq_rewind q) = m_pDataQueueBuffer q"
  by (simp_all add: dq_rewind_def)

lemma dq_rewind_inv: "dq_inv q \<Longrightarrow> dataSize q \<noteq> 0 \<Longrightarrow> dq_inv (dq_rewind q)"
  by (auto simp: dq_defs dq_rewind_def dq_bytes_def nat_words)

lemma dq_rewind_contents:
  "dq_inv q \<Longrightarrow> dataSize q \<noteq> 0 \<Longrightarrow> dq_contents (dq_rewind q) = dq_contents q"
  by (auto simp: dq_defs dq_rewind_def dq_bytes_def nat_words seg_from_0)

lemma dq_rewind_progress:
  "dq_inv q \<Longrightarrow> dataSize q \<noteq> 0 \<Longrightarrow> queryPos (dq_rewind q) < terminalPos (dq_rewind q)"
  by (auto simp: dq_defs dq_rewind_def nat_words)

lemma dq_rewind_idem: "dq_inv q \<Longrightarrow> dataSize q \<noteq> 0 \<Longrightarrow> dq_rewind (dq_rewind q) = dq_rewind q"
  using dq_rewind_progress [of q] by (subst dq_rewind_def) simp

subsection \<open>Inserting\<close>

lemma dq_store_fields:
  assumes "length (dq_bytes q) = unat (bufferSize q)"
    and "unat (insertPos q) + length bs \<le> unat (bufferSize q)"
    and "unat (dataSize q) + length bs < 2 ^ 32"
  obtains q' where "dq_store q bs = Some q'"
    and "mem_write (dq_bytes q) (unat (insertPos q)) bs = Some (dq_bytes q')"
    and "length (dq_bytes q') = unat (bufferSize q)"
    and "unat (insertPos q') = unat (insertPos q) + length bs"
    and "unat (terminalPos q') = max (unat (terminalPos q)) (unat (insertPos q) + length bs)"
    and "unat (dataSize q') = unat (dataSize q) + length bs"
    and "queryPos q' = queryPos q" and "bufferSize q' = bufferSize q"
proof -
  have small: "length bs < 2 ^ 32" "unat (insertPos q) + length bs < 2 ^ 32"
    using assms unat_u32_less [of "bufferSize q"] by linarith+
  obtain buf where buf: "mem_write (dq_bytes q) (unat (insertPos q)) bs = Some buf"
    using assms by (auto simp: mem_write_def)
  have len: "length buf = unat (bufferSize q)"
    using length_mem_write [OF buf] assms(1) by simp
  define q' where "q' = q\<lparr>m_pDataQueueBuffer := map_option (\<lambda>_. buf) (m_pDataQueueBuffer q),
    dataSize := dataSize q + word_of_nat (length bs),
    insertPos := insertPos q + word_of_nat (length bs),
    terminalPos := max (terminalPos q) (insertPos q + word_of_nat (length bs))\<rparr>"
  have "dq_bytes q' = buf"
    using len assms(1) by (auto simp: q'_def dq_bytes_def split: option.splits)
  moreover have "dq_store q bs = Some q'"
    by (simp add: dq_store_def buf q'_def Let_def)
  ultimately show thesis
    using small assms(3) buf len by (intro that [of q']) (simp_all add: q'_def unat_max unat_add_small)
qed

lemma dq_store_linear:
  assumes "dq_linear q" and "length (dq_bytes q) = unat (bufferSize q)"
    and "unat (terminalPos q) + length bs \<le> unat (bufferSize q)"
  shows "\<exists>q'. dq_store q bs = Some q' \<and> dq_inv q' \<and> dq_linear q' \<and> dq_contents q' = dq_contents q @ bs"
proof -
  have pos: "unat (insertPos q) = unat (terminalPos q)" "unat (queryPos q) \<le> unat (terminalPos q)"
    "unat (dataSize q) = unat (terminalPos q) - unat (queryPos q)"
    using assms(1) by (auto simp: dq_linear_def nat_words)
  have "unat (dataSize q) + length bs < 2 ^ 32"
    using assms(3) pos unat_u32_less [of "bufferSize q"] by linarith
  with assms(2,3) pos obtain q' where store: "dq_store q bs = Some q'"
    and wrt: "mem_write (dq_bytes q) (unat (insertPos q)) bs = Some (dq_bytes q')"
    and len: "length (dq_bytes q') = unat (bufferSize q)"
    and nats: "unat (insertPos q') = unat (insertPos q) + length bs"
      "unat (terminalPos q') = max (unat (terminalPos q)) (unat (insertPos q) + length bs)"
      "unat (dataSize q') = unat (dataSize q) + length bs"
      "queryPos q' = queryPos q" "bufferSize q' = bufferSize q"
    using dq_store_fields [of q bs] by metis
  have lin: "dq_linear q'"
    using nats pos by (simp add: dq_linear_def nat_words)
  have inv: "dq_inv q'"
    using lin assms(3) nats pos len by (simp add: dq_inv_def nat_words)
  have "dq_contents q' = seg (dq_bytes q') (unat (queryPos q)) (unat (dataSize q) + length bs)"
    using lin nats by (simp add: dq_contents_linear)
  also have "\<dots> = seg (dq_bytes q') (unat (queryPos q)) (unat (dataSize q))
      @ seg (dq_bytes q') (unat (insertPos q)) (length bs)"
    using pos seg_append_seg [of "dq_bytes q'" "unat (queryPos q)" "unat (dataSize q)" "length bs"]
    by simp
  also have "\<dots> = dq_contents q @ bs"
    using pos assms(1) seg_mem_write_same [OF wrt]
    by (simp add: seg_mem_write_before [OF wrt] dq_contents_linear)
  finally show ?thesis using store inv lin by blast
qed

lemma dq_store_wrapped:
  assumes "length (dq_bytes q) = unat (bufferSize q)"
    and "unat (insertPos q) + length bs \<le> unat (queryPos q)"
    and "unat (queryPos q) \<le> unat (terminalPos q)" "unat (terminalPos q) \<le> unat (bufferSize q)"
    and "unat (dataSize q) = unat (terminalPos q) - unat (queryPos q) + unat (insertPos q)"
    and "0 < unat (insertPos q) + length bs"
  shows "\<exists>q'. dq_store q bs = Some q' \<and> dq_inv q' \<and> dq_contents q' = dq_contents q @ bs"
proof -
  have "unat (insertPos q) + length bs \<le> unat (bufferSize q)"
    "unat (dataSize q) + length bs < 2 ^ 32"
    using assms unat_u32_less [of "bufferSize q"] by linarith+
  with assms(1) obtain q' where store: "dq_store q bs = Some q'"
    and wrt: "mem_write (dq_bytes q) (unat (insertPos q)) bs = Some (dq_bytes q')"
    and len: "length (dq_bytes q') = unat (bufferSize q)"
    and nats: "unat (insertPos q') = unat (insertPos q) + length bs"
      "unat (terminalPos q') = max (unat (terminalPos q)) (unat (insertPos q) + length bs)"
      "unat (dataSize q') = unat (dataSize q) + length bs"
      "queryPos q' = queryPos q" "bufferSize q' = bufferSize q"
    using dq_store_fields [of q bs] by metis
  have term': "unat (terminalPos q') = unat (terminalPos q)"
    using nats assms by simp
  have wr: "dq_wrapped q'"
    using nats term' assms by (simp add: dq_wrapped_def nat_words)
  have inv: "dq_inv q'"
    using wr assms(4) nats term' len by (simp add: dq_inv_def nat_words)
  have old: "dq_contents q = seg (dq_bytes q) (unat (queryPos q))
      (unat (terminalPos q) - unat (queryPos q)) @ take (unat (insertPos q)) (dq_bytes q)"
    using assms(5) by (auto simp: dq_contents_def Let_def)
  have "take (unat (insertPos q) + length bs) (dq_bytes q')
      = seg (dq_bytes q') 0 (unat (insertPos q)) @ seg (dq_bytes q') (0 + unat (insertPos q)) (length bs)"
    using seg_append_seg [of "dq_bytes q'" 0 "unat (insertPos q)" "length bs"]
    by (simp add: seg_from_0)
  then have "take (unat (insertPos q) + length bs) (dq_bytes q') = take (unat (insertPos q)) (dq_bytes q) @ bs"
    using seg_mem_write_same [OF wrt] seg_mem_write_before [OF wrt, of 0 "unat (insertPos q)"]
    by (simp add: seg_from_0)
  moreover have "seg (dq_bytes q') (unat (queryPos q)) (unat (terminalPos q) - unat (queryPos q))
      = seg (dq_bytes q) (unat (queryPos q)) (unat (terminalPos q) - unat (queryPos q))"
    using seg_mem_write_after [OF wrt] assms(2) by simp
  ultimately have "dq_contents q' = dq_contents q @ bs"
    using wr nats term' old by (simp add: dq_contents_wrapped)
  then show ?thesis using store inv by blast
qed

lemma dq_compact_contents:
  assumes inv: "dq_inv q" and "m_pDataQueueBuffer q = Some old"
    and "unat (dataSize q) \<le> length new0"
  shows "\<exists>new. dq_compact q old new0 = Some new
          \<and> length new = length new0 \<and> take (unat (dataSize q)) new = dq_contents q"
proof -
  let ?p = "unat (terminalPos q) - unat (queryPos q)"
  let ?a = "seg old (unat (queryPos q)) ?p"
  have old: "dq_bytes q = old" using assms(2) by (simp add: dq_bytes_def)
  note bounds = dq_inv_bounds [OF inv, unfolded old]
  have part: "unat (terminalPos q - queryPos q) = ?p"
    using bounds by (simp add: unat_diff_le)
  have len_a: "length ?a = ?p" using bounds by simp
  have p_le: "?p \<le> unat (dataSize q)" using inv by (auto simp: dq_defs nat_words)
  define new1 where "new1 = ?a @ drop ?p new0"
  have read_a: "mem_read old (unat (queryPos q)) ?p = Some ?a"
    using bounds by (intro mem_read_Some) simp
  have first: "(if terminalPos q - queryPos q > 0
      then do { a \<leftarrow> mem_read old (unat (queryPos q)) (unat (terminalPos q - queryPos q));
                mem_write new0 0 a } else Some new0) = Some new1"
    using part p_le assms(3) len_a
    by (auto simp: new1_def read_a mem_write_at_0 word_less_nat_alt)
  have len1: "length new1 = length new0" using p_le assms(3) len_a by (simp add: new1_def)
  show ?thesis
  proof (cases "dq_linear q")
    case True
    then have "unat (dataSize q) = ?p" by (simp add: dq_linear_def)
    then show ?thesis
      using True first part len1 len_a
      by (simp add: dq_compact_def Let_def new1_def word_less_nat_alt dq_contents_linear old)
  next
    case False
    then have wr: "dq_wrapped q" using inv by (simp add: dq_inv_def)
    then have D: "unat (dataSize q) = ?p + unat (insertPos q)" "0 < unat (insertPos q)"
      by (simp_all add: dq_wrapped_def word_less_nat_alt)
    let ?b = "take (unat (insertPos q)) old"
    have read_b: "mem_read old 0 (unat (insertPos q)) = Some ?b" "length ?b = unat (insertPos q)"
      using bounds by (simp_all add: seg_from_0)
    have "mem_write new1 ?p ?b = Some (?a @ ?b @ drop (?p + unat (insertPos q)) new1)"
      using D assms(3) len1 len_a read_b(2) by (simp add: mem_write_Some new1_def)
    then show ?thesis
      using first part len1 len_a read_b D assms(3) wr
      by (simp add: dq_compact_def Let_def word_less_nat_alt dq_contents_wrapped old)
  qed
qed

lemma dq_grow_linear:
  assumes inv: "dq_inv q" and room: "dq_room q (unat n)"
  shows "\<exists>q'. dq_grow q n = Some q' \<and> dq_linear q' \<and> length (dq_bytes q') = unat (bufferSize q')
           \<and> dq_contents q' = dq_contents q \<and> terminalPos q' = dataSize q
           \<and> unat (bufferSize q') = unat (bufferSize q) + max (unat (bufferSize q) div 2) (unat n)"
proof -
  let ?B = "bufferSize q + max (bufferSize q div 2) n"
  have B: "unat ?B = unat (bufferSize q) + max (unat (bufferSize q) div 2) (unat n)"
    using room by (subst unat_add_small) (auto simp: dq_room_def unat_max unat_half)
  have size: "unat (dataSize q) \<le> unat ?B"
    using dq_size_le_buffer [OF inv] B by (simp add: word_le_nat_alt)
  have "\<exists>new. dq_grow q n = Some (q\<lparr>queryPos := 0, insertPos := dataSize q, terminalPos := dataSize q,
                bufferSize := ?B, m_pDataQueueBuffer := Some new\<rparr>)
          \<and> length new = unat ?B \<and> take (unat (dataSize q)) new = dq_contents q"
  proof (cases "m_pDataQueueBuffer q")
    case None
    then have "unat (bufferSize q) = 0"
      using inv by (simp add: dq_inv_def dq_bytes_def)
    then have "unat (dataSize q) = 0" "dq_contents q = []"
      using dq_size_le_buffer [OF inv] dq_length_contents [OF inv] by (simp_all add: word_le_nat_alt)
    then show ?thesis
      by (intro exI [of _ "replicate (unat ?B) NUL"]) (simp add: dq_grow_def Let_def None)
  next
    case (Some old)
    from dq_compact_contents [OF inv Some, of "replicate (unat ?B) NUL"] size
    show ?thesis by (auto simp: dq_grow_def Let_def Some simp del: length_0_conv)
  qed
  then show ?thesis
    using B by (auto simp: dq_linear_def dq_contents_linear dq_bytes_def seg_from_0)
qed

subsection \<open>Insertion refines appending\<close>

lemma dq_insert_refines_append:
  assumes inv: "dq_inv q" and ok: "dq_insert_ok q (length bs)"
  shows "\<exists>q'. dataqueue_insert_data q bs = Some q' \<and> dq_inv q' \<and> dq_contents q' = dq_contents q @ bs"
proof -
  let ?n = "word_of_nat (length bs) :: u32"
  have room: "dq_room q (length bs)" using ok by (simp add: dq_insert_ok_def)
  then have n: "unat ?n = length bs" by (simp add: dq_room_def)
  have bytes: "length (dq_bytes q) = unat (bufferSize q)" using inv by (simp add: dq_inv_def)
  note bounds = dq_inv_bounds [OF inv, unfolded bytes]
  have sums: "unat (dataSize q + ?n) = unat (dataSize q) + length bs"
    "unat (insertPos q + ?n) = unat (insertPos q) + length bs"
    using room bounds n by (simp_all add: dq_room_def unat_add_small)
  have size: "unat (dataSize q) \<le> unat (bufferSize q)"
    using dq_size_le_buffer [OF inv] by (simp add: word_le_nat_alt)
  have grow: ?thesis if "dq_probe q ?n = (True, q)"
  proof -
    from dq_grow_linear [OF inv, of ?n] room n obtain q1 where q1: "dq_grow q ?n = Some q1"
      "dq_linear q1" "length (dq_bytes q1) = unat (bufferSize q1)" "dq_contents q1 = dq_contents q"
      "terminalPos q1 = dataSize q"
      "unat (bufferSize q1) = unat (bufferSize q) + max (unat (bufferSize q) div 2) (length bs)"
      by auto
    have "unat (terminalPos q1) + length bs \<le> unat (bufferSize q1)" using q1 size by simp
    from dq_store_linear [OF q1(2,3) this] show ?thesis
      by (auto simp: dataqueue_insert_data_def Let_def that q1)
  qed
  consider (full) "unat (bufferSize q) < unat (dataSize q) + length bs"
    | (linear) "dq_linear q" "unat (dataSize q) + length bs \<le> unat (bufferSize q)"
    | (wrapped) "dq_wrapped q" "unat (dataSize q) + length bs \<le> unat (bufferSize q)"
    using inv unfolding dq_inv_def by linarith
  then show ?thesis
  proof cases
    case full
    then have "dq_probe q ?n = (True, q)" using sums by (simp add: dq_probe_def word_less_nat_alt)
    then show ?thesis by (rule grow)
  next
    case linear
    then have pos: "insertPos q = terminalPos q" by (simp add: dq_linear_def)
    consider "unat (terminalPos q) + length bs \<le> unat (bufferSize q)"
      | "unat (bufferSize q) < unat (terminalPos q) + length bs" "unat (queryPos q) < length bs"
      | "unat (bufferSize q) < unat (terminalPos q) + length bs" "length bs \<le> unat (queryPos q)"
      by linarith
    then show ?thesis
    proof cases
      case 1
      then have "dq_probe q ?n = (False, q)"
        using linear(2) sums pos by (simp add: dq_probe_def word_less_nat_alt)
      with dq_store_linear [OF linear(1) bytes 1] show ?thesis
        by (auto simp: dataqueue_insert_data_def Let_def)
    next
      case 2
      then have "dq_probe q ?n = (True, q)"
        using linear(2) sums pos n by (simp add: dq_probe_def word_less_nat_alt word_le_nat_alt)
      then show ?thesis by (rule grow)
    next
      case 3
      let ?q = "q\<lparr>insertPos := 0\<rparr>"
      have "dq_probe q ?n = (False, ?q)"
        using 3 linear(2) sums pos n by (simp add: dq_probe_def word_less_nat_alt word_le_nat_alt)
      moreover have "dq_bytes ?q = dq_bytes q" "dq_contents ?q = dq_contents q"
        using linear(1) by (simp_all add: dq_contents_def dq_linear_def dq_bytes_def)
      moreover have "0 < length bs" using 3(1) bounds by linarith
      ultimately show ?thesis
        using dq_store_wrapped [of ?q bs] 3 linear(1) bytes bounds
        by (auto simp: dataqueue_insert_data_def Let_def dq_linear_def word_le_nat_alt)
    qed
  next
    case wrapped
    then have pos: "0 < unat (insertPos q)" "unat (insertPos q) \<le> unat (queryPos q)"
      "unat (dataSize q) = unat (terminalPos q) - unat (queryPos q) + unat (insertPos q)"
      by (auto simp: dq_wrapped_def nat_words)
    show ?thesis
    proof (cases "unat (insertPos q) + length bs \<le> unat (queryPos q)")
      case True
      then have "dq_probe q ?n = (False, q)"
        using wrapped(2) sums bounds by (simp add: dq_probe_def nat_words)
      then show ?thesis
        using dq_store_wrapped [of q bs] bytes True bounds pos
        by (auto simp: dataqueue_insert_data_def Let_def)
    next
      case False
      have "\<not> dq_aliased q"
        using ok wrapped(2) False pos by (auto simp: dq_insert_ok_def)
      then have "insertPos q \<noteq> terminalPos q"
        using pos bounds by (auto simp: dq_aliased_def nat_words)
      then have "dq_probe q ?n = (True, q)"
        using False wrapped(2) sums bounds pos by (simp add: dq_probe_def nat_words)
      then show ?thesis by (rule grow)
    qed
  qed
qed

text \<open>
  The excluded corner is real: an aliased queue with free space behind \<open>terminalPos\<close>
  stores the new bytes there and turns them into the \<^emph>\<open>first\<close> part of the queue.
\<close>

lemma dq_insert_aliased:
  assumes inv: "dq_inv q" and al: "dq_aliased q" and ne: "bs \<noteq> []"
    and fits: "unat (dataSize q) + length bs \<le> unat (bufferSize q)"
  shows "\<exists>q'. dataqueue_insert_data q bs = Some q' \<and> dq_peek q' = Some (q', bs)
           \<and> unat (dataSize q') = length (dq_contents q) + length bs"
proof -
  let ?n = "word_of_nat (length bs) :: u32"
  have bytes: "length (dq_bytes q) = unat (bufferSize q)" using inv by (simp add: dq_inv_def)
  have pos: "queryPos q = terminalPos q" "insertPos q = terminalPos q" "dq_wrapped q"
    "unat (dataSize q) = unat (terminalPos q)"
    using al inv by (auto simp: dq_aliased_def dq_defs nat_words)
  have lt: "unat (dataSize q) + length bs < 2 ^ 32"
    using fits unat_u32_less [of "bufferSize q"] by linarith
  then have n: "unat ?n = length bs" and sums: "unat (dataSize q + ?n) = unat (dataSize q) + length bs"
    "unat (insertPos q + ?n) = unat (insertPos q) + length bs"
    using pos by (simp_all add: unat_add_small)
  have "dq_probe q ?n = (False, q)"
    using fits sums pos by (simp add: dq_probe_def word_less_nat_alt)
  moreover have "unat (insertPos q) + length bs \<le> unat (bufferSize q)" using fits pos by simp
  with bytes lt obtain q' where q': "dq_store q bs = Some q'"
    and wrt: "mem_write (dq_bytes q) (unat (insertPos q)) bs = Some (dq_bytes q')"
    and len: "length (dq_bytes q') = unat (bufferSize q)"
    and nats: "unat (insertPos q') = unat (insertPos q) + length bs"
      "unat (terminalPos q') = max (unat (terminalPos q)) (unat (insertPos q) + length bs)"
      "unat (dataSize q') = unat (dataSize q) + length bs"
      "queryPos q' = queryPos q" "bufferSize q' = bufferSize q"
    using dq_store_fields [of q bs] by metis
  have term': "unat (terminalPos q') = unat (terminalPos q) + length bs" using nats pos by simp
  then have ne': "queryPos q' \<noteq> terminalPos q'" using nats ne pos by (auto simp: nat_words)
  have "seg (dq_bytes q') (unat (terminalPos q)) (length bs) = bs"
    using seg_mem_write_same [OF wrt] pos by simp
  moreover have "unat (terminalPos q' - queryPos q') = length bs"
    using term' nats pos by (simp add: unat_diff_le)
  ultimately have "dq_peek q' = Some (q', bs)"
    using ne' nats pos term' len fits
    by (simp add: dq_peek_def dataqueue_next_data_def dq_rewind_def Let_def mem_read_def)
  then show ?thesis
    using q' \<open>dq_probe q ?n = (False, q)\<close> nats dq_length_contents [OF inv]
    by (auto simp: dataqueue_insert_data_def Let_def)
qed

subsection \<open>Reading and distilling\<close>

lemma dq_peek_chunk:
  assumes inv: "dq_inv q" and ne: "dq_contents q \<noteq> []"
  shows "\<exists>c. dq_peek q = Some (dq_rewind q, c) \<and> c \<noteq> [] \<and> prefix c (dq_contents q)
           \<and> length c = unat (terminalPos (dq_rewind q)) - unat (queryPos (dq_rewind q))"
proof -
  let ?q = "dq_rewind q"
  have D: "dataSize q \<noteq> 0" using dq_length_contents [OF inv] ne by auto
  have inv': "dq_inv ?q" and eq: "dq_contents ?q = dq_contents q"
    using dq_rewind_inv [OF inv D] dq_rewind_contents [OF inv D] by simp_all
  note bounds = dq_inv_bounds [OF inv']
  have pos: "unat (queryPos ?q) < unat (terminalPos ?q)"
    using dq_rewind_progress [OF inv D] by (simp add: word_less_nat_alt)
  have len: "unat (terminalPos ?q - queryPos ?q) = unat (terminalPos ?q) - unat (queryPos ?q)"
    using bounds by (simp add: unat_diff_le)
  let ?c = "seg (dq_bytes ?q) (unat (queryPos ?q)) (unat (terminalPos ?q) - unat (queryPos ?q))"
  have "dq_peek q = Some (?q, ?c)"
    using bounds len by (simp add: dq_peek_def dataqueue_next_data_def Let_def mem_read_def)
  moreover have "length ?c = unat (terminalPos ?q) - unat (queryPos ?q)" using bounds by simp
  moreover have "prefix ?c (dq_contents ?q)"
    unfolding dq_contents_def Let_def by simp
  ultimately show ?thesis using pos eq by fastforce
qed

lemma dq_distill_peeked:
  assumes inv: "dq_inv q" and D: "dataSize q \<noteq> 0" and rw: "dq_rewind q = q"
    and k: "unat k \<le> unat (terminalPos q) - unat (queryPos q)"
  shows "dq_inv (dataqueue_distill_data q k)
       \<and> dq_contents (dataqueue_distill_data q k) = drop (unat k) (dq_contents q)"
proof -
  let ?q = "dataqueue_distill_data q k"
  have "0 < unat (bufferSize q)"
    using dq_size_le_buffer [OF inv] D by (simp add: nat_words)
  then have buf: "m_pDataQueueBuffer q \<noteq> None"
    using inv by (cases "m_pDataQueueBuffer q") (auto simp: dq_inv_def dq_bytes_def)
  have q': "?q = q\<lparr>dataSize := dataSize q - k, queryPos := queryPos q + k\<rparr>"
    using D buf by (auto simp: dataqueue_distill_data_def rw)
  have le: "unat k \<le> unat (dataSize q)"
    using inv k by (auto simp: dq_defs nat_words)
  note bounds = dq_inv_bounds [OF inv]
  have "unat (queryPos q) + unat k \<le> unat (terminalPos q)" using k bounds by linarith
  then have "unat (queryPos q) + unat k < 2 ^ 32"
    using unat_u32_less [of "terminalPos q"] by linarith
  then have nats: "unat (queryPos q + k) = unat (queryPos q) + unat k"
    "unat (dataSize q - k) = unat (dataSize q) - unat k"
    using le by (simp_all add: unat_add_small unat_diff_le)
  have bytes: "dq_bytes ?q = dq_bytes q" by (simp add: q' dq_bytes_def)
  show ?thesis
  proof (cases "dq_linear q")
    case True
    then have "dq_linear ?q" using nats le k by (auto simp: dq_linear_def q' nat_words)
    then show ?thesis
      using True inv nats
      by (simp add: dq_inv_def bytes dq_contents_linear drop_seg) (simp add: q')
  next
    case False
    then have wr: "dq_wrapped q" using inv by (simp add: dq_inv_def)
    then have "dq_wrapped ?q" using nats le k by (auto simp: dq_wrapped_def q' nat_words)
    then show ?thesis
      using wr inv nats k bounds
      by (simp add: dq_inv_def bytes dq_contents_wrapped drop_seg) (simp add: q' drop_seg)
  qed
qed

section \<open>The ring buffer provides the byte-queue interface\<close>

definition dq_can_insert :: "dataqueue \<Rightarrow> byte list \<Rightarrow> bool" where
  "dq_can_insert q bs \<longleftrightarrow> dq_insert_ok q (length bs)"

interpretation dq: byte_queue dq_peek dataqueue_distill_data dataSize dq_contents dq_inv
  dq_init dataqueue_insert_data dq_can_insert
proof (unfold_locales, goal_cases)
  case (1 q)
  then show ?case by (simp add: dq_length_contents)
next
  case (2 q)
  then have "dataSize q \<noteq> 0" using dq_length_contents [of q] by auto
  with 2 show ?case
    using dq_peek_chunk [of q] dq_rewind_inv [of q] dq_rewind_contents [of q] by auto
next
  case (3 q q' c k)
  then have D: "dataSize q \<noteq> 0" using dq_length_contents [of q] by auto
  from dq_peek_chunk [OF 3(1,2)] 3(3) have q': "q' = dq_rewind q"
    "length c = unat (terminalPos (dq_rewind q)) - unat (queryPos (dq_rewind q))" by auto
  with 3 D show ?case
    using dq_distill_peeked [of q' k] dq_rewind_inv [of q] dq_rewind_contents [of q] dq_rewind_idem [of q]
    by simp
next
  case 4
  show ?case by (rule dq_inv_init(1))
next
  case 5
  show ?case by (rule dq_inv_init(2))
next
  case (6 q bs)
  then show ?case using dq_insert_refines_append by (simp add: dq_can_insert_def)
qed

section \<open>Properties\<close>

text \<open>A wrapped queue (the bytes \<open>''ghab''\<close>) and an aliased one, for the witnesses.\<close>

definition dq_wrapped_example :: dataqueue where
  "dq_wrapped_example = \<lparr>insertPos = 2, terminalPos = 8, queryPos = 6, dataSize = 4, bufferSize = 8,
     m_pDataQueueBuffer = Some ''abcdefgh''\<rparr>"

definition dq_aliased_example :: dataqueue where
  "dq_aliased_example = \<lparr>insertPos = 4, terminalPos = 4, queryPos = 4, dataSize = 4, bufferSize = 6,
     m_pDataQueueBuffer = Some ''abcdef''\<rparr>"

lemmas dq_examples = dq_wrapped_example_def dq_aliased_example_def dq_inv_def dq_linear_def
  dq_wrapped_def dq_bytes_def dq_contents_def dq_insert_ok_def dq_room_def dq_aliased_def

lemmas dq_eval = dq_init_def dataqueue_insert_data_def dq_probe_def dq_grow_def dq_compact_def
  dq_store_def mem_write_def mem_read_def seg_def dq_peek_def dataqueue_next_data_def dq_rewind_def
  dataqueue_distill_data_def dq_bytes_def Let_def

text \<open>
  C5. Insertion refines appending: within its precondition \<^verbatim>\<open>dataqueue_insert_data\<close> stays inside
  the buffer, keeps the invariant and puts the new bytes behind the stored ones, whether it
  stores in place, wraps around or moves to a larger buffer.
\<close>

theorem dq_insert_correct:
  assumes "dq_inv q" and "dq_insert_ok q (length bs)"
  shows "\<exists>q'. dataqueue_insert_data q bs = Some q' \<and> dq_inv q' \<and> dq_contents q' = dq_contents q @ bs"
  using assms by (rule dq_insert_refines_append)

theorem dq_insert_correct_witness:
  "\<exists>q'. dataqueue_insert_data dq_wrapped_example ''xyz'' = Some q' \<and> dq_inv q'
      \<and> dq_contents q' = dq_contents dq_wrapped_example @ ''xyz''"
  by (rule dq_insert_correct) (simp_all add: dq_examples)

text \<open>
  C6. Reading refines taking a prefix: on a non-empty queue the chunk handed out is a non-empty
  prefix of the contents, and distilling \<open>k\<close> of its bytes drops exactly \<open>k\<close> bytes.
\<close>

theorem dq_read_correct:
  assumes "dq_inv q" and "dq_contents q \<noteq> []"
  shows "\<exists>q' c. dq_peek q = Some (q', c) \<and> c \<noteq> [] \<and> prefix c (dq_contents q)
     \<and> (\<forall>k \<le> length c. dq_inv (dataqueue_distill_data q' (word_of_nat k))
          \<and> dq_contents (dataqueue_distill_data q' (word_of_nat k)) = drop k (dq_contents q))"
  using dq.read_step [OF assms] by metis

theorem dq_read_correct_witness:
  "\<exists>q' c. dq_peek dq_wrapped_example = Some (q', c) \<and> c \<noteq> [] \<and> prefix c (dq_contents dq_wrapped_example)
     \<and> (\<forall>k \<le> length c. dq_inv (dataqueue_distill_data q' (word_of_nat k))
          \<and> dq_contents (dataqueue_distill_data q' (word_of_nat k)) = drop k (dq_contents dq_wrapped_example))"
  by (rule dq_read_correct) (simp_all add: dq_examples seg_def)

text \<open>
  C4. First in, first out over any run: starting empty, whatever insertions and partial reads
  follow, as long as each insertion meets its precondition, the run never fails and the bytes
  read followed by the bytes still stored are the bytes inserted, in order.
\<close>

theorem dq_fifo:
  assumes "run_admissible dq_peek dataqueue_distill_data dataSize dataqueue_insert_data dq_can_insert ops dq_init"
  shows "\<exists>out q'. queue_run dq_peek dataqueue_distill_data dataSize dataqueue_insert_data ops dq_init
             = Some (out, q') \<and> dq_inv q' \<and> out @ dq_contents q' = bytes_put ops"
  using dq.run_fifo [OF dq.inv_empty assms] by (simp add: dq.abs_empty)

theorem dq_fifo_witness:
  "\<exists>out q'. queue_run dq_peek dataqueue_distill_data dataSize dataqueue_insert_data
       [Put ''abc'', Take 2, Put ''de'', Take 9, Take 9, Put ''f''] dq_init = Some (out, q')
     \<and> dq_inv q' \<and> out @ dq_contents q' = bytes_put [Put ''abc'', Take 2, Put ''de'', Take 9, Take 9, Put ''f'']"
  by (rule dq_fifo) (simp add: dq_eval dq_can_insert_def dq_examples)

text \<open>
  C11. What goes wrong outside that precondition: inserting into an aliased queue that still has
  room returns normally, but the next read hands out the new bytes first, before the older
  ones. The positions alone do not tell a full wrap from an empty queue, and line 25 takes
  \<open>insertPos = terminalPos\<close> for the unwrapped case.
\<close>

theorem dq_insert_aliased_reorders:
  assumes "dq_inv q" and "dq_aliased q" and "bs \<noteq> []"
    and "unat (dataSize q) + length bs \<le> unat (bufferSize q)"
  shows "\<exists>q'. dataqueue_insert_data q bs = Some q' \<and> dq_peek q' = Some (q', bs)
           \<and> unat (dataSize q') = length (dq_contents q) + length bs"
  using assms by (rule dq_insert_aliased)

theorem dq_insert_aliased_reorders_witness:
  "\<exists>q'. dataqueue_insert_data dq_aliased_example ''X'' = Some q' \<and> dq_peek q' = Some (q', ''X'')
      \<and> unat (dataSize q') = length (dq_contents dq_aliased_example) + length ''X''"
  by (rule dq_insert_aliased_reorders) (simp_all add: dq_examples)


end
