(* ===== verification/Msg_Parser.thy ===== *)
theory Msg_Parser
  imports Msg_Frame Dataqueue
begin

text \<open>
  \<^verbatim>\<open>msgpraser.c\<close> / \<^verbatim>\<open>msgparser.h\<close>: reassembly of frames from the bytes of a channel's
  input queue, and their dispatch to the message handler.
\<close>

section \<open>State and operations\<close>

record msgparser =
  recvPacketCount :: u32
  sendPacketCount :: u32
  stCmdHead :: CMD_Head
  isHeadGotten :: bool
  pos :: nat

definition msgparser_zero :: msgparser where
  "msgparser_zero =
     \<lparr>recvPacketCount = 0, sendPacketCount = 0,
      stCmdHead = \<lparr>CmdInfo = \<lparr>cbVersion = 0, cbCheckCode = 0, wPacketSize = 0\<rparr>,
                   CommandInfo = \<lparr>wMainCmdID = 0, wSubCmdID = 0\<rparr>\<rparr>,
      isHeadGotten = False, pos = 0\<rparr>"

text \<open>
  The loop that occurs twice in \<^verbatim>\<open>_command\<close> (lines 21 to 29 and 61 to 68): copy from the
  queue to \<open>buf + pos\<close> until \<open>pos\<close> reaches \<open>need\<close>. Every round must copy at least one
  byte, so \<open>need - pos\<close> rounds are enough; \<open>None\<close> is a loop that would not end, or a
  copy outside its buffer.
\<close>

fun copy_loop :: "('q \<Rightarrow> ('q \<times> byte list) option) \<Rightarrow> ('q \<Rightarrow> u32 \<Rightarrow> 'q) \<Rightarrow> nat \<Rightarrow>
    nat \<Rightarrow> nat \<Rightarrow> byte list \<Rightarrow> 'q \<Rightarrow> (nat \<times> byte list \<times> 'q) option" where
  "copy_loop pk ds 0 need ps buf q = (if ps < need then None else Some (ps, buf, q))"
| "copy_loop pk ds (Suc fuel) need ps buf q =
     (if ps < need
      then do { (q1, c) \<leftarrow> pk q;
                let sz = min (length c) (need - ps);
                buf1 \<leftarrow> mem_write buf ps (take sz c);
                copy_loop pk ds fuel need (ps + sz) buf1 (ds q1 (word_of_nat sz)) }
      else Some (ps, buf, q))"

abbreviation dq_copy :: "nat \<Rightarrow> nat \<Rightarrow> byte list \<Rightarrow> dataqueue \<Rightarrow> (nat \<times> byte list \<times> dataqueue) option" where
  "dq_copy need ps buf q \<equiv> copy_loop dq_peek dataqueue_distill_data (need - ps) need ps buf q"

text \<open>What one call of \<^verbatim>\<open>_command\<close> reports: an error, no complete packet, or a packet.\<close>

datatype command_result = Cmd_Error | Cmd_Incomplete | Cmd_Packet u16

type_synonym command_state = "msgparser \<times> byte list \<times> dataqueue"

text \<open>Lines 44 to 77, the round with the head at hand. It always leaves the loop.\<close>

definition command_body :: "command_state \<Rightarrow> (command_result \<times> command_state) option" where
  "command_body = (\<lambda>(coder, buf, q).
     let sz = unat (wPacketSize (CmdInfo (stCmdHead coder)))
     in if sz > SOCKET_PACKET then Some (Cmd_Error, coder, buf, q)
        else if unat (dataSize q) + sizeof_CMD_Head < sz then Some (Cmd_Incomplete, coder, buf, q)
        else do {
          buf1 \<leftarrow> mem_write buf 0 (head_bytes (stCmdHead coder));
          (p, buf2, q1) \<leftarrow> dq_copy sz (pos coder) buf1 q;
          Some (Cmd_Packet (wPacketSize (CmdInfo (stCmdHead coder))),
                coder\<lparr>pos := p, isHeadGotten := False\<rparr>, buf2, q1) })"

text \<open>Lines 14 to 43, the round that reads the head. \<open>Some (None, s)\<close> goes round again.\<close>

definition command_head :: "command_state \<Rightarrow> (command_result option \<times> command_state) option" where
  "command_head = (\<lambda>(coder, buf, q).
     if unat (dataSize q) < sizeof_CMD_Head then Some (Some Cmd_Incomplete, coder, buf, q)
     else do {
       (p, buf1, q1) \<leftarrow> dq_copy sizeof_CMD_Head 0 buf q;
       hd8 \<leftarrow> mem_read buf1 0 sizeof_CMD_Head;
       let coder1 = coder\<lparr>pos := p, stCmdHead := bytes_head hd8\<rparr>;
       Some (if cbVersion (CmdInfo (stCmdHead coder1)) \<noteq> SOCKET_VER
             then (Some Cmd_Error, coder1, buf1, q1)
             else (None, coder1\<lparr>isHeadGotten := True\<rparr>, buf1, q1)) })"

definition command :: "command_state \<Rightarrow> (command_result \<times> command_state) option" where
  "command st =
     (if isHeadGotten (fst st) then command_body st
      else do { (r, st1) \<leftarrow> command_head st;
                (case r of Some res \<Rightarrow> Some (res, st1) | None \<Rightarrow> command_body st1) })"

text \<open>
  \<^verbatim>\<open>msgparser_parser\<close>: the handler is an argument that works on the user's own state
  \<open>'u\<close> and tells whether to go on. Each round discards a byte or finishes a pending
  frame, so twice the number of queued bytes plus two rounds are enough.
\<close>

type_synonym 'u msg_continue = "'u \<Rightarrow> u16 \<Rightarrow> u16 \<Rightarrow> byte list \<Rightarrow> 'u \<times> bool"

fun parser_loop :: "'u msg_continue \<Rightarrow> nat \<Rightarrow> command_state \<Rightarrow> 'u \<Rightarrow> (bool \<times> command_state \<times> 'u) option" where
  "parser_loop pfn 0 st u = None"
| "parser_loop pfn (Suc fuel) st u =
     (if dataSize (snd (snd st)) = 0 then Some (True, st, u)
      else do {
        (r, st1) \<leftarrow> command st;
        (case r of
           Cmd_Error \<Rightarrow> Some (False, st1, u)
         | Cmd_Incomplete \<Rightarrow> Some (True, st1, u)
         | Cmd_Packet sz \<Rightarrow>
             if unat sz < sizeof_CMD_Head then Some (False, st1, u)
             else do {
               let (coder, buf, q) = st1;
               hd8 \<leftarrow> mem_read buf 0 sizeof_CMD_Head;
               d \<leftarrow> mem_read buf sizeof_CMD_Head (unat sz - sizeof_CMD_Head);
               let cmd = CommandInfo (bytes_head hd8);
               let coder1 = coder\<lparr>recvPacketCount := recvPacketCount coder + 1\<rparr>;
               let (u1, go) = pfn u (wMainCmdID cmd) (wSubCmdID cmd) d;
               (if go then parser_loop pfn fuel (coder1, buf, q) u1
                else Some (False, (coder1, buf, q), u1)) }) })"

definition msgparser_parser :: "'u msg_continue \<Rightarrow> command_state \<Rightarrow> 'u \<Rightarrow> (bool \<times> command_state \<times> 'u) option" where
  "msgparser_parser pfn st u = parser_loop pfn (2 * unat (dataSize (snd (snd st))) + 2) st u"

section \<open>Copying from a byte source\<close>

context byte_source
begin

lemma copy_loop_takes:
  assumes "inv q" and "ps \<le> need" and "need \<le> length buf"
    and "need - ps \<le> length (abs q)" and "need - ps \<le> fuel"
  shows "\<exists>q'. copy_loop peek distill fuel need ps buf q
            = Some (need, take ps buf @ take (need - ps) (abs q) @ drop need buf, q')
          \<and> inv q' \<and> abs q' = drop (need - ps) (abs q)"
  using assms
proof (induction fuel arbitrary: ps buf q)
  case 0
  then show ?case by simp
next
  case (Suc fuel)
  show ?case
  proof (cases "ps < need")
    case False
    with Suc.prems show ?thesis by simp
  next
    case True
    then have "abs q \<noteq> []" using Suc.prems by auto
    with Suc.prems(1) obtain q1 c where c: "peek q = Some (q1, c)" "c \<noteq> []" "prefix c (abs q)"
      and dist: "\<And>k. k \<le> length c \<Longrightarrow> inv (distill q1 (word_of_nat k))
            \<and> abs (distill q1 (word_of_nat k)) = drop k (abs q)"
      by (rule read_step) blast
    define k where "k = min (length c) (need - ps)"
    let ?q2 = "distill q1 (word_of_nat k)"
    let ?buf = "take ps buf @ take k c @ drop (ps + k) buf"
    have k: "0 < k" "ps + k \<le> need" "k \<le> length (abs q)" "k \<le> length c"
      using True c prefix_length_le [OF c(3)] by (auto simp: k_def)
    have q2: "inv ?q2" "abs ?q2 = drop k (abs q)" using dist [OF k(4)] by simp_all
    have wr: "mem_write buf ps (take k c) = Some ?buf"
      using k Suc.prems by (simp add: mem_write_Some)
    have "\<exists>q'. copy_loop peek distill fuel need (ps + k) ?buf ?q2
            = Some (need, take (ps + k) ?buf @ take (need - (ps + k)) (abs ?q2) @ drop need ?buf, q')
          \<and> inv q' \<and> abs q' = drop (need - (ps + k)) (abs ?q2)"
      using k Suc.prems q2 by (intro Suc.IH) auto
    moreover have "take k c = take k (abs q)"
      using c(3) k by (auto simp: prefix_def)
    moreover from this k Suc.prems have "take (ps + k) ?buf @ take (need - (ps + k)) (abs ?q2) @ drop need ?buf
        = take ps buf @ take (need - ps) (abs q) @ drop need buf"
      using take_add [of k "need - ps - k" "abs q"] q2 by simp
    moreover have "drop (need - (ps + k)) (abs ?q2) = drop (need - ps) (abs q)"
      using k q2 by simp
    moreover have "copy_loop peek distill (Suc fuel) need ps buf q
        = copy_loop peek distill fuel need (ps + k) ?buf ?q2"
      using True c(1) wr by (simp add: Let_def flip: k_def)
    ultimately show ?thesis by metis
  qed
qed

end

section \<open>Specification: frames of a byte stream\<close>

datatype frame_result = Need_More | Bad_Frame | Frame u16 u16 "byte list" "byte list"

text \<open>The first frame of a stream: its command, its payload and the bytes after it.\<close>

definition next_frame :: "byte list \<Rightarrow> frame_result" where
  "next_frame s =
     (if length s < sizeof_CMD_Head then Need_More
      else let h = bytes_head (take sizeof_CMD_Head s); sz = unat (wPacketSize (CmdInfo h))
           in if cbVersion (CmdInfo h) \<noteq> SOCKET_VER \<or> sz > SOCKET_PACKET then Bad_Frame
              else if length s < sz then Need_More
              else if sz < sizeof_CMD_Head then Bad_Frame
              else Frame (wMainCmdID (CommandInfo h)) (wSubCmdID (CommandInfo h))
                     (seg s sizeof_CMD_Head (sz - sizeof_CMD_Head)) (drop sz s))"

lemma next_frame_shorter: "next_frame s = Frame m sb d r \<Longrightarrow> length r < length s"
  by (auto simp: next_frame_def Let_def sizeof_CMD_Head_def split: if_splits)

text \<open>Hand every complete frame to the handler; the third component is the unread tail.\<close>

function dispatch :: "'u msg_continue \<Rightarrow> byte list \<Rightarrow> 'u \<Rightarrow> bool \<times> 'u \<times> byte list" where
  "dispatch pfn s u =
     (case next_frame s of
        Need_More \<Rightarrow> (True, u, s)
      | Bad_Frame \<Rightarrow> (False, u, [])
      | Frame m sb d r \<Rightarrow> let (u1, go) = pfn u m sb d
                         in if go then dispatch pfn r u1 else (False, u1, []))"
  by pat_completeness auto
termination
  by (relation "measure (\<lambda>(pfn, s, u). length s)") (auto dest: next_frame_shorter)

declare dispatch.simps [simp del]

lemma next_frame_frame_bytes:
  assumes "sizeof_CMD_Head + length d \<le> SOCKET_PACKET"
  shows "next_frame (frame_bytes m sb d @ r) = Frame m sb d r"
proof -
  have n: "unat (word_of_nat (sizeof_CMD_Head + length d) :: u16) = sizeof_CMD_Head + length d"
    using assms by (subst unat_of_nat) (simp add: frame_sizes)
  have "take sizeof_CMD_Head (frame_bytes m sb d @ r) = head_bytes (frame_head m sb d)"
    by (simp add: frame_bytes_def)
  then have "bytes_head (take sizeof_CMD_Head (frame_bytes m sb d @ r)) = frame_head m sb d"
    using bytes_head_head_bytes [of _ "[]"] by simp
  then show ?thesis
    using assms n by (simp add: next_frame_def Let_def frame_head_def frame_bytes_def seg_def)
qed

lemma dispatch_frames:
  assumes "\<forall>(m, sb, d) \<in> set fs. sizeof_CMD_Head + length d \<le> SOCKET_PACKET"
    and "next_frame r = Need_More"
  shows "dispatch (\<lambda>u m sb d. (u @ [(m, sb, d)], True))
           (concat (map (\<lambda>(m, sb, d). frame_bytes m sb d) fs) @ r) u = (True, u @ fs, r)"
  using assms(1)
proof (induction fs arbitrary: u)
  case Nil
  then show ?case using assms(2) by (simp add: dispatch.simps)
next
  case (Cons f fs)
  obtain m sb d where f: "f = (m, sb, d)" by (cases f)
  then have "next_frame (frame_bytes m sb d @ concat (map (\<lambda>(m, sb, d). frame_bytes m sb d) fs) @ r)
      = Frame m sb d (concat (map (\<lambda>(m, sb, d). frame_bytes m sb d) fs) @ r)"
    using Cons.prems by (intro next_frame_frame_bytes) simp
  then show ?case using Cons f by (subst dispatch.simps) simp
qed

section \<open>The parser implements the specification\<close>

definition head_ready :: "msgparser \<Rightarrow> bool" where
  "head_ready coder \<longleftrightarrow> isHeadGotten coder \<and> pos coder = sizeof_CMD_Head
     \<and> cbVersion (CmdInfo (stCmdHead coder)) = SOCKET_VER"

fun mp_inv :: "command_state \<Rightarrow> bool" where
  "mp_inv (coder, buf, q) \<longleftrightarrow> dq_inv q \<and> length buf = PACKET_BUFFER
     \<and> (isHeadGotten coder \<longrightarrow> head_ready coder
          \<and> sizeof_CMD_Head < unat (wPacketSize (CmdInfo (stCmdHead coder)))
          \<and> unat (wPacketSize (CmdInfo (stCmdHead coder))) \<le> SOCKET_PACKET)"

text \<open>The bytes received and not yet handed over: a head already copied, then the queue.\<close>

fun mp_pending :: "command_state \<Rightarrow> byte list" where
  "mp_pending (coder, buf, q) =
     (if isHeadGotten coder then head_bytes (stCmdHead coder) else []) @ dq_contents q"

fun command_meets :: "frame_result \<Rightarrow> byte list \<Rightarrow> command_result \<Rightarrow> command_state \<Rightarrow> bool" where
  "command_meets Need_More s r st1 \<longleftrightarrow> r = Cmd_Incomplete \<and> mp_inv st1 \<and> mp_pending st1 = s"
| "command_meets Bad_Frame s r st1 \<longleftrightarrow>
     r = Cmd_Error \<or> (\<exists>sz. r = Cmd_Packet sz \<and> unat sz < sizeof_CMD_Head)"
| "command_meets (Frame m sb d rest) s r st1 \<longleftrightarrow>
     (\<exists>sz coder buf q h. r = Cmd_Packet sz \<and> unat sz = sizeof_CMD_Head + length d
        \<and> st1 = (coder, buf, q) \<and> mp_inv st1 \<and> \<not> isHeadGotten coder \<and> dq_contents q = rest
        \<and> take (unat sz) buf = head_bytes h @ d
        \<and> CommandInfo h = \<lparr>wMainCmdID = m, wSubCmdID = sb\<rparr>)"

lemma next_frame_head:
  assumes "cbVersion (CmdInfo h) = SOCKET_VER" and "sz = unat (wPacketSize (CmdInfo h))"
  shows "next_frame (head_bytes h @ c) =
     (if sz > SOCKET_PACKET then Bad_Frame
      else if sizeof_CMD_Head + length c < sz then Need_More
      else if sz < sizeof_CMD_Head then Bad_Frame
      else Frame (wMainCmdID (CommandInfo h)) (wSubCmdID (CommandInfo h))
             (take (sz - sizeof_CMD_Head) c) (drop (sz - sizeof_CMD_Head) c))"
proof -
  have "bytes_head (take sizeof_CMD_Head (head_bytes h @ c)) = h"
    using bytes_head_head_bytes [of h "[]"] by simp
  then show ?thesis using assms by (simp add: next_frame_def Let_def seg_def)
qed

lemma command_body_meets:
  assumes inv: "dq_inv q" and buf: "length buf = PACKET_BUFFER" and head: "head_ready coder"
  shows "\<exists>r st1. command_body (coder, buf, q) = Some (r, st1)
           \<and> command_meets (next_frame (mp_pending (coder, buf, q))) (mp_pending (coder, buf, q)) r st1"
proof -
  let ?h = "stCmdHead coder"
  define sz where "sz = unat (wPacketSize (CmdInfo ?h))"
  let ?c = "dq_contents q"
  have pend: "mp_pending (coder, buf, q) = head_bytes ?h @ ?c"
    using head by (simp add: head_ready_def)
  have nf: "next_frame (head_bytes ?h @ ?c) =
     (if sz > SOCKET_PACKET then Bad_Frame
      else if sizeof_CMD_Head + length ?c < sz then Need_More
      else if sz < sizeof_CMD_Head then Bad_Frame
      else Frame (wMainCmdID (CommandInfo ?h)) (wSubCmdID (CommandInfo ?h))
             (take (sz - sizeof_CMD_Head) ?c) (drop (sz - sizeof_CMD_Head) ?c))"
    using head by (intro next_frame_head) (simp_all add: head_ready_def sz_def)
  have size: "unat (dataSize q) = length ?c" by (simp add: dq_length_contents inv)
  consider (large) "SOCKET_PACKET < sz"
    | (more) "sz \<le> SOCKET_PACKET" "sizeof_CMD_Head + length ?c < sz"
    | (full) "sz \<le> SOCKET_PACKET" "sz \<le> sizeof_CMD_Head + length ?c" by linarith
  then show ?thesis
  proof cases
    case large
    then show ?thesis
      using nf head by (simp add: command_body_def Let_def head_ready_def flip: sz_def)
  next
    case more
    then show ?thesis
      using nf inv buf head size
      by (simp add: command_body_def Let_def head_ready_def add.commute flip: sz_def)
  next
    case full
    let ?buf1 = "head_bytes ?h @ drop sizeof_CMD_Head buf"
    have len1: "length ?buf1 = PACKET_BUFFER" using buf by (simp add: frame_sizes)
    have wr: "mem_write buf 0 (head_bytes ?h) = Some ?buf1"
      using buf by (simp add: mem_write_at_0 frame_sizes)
    show ?thesis
    proof (cases "sz < sizeof_CMD_Head")
      case True
      then show ?thesis
        using nf full wr head size
        by (simp add: command_body_def Let_def head_ready_def flip: sz_def)
    next
      case False
      have "\<exists>q'. dq_copy sz sizeof_CMD_Head ?buf1 q
          = Some (sz, take sizeof_CMD_Head ?buf1 @ take (sz - sizeof_CMD_Head) ?c @ drop sz ?buf1, q')
        \<and> dq_inv q' \<and> dq_contents q' = drop (sz - sizeof_CMD_Head) ?c"
        using inv False full len1 by (intro dq.copy_loop_takes) (auto simp: frame_sizes)
      then obtain q' where q': "dq_copy sz sizeof_CMD_Head ?buf1 q
          = Some (sz, head_bytes ?h @ take (sz - sizeof_CMD_Head) ?c @ drop sz ?buf1, q')"
        "dq_inv q'" "dq_contents q' = drop (sz - sizeof_CMD_Head) ?c" by auto
      let ?st = "(coder\<lparr>pos := sz, isHeadGotten := False\<rparr>,
        head_bytes ?h @ take (sz - sizeof_CMD_Head) ?c @ drop sz ?buf1, q')"
      have "command_body (coder, buf, q) = Some (Cmd_Packet (wPacketSize (CmdInfo ?h)), ?st)"
        using full size wr q'(1) head
        by (simp add: command_body_def Let_def head_ready_def flip: sz_def)
      moreover have "take sz (head_bytes ?h @ take (sz - sizeof_CMD_Head) ?c @ drop sz ?buf1)
          = head_bytes ?h @ take (sz - sizeof_CMD_Head) ?c"
        using False full by simp
      moreover have "mp_inv ?st"
        using q' False full len1 by (simp add: frame_sizes)
      ultimately show ?thesis
        using nf False full q' pend by (auto simp: sz_def [symmetric])
    qed
  qed
qed

lemma command_head_step:
  assumes inv: "dq_inv q" and buf: "length buf = PACKET_BUFFER"
    and len: "sizeof_CMD_Head \<le> length (dq_contents q)"
  obtains coder1 buf1 q1 where
    "command_head (coder, buf, q) = Some
       (if cbVersion (CmdInfo (stCmdHead coder1)) \<noteq> SOCKET_VER then (Some Cmd_Error, coder1, buf1, q1)
        else (None, coder1\<lparr>isHeadGotten := True\<rparr>, buf1, q1))"
    and "pos coder1 = sizeof_CMD_Head" and "stCmdHead coder1 = bytes_head (take sizeof_CMD_Head (dq_contents q))"
    and "dq_inv q1" and "length buf1 = PACKET_BUFFER"
    and "head_bytes (stCmdHead coder1) @ dq_contents q1 = dq_contents q"
proof -
  have "\<exists>q'. dq_copy sizeof_CMD_Head 0 buf q
      = Some (sizeof_CMD_Head, take 0 buf @ take (sizeof_CMD_Head - 0) (dq_contents q)
           @ drop sizeof_CMD_Head buf, q')
    \<and> dq_inv q' \<and> dq_contents q' = drop (sizeof_CMD_Head - 0) (dq_contents q)"
    using inv len buf by (intro dq.copy_loop_takes) (auto simp: frame_sizes)
  then obtain q1 where q1: "dq_copy sizeof_CMD_Head 0 buf q
      = Some (sizeof_CMD_Head, take sizeof_CMD_Head (dq_contents q) @ drop sizeof_CMD_Head buf, q1)"
    "dq_inv q1" "dq_contents q1 = drop sizeof_CMD_Head (dq_contents q)" by auto
  let ?h8 = "take sizeof_CMD_Head (dq_contents q)"
  have l8: "length ?h8 = sizeof_CMD_Head" using len by simp
  then have "mem_read (?h8 @ drop sizeof_CMD_Head buf) 0 sizeof_CMD_Head = Some ?h8"
    using buf by (simp add: mem_read_def seg_def frame_sizes)
  moreover have "unat (dataSize q) = length (dq_contents q)" by (simp add: dq_length_contents inv)
  ultimately show thesis
    using q1 l8 len buf head_bytes_bytes_head [OF l8]
    by (intro that [of "coder\<lparr>pos := sizeof_CMD_Head, stCmdHead := bytes_head ?h8\<rparr>"
          "?h8 @ drop sizeof_CMD_Head buf" q1])
       (simp_all add: command_head_def Let_def frame_sizes)
qed

lemma command_meets_spec:
  assumes "mp_inv st"
  shows "\<exists>r st1. command st = Some (r, st1) \<and> command_meets (next_frame (mp_pending st)) (mp_pending st) r st1"
proof -
  obtain coder buf q where st: "st = (coder, buf, q)" by (cases st)
  with assms have inv: "dq_inv q" and buf: "length buf = PACKET_BUFFER" by simp_all
  show ?thesis
  proof (cases "isHeadGotten coder")
    case True
    then show ?thesis
      using command_body_meets [OF inv buf, of coder] assms st by (simp add: command_def)
  next
    case False
    then have pend: "mp_pending st = dq_contents q" by (simp add: st)
    show ?thesis
    proof (cases "sizeof_CMD_Head \<le> length (dq_contents q)")
      case False
      then show ?thesis
        using \<open>\<not> isHeadGotten coder\<close> assms pend dq_length_contents [OF inv] st
        by (simp add: command_def command_head_def next_frame_def)
    next
      case True
      from command_head_step [OF inv buf True, of coder] obtain coder1 buf1 q1 where
        head: "command_head (coder, buf, q) = Some
           (if cbVersion (CmdInfo (stCmdHead coder1)) \<noteq> SOCKET_VER then (Some Cmd_Error, coder1, buf1, q1)
            else (None, coder1\<lparr>isHeadGotten := True\<rparr>, buf1, q1))"
        and c1: "pos coder1 = sizeof_CMD_Head" "stCmdHead coder1 = bytes_head (take sizeof_CMD_Head (dq_contents q))"
        and q1: "dq_inv q1" "length buf1 = PACKET_BUFFER"
        and eq: "head_bytes (stCmdHead coder1) @ dq_contents q1 = dq_contents q" .
      show ?thesis
      proof (cases "cbVersion (CmdInfo (stCmdHead coder1)) = SOCKET_VER")
        case True
        then have "head_ready (coder1\<lparr>isHeadGotten := True\<rparr>)" using c1 by (simp add: head_ready_def)
        from command_body_meets [OF q1 this] show ?thesis
          using head True \<open>\<not> isHeadGotten coder\<close> pend eq st by (simp add: command_def)
      next
        case False
        then have "next_frame (dq_contents q) = Bad_Frame"
          using c1 \<open>sizeof_CMD_Head \<le> length (dq_contents q)\<close> by (simp add: next_frame_def Let_def)
        then show ?thesis
          using head False \<open>\<not> isHeadGotten coder\<close> pend st by (simp add: command_def)
      qed
    qed
  qed
qed

lemma mp_frame_shorter:
  assumes "mp_inv (coder, buf, q)" and "next_frame (mp_pending (coder, buf, q)) = Frame m sb d r"
  shows "length r < length (dq_contents q)"
proof (cases "isHeadGotten coder")
  case True
  with assms(1) have "cbVersion (CmdInfo (stCmdHead coder)) = SOCKET_VER"
    and "sizeof_CMD_Head < unat (wPacketSize (CmdInfo (stCmdHead coder)))"
    by (simp_all add: head_ready_def)
  then show ?thesis
    using assms(2) True by (auto simp: next_frame_head [OF _ refl] split: if_splits)
next
  case False
  then show ?thesis using assms(2) next_frame_shorter by simp
qed

lemma mp_pending_starved:
  assumes "mp_inv (coder, buf, q)" and "dataSize q = 0"
  shows "next_frame (mp_pending (coder, buf, q)) = Need_More"
proof -
  from assms have empty: "dq_contents q = []" using dq_length_contents [of q] by simp
  show ?thesis
  proof (cases "isHeadGotten coder")
    case True
    then show ?thesis
      using assms(1) empty next_frame_head [OF _ refl, of "stCmdHead coder" "[]"]
      by (simp add: head_ready_def)
  next
    case False
    then show ?thesis using empty by (simp add: next_frame_def sizeof_CMD_Head_def)
  qed
qed

lemma parser_loop_dispatch:
  "mp_inv st \<Longrightarrow> unat (dataSize (snd (snd st))) < fuel \<Longrightarrow>
   \<exists>ok st1 u1 rest. parser_loop pfn fuel st u = Some (ok, st1, u1)
     \<and> dispatch pfn (mp_pending st) u = (ok, u1, rest)
     \<and> (ok \<longrightarrow> mp_inv st1 \<and> mp_pending st1 = rest)"
proof (induction fuel arbitrary: st u)
  case 0
  then show ?case by simp
next
  case (Suc fuel)
  obtain coder buf q where st: "st = (coder, buf, q)" by (cases st)
  show ?case
  proof (cases "dataSize q = 0")
    case True
    then show ?thesis
      using mp_pending_starved [of coder buf q] Suc.prems(1)
      by (subst dispatch.simps) (auto simp: st)
  next
    case False
    from command_meets_spec [OF Suc.prems(1)] obtain r st1 where cmd: "command st = Some (r, st1)"
      and meets: "command_meets (next_frame (mp_pending st)) (mp_pending st) r st1" by blast
    show ?thesis
    proof (cases "next_frame (mp_pending st)")
      case Need_More
      then show ?thesis
        using False cmd meets by (subst dispatch.simps) (auto simp: st)
    next
      case Bad_Frame
      then have "parser_loop pfn (Suc fuel) st u = Some (False, st1, u)"
        using False cmd meets by (auto simp: st)
      moreover have "dispatch pfn (mp_pending st) u = (False, u, [])"
        using Bad_Frame by (subst dispatch.simps) simp
      ultimately show ?thesis by blast
    next
      case (Frame m sb d rest)
      with meets obtain sz coder1 buf1 q1 h where
        r: "r = Cmd_Packet sz" "unat sz = sizeof_CMD_Head + length d" "st1 = (coder1, buf1, q1)"
        and inv1: "mp_inv st1" and c1: "\<not> isHeadGotten coder1" "dq_contents q1 = rest"
        and buf1: "take (unat sz) buf1 = head_bytes h @ d"
        and h: "CommandInfo h = \<lparr>wMainCmdID = m, wSubCmdID = sb\<rparr>"
        by auto
      let ?coder2 = "coder1\<lparr>recvPacketCount := recvPacketCount coder1 + 1\<rparr>"
      obtain u1 go where pfn: "pfn u m sb d = (u1, go)" by (cases "pfn u m sb d")
      obtain t where t: "buf1 = head_bytes h @ d @ t"
        using buf1 append_take_drop_id [of "unat sz" buf1] by (metis append_assoc)
      have reads: "mem_read buf1 0 sizeof_CMD_Head = Some (head_bytes h)"
        "mem_read buf1 sizeof_CMD_Head (unat sz - sizeof_CMD_Head) = Some d"
        using r(2) by (simp_all add: t mem_read_def seg_def)
      have "bytes_head (head_bytes h) = h" using bytes_head_head_bytes [of h "[]"] by simp
      then have step: "parser_loop pfn (Suc fuel) st u =
          (if go then parser_loop pfn fuel (?coder2, buf1, q1) u1
           else Some (False, (?coder2, buf1, q1), u1))"
        using False cmd r reads pfn h by (simp add: st Let_def)
      have "unat (dataSize q1) < unat (dataSize q)"
        using mp_frame_shorter [of coder buf q] Frame Suc.prems(1) st c1(2) inv1 r(3)
          dq_length_contents [of q] dq_length_contents [of q1] by auto
      moreover have inv2: "mp_inv (?coder2, buf1, q1)" "mp_pending (?coder2, buf1, q1) = rest"
        using inv1 r(3) c1 by (simp_all add: head_ready_def)
      moreover have "dispatch pfn (mp_pending st) u =
          (if go then dispatch pfn rest u1 else (False, u1, []))"
        using Frame pfn by (subst dispatch.simps) simp
      ultimately show ?thesis
        using Suc.IH [of "(?coder2, buf1, q1)" u1] Suc.prems(2) step st by (cases go) auto
    qed
  qed
qed

lemma msgparser_parser_dispatch:
  assumes "mp_inv st"
  shows "\<exists>ok st1 u1 rest. msgparser_parser pfn st u = Some (ok, st1, u1)
     \<and> dispatch pfn (mp_pending st) u = (ok, u1, rest)
     \<and> (ok \<longrightarrow> mp_inv st1 \<and> mp_pending st1 = rest)"
  unfolding msgparser_parser_def by (rule parser_loop_dispatch [OF assms]) simp

section \<open>Properties\<close>

definition parser_example :: command_state where
  "parser_example = (msgparser_zero, replicate PACKET_BUFFER NUL, dq_wrapped_example)"

lemma mp_inv_example: "mp_inv parser_example"
  by (simp add: parser_example_def msgparser_zero_def dq_examples)

text \<open>
  C7. The parser implements the frame specification: it always returns, never leaves a buffer,
  hands the handler exactly the frames that \<open>dispatch\<close> reads off the pending bytes (a head
  kept from an earlier call, then the queue), reports an error exactly when it does, and
  otherwise keeps the unread tail pending for the next call.
\<close>

theorem msgparser_parser_refines_dispatch:
  assumes "mp_inv st"
  shows "\<exists>ok st1 u1 rest. msgparser_parser pfn st u = Some (ok, st1, u1)
     \<and> dispatch pfn (mp_pending st) u = (ok, u1, rest)
     \<and> (ok \<longrightarrow> mp_inv st1 \<and> mp_pending st1 = rest)"
  using assms by (rule msgparser_parser_dispatch)

theorem msgparser_parser_refines_dispatch_witness:
  "\<exists>ok st1 u1 rest. msgparser_parser (\<lambda>u m sb d. (u @ d, True)) parser_example [] = Some (ok, st1, u1)
     \<and> dispatch (\<lambda>u m sb d. (u @ d, True)) (mp_pending parser_example) [] = (ok, u1, rest)
     \<and> (ok \<longrightarrow> mp_inv st1 \<and> mp_pending st1 = rest)"
  by (rule msgparser_parser_refines_dispatch [OF mp_inv_example])


definition stream_example :: command_state where
  "stream_example = (msgparser_zero, replicate PACKET_BUFFER NUL,
     \<lparr>insertPos = 22, terminalPos = 22, queryPos = 0, dataSize = 22, bufferSize = 22,
      m_pDataQueueBuffer = Some (frame_bytes 1 2 ''hi'' @ frame_bytes 3 4 ''yo'' @ ''fg'')\<rparr>)"


text \<open>
  C14. The two sides disagree on the largest message: a payload of more than
  \<open>SOCKET_PACKET - sizeof(CMD_Head)\<close> bytes and at most \<open>SOCKET_PACKET\<close> is packed without
  complaint, and the parser that receives the frame rejects it as broken.
\<close>

theorem msg_largest_frames_rejected:
  assumes "mp_inv st" and "SOCKET_PACKET < sizeof_CMD_Head + length d" and "length d \<le> SOCKET_PACKET"
    and "mp_pending st = frame_bytes m sb d"
  shows "\<exists>st1. msgparser_parser pfn st u = Some (False, st1, u)"
proof -
  have n: "unat (word_of_nat (sizeof_CMD_Head + length d) :: u16) = sizeof_CMD_Head + length d"
    using assms(3) by (subst unat_of_nat) (simp add: frame_sizes)
  have "next_frame (frame_bytes m sb d) = Bad_Frame"
    unfolding frame_bytes_def
    using assms(2) n by (subst next_frame_head [OF _ refl]) (simp_all add: frame_head_def)
  then have "dispatch pfn (mp_pending st) u = (False, u, [])"
    by (subst dispatch.simps) (simp add: assms(4))
  then show ?thesis using msgparser_parser_dispatch [OF assms(1), of pfn u] by auto
qed

definition large_example :: command_state where
  "large_example = (msgparser_zero, replicate PACKET_BUFFER NUL,
     \<lparr>insertPos = 32760, terminalPos = 32760, queryPos = 0, dataSize = 32760, bufferSize = 32760,
      m_pDataQueueBuffer = Some (frame_bytes 1 2 (replicate 32752 NUL))\<rparr>)"

theorem msg_largest_frames_rejected_witness:
  "\<exists>st1. msgparser_parser (\<lambda>u m sb d. (u, True)) large_example () = Some (False, st1, ())"
proof (rule msg_largest_frames_rejected)
  have "length (frame_bytes 1 2 (replicate 32752 NUL)) = 32760"
    by (simp add: frame_bytes_def sizeof_CMD_Head_def)
  then show "mp_inv large_example" "mp_pending large_example = frame_bytes 1 2 (replicate 32752 NUL)"
    by (simp_all add: large_example_def msgparser_zero_def dq_examples seg_def)
qed (simp_all add: frame_sizes)

end
