(* ===== verification/Http_Types.thy ===== *)
theory Http_Types
  imports Evnet_Prelude
begin

text \<open>
  The data of the HTTP parser (\<^verbatim>\<open>httparser.h\<close> and the head of \<^verbatim>\<open>httparser.c\<close>): its
  enumerations, its character tables, the parser record, the callbacks, and the two predicates
  on the end of a message.
\<close>

unbundle bit_operations_syntax

section \<open>Enumerations\<close>

datatype http_method =
    HTTP_DELETE | HTTP_GET | HTTP_HEAD | HTTP_POST | HTTP_PUT | HTTP_CONNECT | HTTP_OPTIONS
  | HTTP_TRACE | HTTP_COPY | HTTP_LOCK | HTTP_MKCOL | HTTP_MOVE | HTTP_PROPFIND
  | HTTP_PROPPATCH | HTTP_SEARCH | HTTP_UNLOCK | HTTP_REPORT | HTTP_MKACTIVITY
  | HTTP_CHECKOUT | HTTP_MERGE | HTTP_MSEARCH | HTTP_NOTIFY | HTTP_SUBSCRIBE
  | HTTP_UNSUBSCRIBE | HTTP_PATCH | HTTP_PURGE

datatype http_parser_type = HTTP_REQUEST | HTTP_RESPONSE | HTTP_BOTH

datatype http_errno_code =
    HPE_OK
  | HPE_CB_message_begin | HPE_CB_status_complete | HPE_CB_url | HPE_CB_header_field
  | HPE_CB_header_value | HPE_CB_headers_complete | HPE_CB_body | HPE_CB_message_complete
  | HPE_INVALID_EOF_STATE | HPE_HEADER_OVERFLOW | HPE_CLOSED_CONNECTION | HPE_INVALID_VERSION
  | HPE_INVALID_STATUS | HPE_INVALID_METHOD | HPE_INVALID_URL | HPE_INVALID_HOST
  | HPE_INVALID_PORT | HPE_INVALID_PATH | HPE_INVALID_QUERY_STRING | HPE_INVALID_FRAGMENT
  | HPE_LF_EXPECTED | HPE_INVALID_HEADER_TOKEN | HPE_INVALID_CONTENT_LENGTH
  | HPE_INVALID_CHUNK_SIZE | HPE_INVALID_CONSTANT | HPE_INVALID_INTERNAL_STATE | HPE_STRICT
  | HPE_PAUSED | HPE_UNKNOWN

datatype pstate =
    s_dead | s_start_req_or_res | s_res_or_resp_H
  | s_start_res | s_res_H | s_res_HT | s_res_HTT | s_res_HTTP
  | s_res_first_http_major | s_res_http_major | s_res_first_http_minor | s_res_http_minor
  | s_res_first_status_code | s_res_status_code | s_res_status | s_res_line_almost_done
  | s_start_req | s_req_method | s_req_spaces_before_url
  | s_req_schema | s_req_schema_slash | s_req_schema_slash_slash
  | s_req_server_start | s_req_server | s_req_server_with_at
  | s_req_path | s_req_query_string_start | s_req_query_string
  | s_req_fragment_start | s_req_fragment
  | s_req_http_start | s_req_http_H | s_req_http_HT | s_req_http_HTT | s_req_http_HTTP
  | s_req_first_http_major | s_req_http_major | s_req_first_http_minor | s_req_http_minor
  | s_req_line_almost_done
  | s_header_field_start | s_header_field | s_header_value_start | s_header_value
  | s_header_value_lws | s_header_almost_done
  | s_chunk_size_start | s_chunk_size | s_chunk_parameters | s_chunk_size_almost_done
  | s_headers_almost_done | s_headers_done
  | s_chunk_data | s_chunk_data_almost_done | s_chunk_data_done
  | s_body_identity | s_body_identity_eof | s_message_done

text \<open>The test \<^verbatim>\<open>parser->state <= s_headers_done\<close> on the order of the enumeration.\<close>

definition up_to_headers_done :: "pstate \<Rightarrow> bool" where
  "up_to_headers_done s \<longleftrightarrow>
     s \<noteq> s_chunk_data \<and> s \<noteq> s_chunk_data_almost_done \<and> s \<noteq> s_chunk_data_done
     \<and> s \<noteq> s_body_identity \<and> s \<noteq> s_body_identity_eof \<and> s \<noteq> s_message_done"

datatype hstate =
    h_general | h_C | h_CO | h_CON
  | h_matching_connection | h_matching_proxy_connection | h_matching_content_length
  | h_matching_transfer_encoding | h_matching_upgrade
  | h_connection | h_content_length | h_transfer_encoding | h_upgrade
  | h_matching_transfer_encoding_chunked | h_matching_connection_keep_alive
  | h_matching_connection_close
  | h_transfer_encoding_chunked | h_connection_keep_alive | h_connection_close

section \<open>Strings and character tables\<close>

primrec method_strings :: "http_method \<Rightarrow> string" where
  "method_strings HTTP_DELETE = ''DELETE''"
| "method_strings HTTP_GET = ''GET''"
| "method_strings HTTP_HEAD = ''HEAD''"
| "method_strings HTTP_POST = ''POST''"
| "method_strings HTTP_PUT = ''PUT''"
| "method_strings HTTP_CONNECT = ''CONNECT''"
| "method_strings HTTP_OPTIONS = ''OPTIONS''"
| "method_strings HTTP_TRACE = ''TRACE''"
| "method_strings HTTP_COPY = ''COPY''"
| "method_strings HTTP_LOCK = ''LOCK''"
| "method_strings HTTP_MKCOL = ''MKCOL''"
| "method_strings HTTP_MOVE = ''MOVE''"
| "method_strings HTTP_PROPFIND = ''PROPFIND''"
| "method_strings HTTP_PROPPATCH = ''PROPPATCH''"
| "method_strings HTTP_SEARCH = ''SEARCH''"
| "method_strings HTTP_UNLOCK = ''UNLOCK''"
| "method_strings HTTP_REPORT = ''REPORT''"
| "method_strings HTTP_MKACTIVITY = ''MKACTIVITY''"
| "method_strings HTTP_CHECKOUT = ''CHECKOUT''"
| "method_strings HTTP_MERGE = ''MERGE''"
| "method_strings HTTP_MSEARCH = ''M-SEARCH''"
| "method_strings HTTP_NOTIFY = ''NOTIFY''"
| "method_strings HTTP_SUBSCRIBE = ''SUBSCRIBE''"
| "method_strings HTTP_UNSUBSCRIBE = ''UNSUBSCRIBE''"
| "method_strings HTTP_PATCH = ''PATCH''"
| "method_strings HTTP_PURGE = ''PURGE''"

definition PROXY_CONNECTION :: string where "PROXY_CONNECTION = ''proxy-connection''"
definition CONNECTION :: string where "CONNECTION = ''connection''"
definition CONTENT_LENGTH :: string where "CONTENT_LENGTH = ''content-length''"
definition TRANSFER_ENCODING :: string where "TRANSFER_ENCODING = ''transfer-encoding''"
definition UPGRADE :: string where "UPGRADE = ''upgrade''"
definition CHUNKED :: string where "CHUNKED = ''chunked''"
definition KEEP_ALIVE :: string where "KEEP_ALIVE = ''keep-alive''"
definition CLOSE :: string where "CLOSE = ''close''"

lemmas http_strings = PROXY_CONNECTION_def CONNECTION_def CONTENT_LENGTH_def
  TRANSFER_ENCODING_def UPGRADE_def CHUNKED_def KEEP_ALIVE_def CLOSE_def

text \<open>Reading a C string at an index up to its terminating zero.\<close>

definition c_str :: "string \<Rightarrow> nat \<Rightarrow> byte" where "c_str s i = (s @ [NUL]) ! i"

text \<open>
  The table \<^verbatim>\<open>tokens[256]\<close>; the elements after the last initializer are zero.
\<close>

definition tokens :: "byte list" where
  "tokens =
     [NUL, NUL, NUL, NUL, NUL, NUL, NUL, NUL,  NUL, NUL, NUL, NUL, NUL, NUL, NUL, NUL,
      NUL, NUL, NUL, NUL, NUL, NUL, NUL, NUL,  NUL, NUL, NUL, NUL, NUL, NUL, NUL, NUL,
      NUL, CHR ''!'', NUL, CHR ''#'', CHR ''$'', CHR ''%'', CHR ''&'', CHR 0x27,
      NUL, NUL, CHR ''*'', CHR ''+'', NUL, CHR ''-'', CHR ''.'', NUL]
     @ ''0123456789'' @ [NUL, NUL, NUL, NUL, NUL, NUL]
     @ [NUL] @ ''abcdefghijklmnopqrstuvwxyz'' @ [NUL, NUL, NUL, CHR ''^'', CHR ''_'']
     @ [CHR 0x60] @ ''abcdefghijklmnopqrstuvwxyz'' @ [NUL, CHR ''|'', NUL, CHR ''~'', NUL]
     @ replicate 128 NUL"

definition TOKEN :: "byte \<Rightarrow> byte" where "TOKEN ch = tokens ! of_char ch"

text \<open>
  The table \<^verbatim>\<open>unhex[256]\<close>: only 128 initializers are given, so the bytes from 128 on
  are zero, that is the hexadecimal digit 0.
\<close>

definition unhex :: "int list" where
  "unhex =
     replicate 48 (-1) @ [0, 1, 2, 3, 4, 5, 6, 7, 8, 9] @ replicate 6 (-1)
     @ [-1, 10, 11, 12, 13, 14, 15] @ replicate 9 (-1) @ replicate 16 (-1)
     @ [-1, 10, 11, 12, 13, 14, 15] @ replicate 9 (-1) @ replicate 16 (-1)
     @ replicate 128 0"

definition unhex_val :: "byte \<Rightarrow> int" where "unhex_val ch = unhex ! of_char ch"

text \<open>The bitmap \<^verbatim>\<open>normal_url_char[32]\<close>, eight characters to a byte.\<close>

definition normal_url_char :: "u8 list" where
  "normal_url_char =
     [0, 2 OR 16, 0, 0,
      2 OR 4 OR 16 OR 32 OR 64 OR 128, 255, 255, 1 OR 2 OR 4 OR 8 OR 16 OR 32 OR 64,
      255, 255, 255, 255,
      255, 255, 255, 1 OR 2 OR 4 OR 8 OR 16 OR 32 OR 64]
     @ replicate 16 0"

definition IS_URL_CHAR :: "byte \<Rightarrow> bool" where
  "IS_URL_CHAR ch = bit (normal_url_char ! (of_char ch div 8)) (of_char ch mod 8)"

text \<open>\<^verbatim>\<open>LOWER\<close> sets the bit \<^verbatim>\<open>0x20\<close> of any character.\<close>

definition LOWER :: "byte \<Rightarrow> byte" where
  "LOWER ch = (case ch of Char b0 b1 b2 b3 b4 b5 b6 b7 \<Rightarrow> Char b0 b1 b2 b3 b4 True b6 b7)"

definition IS_NUM :: "byte \<Rightarrow> bool" where
  "IS_NUM ch \<longleftrightarrow> (48 :: nat) \<le> of_char ch \<and> of_char ch \<le> (57 :: nat)"

definition IS_ALPHA :: "byte \<Rightarrow> bool" where
  "IS_ALPHA ch \<longleftrightarrow> (97 :: nat) \<le> of_char (LOWER ch) \<and> of_char (LOWER ch) \<le> (122 :: nat)"

definition IS_ALPHANUM :: "byte \<Rightarrow> bool" where "IS_ALPHANUM ch \<longleftrightarrow> IS_ALPHA ch \<or> IS_NUM ch"

definition IS_MARK :: "byte \<Rightarrow> bool" where
  "IS_MARK ch \<longleftrightarrow> ch \<in> set ''-_.!~*()'' \<or> ch = CHR 0x27"

definition IS_USERINFO_CHAR :: "byte \<Rightarrow> bool" where
  "IS_USERINFO_CHAR ch \<longleftrightarrow> IS_ALPHANUM ch \<or> IS_MARK ch \<or> ch \<in> set ''%;:&=+$,''"

text \<open>The value \<^verbatim>\<open>ch - '0'\<close> of a digit.\<close>

definition digit :: "byte \<Rightarrow> 'a::len word" where "digit ch = word_of_nat (of_char ch - 48)"

section \<open>The parser\<close>

text \<open>
  The field \<^verbatim>\<open>void *data\<close>, which the parser only hands to the callbacks, is the user
  state that the callbacks below work on.
\<close>

record http_parser =
  p_type :: http_parser_type
  p_flags :: u8
  p_state :: pstate
  header_state :: hstate
  p_index :: u8
  nread :: u32
  content_length :: u32
  http_major :: u16
  http_minor :: u16
  status_code :: u16
  p_method :: http_method
  http_errno :: http_errno_code
  upgrade :: bool

definition F_CHUNKED :: u8 where "F_CHUNKED = 1"
definition F_CONNECTION_KEEP_ALIVE :: u8 where "F_CONNECTION_KEEP_ALIVE = 2"
definition F_CONNECTION_CLOSE :: u8 where "F_CONNECTION_CLOSE = 4"
definition F_TRAILING :: u8 where "F_TRAILING = 8"
definition F_UPGRADE :: u8 where "F_UPGRADE = 16"
definition F_SKIPBODY :: u8 where "F_SKIPBODY = 32"

lemmas http_flags = F_CHUNKED_def F_CONNECTION_KEEP_ALIVE_def F_CONNECTION_CLOSE_def
  F_TRAILING_def F_UPGRADE_def F_SKIPBODY_def

abbreviation has_flag :: "http_parser \<Rightarrow> u8 \<Rightarrow> bool" where
  "has_flag p f \<equiv> p_flags p AND f \<noteq> 0"

definition HTTP_UINT32_MAX :: u32 where "HTTP_UINT32_MAX = - 1"
definition HTTP_MAX_HEADER_SIZE :: u32 where "HTTP_MAX_HEADER_SIZE = 8 * 1024"

text \<open>
  A callback reads the parser and works on the user's state; its first result is its C return
  value. The repository's callbacks (in \<^verbatim>\<open>httpd.c\<close> and \<^verbatim>\<open>httpc.c\<close>) never write to
  the parser.
\<close>

type_synonym 'u http_cb = "http_parser \<Rightarrow> 'u \<Rightarrow> int \<times> 'u"
type_synonym 'u http_data_cb = "http_parser \<Rightarrow> byte list \<Rightarrow> 'u \<Rightarrow> int \<times> 'u"

record 'u http_parser_settings =
  on_message_begin :: "'u http_cb option"
  on_url :: "'u http_data_cb option"
  on_status_complete :: "'u http_cb option"
  on_header_field :: "'u http_data_cb option"
  on_header_value :: "'u http_data_cb option"
  on_headers_complete :: "'u http_cb option"
  on_body :: "'u http_data_cb option"
  on_message_complete :: "'u http_cb option"

text \<open>\<^verbatim>\<open>http_parser_init\<close>: everything zero but the type and the start state.\<close>

definition http_parser_init :: "http_parser_type \<Rightarrow> http_parser" where
  "http_parser_init t =
     \<lparr>p_type = t, p_flags = 0,
      p_state = (if t = HTTP_REQUEST then s_start_req
                 else if t = HTTP_RESPONSE then s_start_res else s_start_req_or_res),
      header_state = h_general, p_index = 0, nread = 0, content_length = 0,
      http_major = 0, http_minor = 0, status_code = 0, p_method = HTTP_DELETE,
      http_errno = HPE_OK, upgrade = False\<rparr>"

definition http_message_needs_eof :: "http_parser \<Rightarrow> bool" where
  "http_message_needs_eof p =
     (if p_type p = HTTP_REQUEST then False
      else if status_code p div 100 = 1 \<or> status_code p = 204 \<or> status_code p = 304
              \<or> has_flag p F_SKIPBODY then False
      else if has_flag p F_CHUNKED \<or> content_length p \<noteq> HTTP_UINT32_MAX then False
      else True)"

definition http_should_keep_alive :: "http_parser \<Rightarrow> bool" where
  "http_should_keep_alive p =
     (if http_major p > 0 \<and> http_minor p > 0
      then (if has_flag p F_CONNECTION_CLOSE then False else \<not> http_message_needs_eof p)
      else (if \<not> has_flag p F_CONNECTION_KEEP_ALIVE then False else \<not> http_message_needs_eof p))"

definition start_state :: "http_parser \<Rightarrow> pstate" where
  "start_state p = (if p_type p = HTTP_REQUEST then s_start_req else s_start_res)"

definition NEW_MESSAGE :: "http_parser \<Rightarrow> pstate" where
  "NEW_MESSAGE p = (if http_should_keep_alive p then start_state p else s_dead)"

section \<open>The character tables, read as sets\<close>

text \<open>Each table is compared with its specification on the 256 characters in order.\<close>

lemma replicate_numeral: "replicate (numeral k) x = x # replicate (pred_numeral k) x"
  by (simp add: numeral_eq_Suc)

lemma nth_enum_char: "(enum_class.enum :: char list) ! of_char c = c"
  using nat_of_char_less_256 [of c] by (simp add: enum_char_unfold nth_map)

definition token_spec :: "byte \<Rightarrow> byte" where
  "token_spec ch =
     (if IS_ALPHA ch then LOWER ch
      else if IS_NUM ch \<or> ch \<in> set ''!#$%&*+-.^_|~'' \<or> ch = CHR 0x27 \<or> ch = CHR 0x60 then ch
      else NUL)"

lemma tokens_table: "tokens = map token_spec enum_class.enum"
  by (simp add: tokens_def enum_char_def token_spec_def IS_ALPHA_def IS_NUM_def LOWER_def
      of_char_def replicate_numeral)

lemma TOKEN_spec: "TOKEN ch = token_spec ch"
  using nat_of_char_less_256 [of ch]
  by (simp add: TOKEN_def tokens_table nth_map nth_enum_char enum_char_unfold)

definition url_char_spec :: "byte \<Rightarrow> bool" where
  "url_char_spec ch \<longleftrightarrow>
     (33 \<le> (of_char ch :: nat) \<and> of_char ch \<le> (126 :: nat) \<and> ch \<noteq> CHR ''#'' \<and> ch \<noteq> CHR ''?'')
     \<or> ch = TAB \<or> ch = CHR 0x0C"

lemma url_table: "list_all (\<lambda>c. IS_URL_CHAR c = url_char_spec c) enum_class.enum"
  by (simp add: IS_URL_CHAR_def normal_url_char_def enum_char_def url_char_spec_def of_char_def
      replicate_numeral nth_Cons_numeral)

lemma IS_URL_CHAR_spec: "IS_URL_CHAR ch = url_char_spec ch"
  using url_table by (simp add: list_all_iff enum_UNIV)

definition hex_spec :: "byte \<Rightarrow> int" where
  "hex_spec ch =
     (if IS_NUM ch then int (of_char ch) - 48
      else if IS_ALPHA ch \<and> of_char (LOWER ch) \<le> (102 :: nat) then int (of_char (LOWER ch)) - 87
      else if of_char ch < (128 :: nat) then - 1 else 0)"

lemma unhex_table: "unhex = map hex_spec enum_class.enum"
  by (simp add: unhex_def enum_char_def hex_spec_def IS_ALPHA_def IS_NUM_def LOWER_def
      of_char_def replicate_numeral)

lemma unhex_spec: "unhex_val ch = hex_spec ch"
  using nat_of_char_less_256 [of ch]
  by (simp add: unhex_val_def unhex_table nth_map nth_enum_char enum_char_unfold)

end
