(* ===== verification/Http_States.thy ===== *)
theory Http_States
  imports Http_Types
begin

text \<open>
  The cases of the \<^verbatim>\<open>switch (parser->state)\<close> in \<^verbatim>\<open>http_parser_execute\<close>, one definition
  per case. A case changes the parser and says how it ends: its \<open>action\<close> is the rest of the
  case, from the first macro on that needs the input buffer or calls back. The actions are
  given their meaning in \<^verbatim>\<open>Http_Execute\<close>.
\<close>

section \<open>Actions\<close>

datatype data_cb = Header_Field | Header_Value | Url | Body

datatype notify_cb = Message_Begin | Status_Complete | Message_Complete

text \<open>
  \<open>Break\<close> leaves the switch, \<open>Reexecute\<close> is \<^verbatim>\<open>goto reexecute_byte\<close>, \<open>Error\<close> is
  \<^verbatim>\<open>goto error\<close>, \<open>Return_Next\<close> is \<^verbatim>\<open>return (p - data) + 1\<close>. \<open>Mark\<close> is the macro
  \<^verbatim>\<open>MARK\<close>, \<open>Skip n\<close> is \<^verbatim>\<open>p += n - 1\<close>, \<open>Notify cb er\<close> is \<^verbatim>\<open>CALLBACK_NOTIFY_\<close> with the result
  \<^verbatim>\<open>p - data + er\<close>, \<open>Data cb l er\<close> is \<^verbatim>\<open>CALLBACK_DATA_\<close> with \<^verbatim>\<open>p - mark + l\<close> bytes and the
  result \<^verbatim>\<open>p - data + er\<close>, and \<open>On_Headers_Complete\<close> is the call of that callback with
  the \<^verbatim>\<open>switch\<close> on its result.
\<close>

datatype action =
    Break
  | Reexecute
  | Error
  | Return_Next
  | Mark data_cb action
  | Skip nat action
  | Notify notify_cb nat action
  | Data data_cb nat nat action
  | On_Headers_Complete action

abbreviation CALLBACK_NOTIFY :: "notify_cb \<Rightarrow> action \<Rightarrow> action" where
  "CALLBACK_NOTIFY cb \<equiv> Notify cb 1"

abbreviation CALLBACK_DATA :: "data_cb \<Rightarrow> action \<Rightarrow> action" where
  "CALLBACK_DATA cb \<equiv> Data cb 0 1"

abbreviation CALLBACK_DATA_NOADVANCE :: "data_cb \<Rightarrow> action \<Rightarrow> action" where
  "CALLBACK_DATA_NOADVANCE cb \<equiv> Data cb 0 0"

type_synonym case_result = "http_parser \<times> action"

text \<open>\<^verbatim>\<open>SET_ERRNO(e); goto error;\<close> and \<^verbatim>\<open>STRICT_CHECK(cond)\<close>.\<close>

definition fail :: "http_errno_code \<Rightarrow> http_parser \<Rightarrow> case_result" where
  "fail e p = (p\<lparr>http_errno := e\<rparr>, Error)"

definition STRICT_CHECK :: "bool \<Rightarrow> http_parser \<Rightarrow> case_result \<Rightarrow> case_result" where
  "STRICT_CHECK cond p r = (if cond then fail HPE_STRICT p else r)"

abbreviation goes_to :: "pstate \<Rightarrow> http_parser \<Rightarrow> case_result" where
  "goes_to s p \<equiv> (p\<lparr>p_state := s\<rparr>, Break)"

section \<open>Idle states and the response line\<close>

definition at_s_dead :: "http_parser \<Rightarrow> byte \<Rightarrow> case_result" where
  "at_s_dead p ch = (if ch = CR \<or> ch = LF then (p, Break) else fail HPE_CLOSED_CONNECTION p)"

definition at_s_start_req_or_res :: "http_parser \<Rightarrow> byte \<Rightarrow> case_result" where
  "at_s_start_req_or_res p ch =
     (if ch = CR \<or> ch = LF then (p, Break)
      else let p1 = p\<lparr>p_flags := 0, content_length := HTTP_UINT32_MAX\<rparr>
           in if ch = CHR ''H''
              then (p1\<lparr>p_state := s_res_or_resp_H\<rparr>, CALLBACK_NOTIFY Message_Begin Break)
              else (p1\<lparr>p_type := HTTP_REQUEST, p_state := s_start_req\<rparr>, Reexecute))"

definition at_s_res_or_resp_H :: "http_parser \<Rightarrow> byte \<Rightarrow> case_result" where
  "at_s_res_or_resp_H p ch =
     (if ch = CHR ''T'' then goes_to s_res_HT (p\<lparr>p_type := HTTP_RESPONSE\<rparr>)
      else if ch \<noteq> CHR ''E'' then fail HPE_INVALID_CONSTANT p
      else goes_to s_req_method (p\<lparr>p_type := HTTP_REQUEST, p_method := HTTP_HEAD, p_index := 2\<rparr>))"

definition at_s_start_res :: "http_parser \<Rightarrow> byte \<Rightarrow> case_result" where
  "at_s_start_res p ch =
     (let p1 = p\<lparr>p_flags := 0, content_length := HTTP_UINT32_MAX\<rparr>
      in if ch = CHR ''H'' then (p1\<lparr>p_state := s_res_H\<rparr>, CALLBACK_NOTIFY Message_Begin Break)
         else if ch = CR \<or> ch = LF then (p1, CALLBACK_NOTIFY Message_Begin Break)
         else fail HPE_INVALID_CONSTANT p1)"

definition at_s_res_H :: "http_parser \<Rightarrow> byte \<Rightarrow> case_result" where
  "at_s_res_H p ch = STRICT_CHECK (ch \<noteq> CHR ''T'') p (goes_to s_res_HT p)"

definition at_s_res_HT :: "http_parser \<Rightarrow> byte \<Rightarrow> case_result" where
  "at_s_res_HT p ch = STRICT_CHECK (ch \<noteq> CHR ''T'') p (goes_to s_res_HTT p)"

definition at_s_res_HTT :: "http_parser \<Rightarrow> byte \<Rightarrow> case_result" where
  "at_s_res_HTT p ch = STRICT_CHECK (ch \<noteq> CHR ''P'') p (goes_to s_res_HTTP p)"

definition at_s_res_HTTP :: "http_parser \<Rightarrow> byte \<Rightarrow> case_result" where
  "at_s_res_HTTP p ch = STRICT_CHECK (ch \<noteq> CHR ''/'') p (goes_to s_res_first_http_major p)"

definition at_s_res_first_http_major :: "http_parser \<Rightarrow> byte \<Rightarrow> case_result" where
  "at_s_res_first_http_major p ch =
     (if \<not> IS_NUM ch then fail HPE_INVALID_VERSION p
      else goes_to s_res_http_major (p\<lparr>http_major := digit ch\<rparr>))"

definition at_s_res_http_major :: "http_parser \<Rightarrow> byte \<Rightarrow> case_result" where
  "at_s_res_http_major p ch =
     (if ch = CHR ''.'' then goes_to s_res_first_http_minor p
      else if \<not> IS_NUM ch then fail HPE_INVALID_VERSION p
      else let p1 = p\<lparr>http_major := http_major p * 10 + digit ch\<rparr>
           in if http_major p1 > 999 then fail HPE_INVALID_VERSION p1 else (p1, Break))"

definition at_s_res_first_http_minor :: "http_parser \<Rightarrow> byte \<Rightarrow> case_result" where
  "at_s_res_first_http_minor p ch =
     (if \<not> IS_NUM ch then fail HPE_INVALID_VERSION p
      else goes_to s_res_http_minor (p\<lparr>http_minor := digit ch\<rparr>))"

definition at_s_res_http_minor :: "http_parser \<Rightarrow> byte \<Rightarrow> case_result" where
  "at_s_res_http_minor p ch =
     (if ch = CHR '' '' then goes_to s_res_first_status_code p
      else if \<not> IS_NUM ch then fail HPE_INVALID_VERSION p
      else let p1 = p\<lparr>http_minor := http_minor p * 10 + digit ch\<rparr>
           in if http_minor p1 > 999 then fail HPE_INVALID_VERSION p1 else (p1, Break))"

definition at_s_res_first_status_code :: "http_parser \<Rightarrow> byte \<Rightarrow> case_result" where
  "at_s_res_first_status_code p ch =
     (if \<not> IS_NUM ch
      then if ch = CHR '' '' then (p, Break) else fail HPE_INVALID_STATUS p
      else goes_to s_res_status_code (p\<lparr>status_code := digit ch\<rparr>))"

definition at_s_res_status_code :: "http_parser \<Rightarrow> byte \<Rightarrow> case_result" where
  "at_s_res_status_code p ch =
     (if \<not> IS_NUM ch
      then if ch = CHR '' '' then goes_to s_res_status p
           else if ch = CR then goes_to s_res_line_almost_done p
           else if ch = LF then goes_to s_header_field_start p
           else fail HPE_INVALID_STATUS p
      else let p1 = p\<lparr>status_code := status_code p * 10 + digit ch\<rparr>
           in if status_code p1 > 999 then fail HPE_INVALID_STATUS p1 else (p1, Break))"

definition at_s_res_status :: "http_parser \<Rightarrow> byte \<Rightarrow> case_result" where
  "at_s_res_status p ch =
     (if ch = CR then goes_to s_res_line_almost_done p
      else if ch = LF then goes_to s_header_field_start p
      else (p, Break))"

definition at_s_res_line_almost_done :: "http_parser \<Rightarrow> byte \<Rightarrow> case_result" where
  "at_s_res_line_almost_done p ch = STRICT_CHECK (ch \<noteq> LF) p
     (p\<lparr>p_state := s_header_field_start\<rparr>, CALLBACK_NOTIFY Status_Complete Break)"

section \<open>The request line\<close>

definition first_method :: "byte \<Rightarrow> http_method option" where
  "first_method ch =
     (if ch = CHR ''C'' then Some HTTP_CONNECT
      else if ch = CHR ''D'' then Some HTTP_DELETE
      else if ch = CHR ''G'' then Some HTTP_GET
      else if ch = CHR ''H'' then Some HTTP_HEAD
      else if ch = CHR ''L'' then Some HTTP_LOCK
      else if ch = CHR ''M'' then Some HTTP_MKCOL
      else if ch = CHR ''N'' then Some HTTP_NOTIFY
      else if ch = CHR ''O'' then Some HTTP_OPTIONS
      else if ch = CHR ''P'' then Some HTTP_POST
      else if ch = CHR ''R'' then Some HTTP_REPORT
      else if ch = CHR ''S'' then Some HTTP_SUBSCRIBE
      else if ch = CHR ''T'' then Some HTTP_TRACE
      else if ch = CHR ''U'' then Some HTTP_UNLOCK
      else None)"

definition at_s_start_req :: "http_parser \<Rightarrow> byte \<Rightarrow> case_result" where
  "at_s_start_req p ch =
     (if ch = CR \<or> ch = LF then (p, Break)
      else let p1 = p\<lparr>p_flags := 0, content_length := HTTP_UINT32_MAX\<rparr>
           in if \<not> IS_ALPHA ch then fail HPE_INVALID_METHOD p1
              else let p2 = p1\<lparr>p_method := HTTP_DELETE, p_index := 1\<rparr>
                   in case first_method ch of
                        None \<Rightarrow> fail HPE_INVALID_METHOD p2
                      | Some m \<Rightarrow> (p2\<lparr>p_method := m, p_state := s_req_method\<rparr>,
                                   CALLBACK_NOTIFY Message_Begin Break))"

text \<open>
  The method is matched against the first candidate; at a mismatch the next candidate with
  the same beginning is chosen. \<open>None\<close> is the \<^verbatim>\<open>goto error\<close> without an error number,
  \<open>Some None\<close> the one with \<^verbatim>\<open>HPE_INVALID_METHOD\<close>.
\<close>

definition next_method :: "http_method \<Rightarrow> u8 \<Rightarrow> byte \<Rightarrow> http_method option option" where
  "next_method m i ch =
     (if m = HTTP_CONNECT then
        if i = 1 \<and> ch = CHR ''H'' then Some (Some HTTP_CHECKOUT)
        else if i = 2 \<and> ch = CHR ''P'' then Some (Some HTTP_COPY)
        else None
      else if m = HTTP_MKCOL then
        if i = 1 \<and> ch = CHR ''O'' then Some (Some HTTP_MOVE)
        else if i = 1 \<and> ch = CHR ''E'' then Some (Some HTTP_MERGE)
        else if i = 1 \<and> ch = CHR ''-'' then Some (Some HTTP_MSEARCH)
        else if i = 2 \<and> ch = CHR ''A'' then Some (Some HTTP_MKACTIVITY)
        else None
      else if m = HTTP_SUBSCRIBE then
        if i = 1 \<and> ch = CHR ''E'' then Some (Some HTTP_SEARCH)
        else None
      else if i = 1 \<and> m = HTTP_POST then
        if ch = CHR ''R'' then Some (Some HTTP_PROPFIND)
        else if ch = CHR ''U'' then Some (Some HTTP_PUT)
        else if ch = CHR ''A'' then Some (Some HTTP_PATCH)
        else None
      else if i = 2 then
        if m = HTTP_PUT then
          if ch = CHR ''R'' then Some (Some HTTP_PURGE) else Some (Some m)
        else if m = HTTP_UNLOCK then
          if ch = CHR ''S'' then Some (Some HTTP_UNSUBSCRIBE) else Some (Some m)
        else Some (Some m)
      else if i = 4 \<and> m = HTTP_PROPFIND \<and> ch = CHR ''P'' then Some (Some HTTP_PROPPATCH)
      else Some None)"

definition at_s_req_method :: "http_parser \<Rightarrow> byte \<Rightarrow> case_result" where
  "at_s_req_method p ch =
     (if ch = NUL then fail HPE_INVALID_METHOD p
      else let mch = c_str (method_strings (p_method p)) (unat (p_index p))
           in if ch = CHR '' '' \<and> mch = NUL
              then goes_to s_req_spaces_before_url (p\<lparr>p_index := p_index p + 1\<rparr>)
              else if ch = mch then (p\<lparr>p_index := p_index p + 1\<rparr>, Break)
              else case next_method (p_method p) (p_index p) ch of
                     None \<Rightarrow> (p, Error)
                   | Some None \<Rightarrow> fail HPE_INVALID_METHOD p
                   | Some (Some m) \<Rightarrow> (p\<lparr>p_method := m, p_index := p_index p + 1\<rparr>, Break))"

text \<open>\<^verbatim>\<open>parse_url_char\<close>; \<open>s_dead\<close> is a character that may not stand there.\<close>

definition url_server_char :: "byte \<Rightarrow> pstate" where
  "url_server_char ch =
     (if ch = CHR ''/'' then s_req_path
      else if ch = CHR ''?'' then s_req_query_string_start
      else if ch = CHR ''@'' then s_req_server_with_at
      else if IS_USERINFO_CHAR ch \<or> ch = CHR ''['' \<or> ch = CHR '']'' then s_req_server
      else s_dead)"

definition url_query_char :: "byte \<Rightarrow> pstate" where
  "url_query_char ch =
     (if IS_URL_CHAR ch then s_req_query_string
      else if ch = CHR ''?'' then s_req_query_string
      else if ch = CHR ''#'' then s_req_fragment_start
      else s_dead)"

definition parse_url_char :: "pstate \<Rightarrow> byte \<Rightarrow> pstate" where
  "parse_url_char s ch =
     (if ch = CHR '' '' \<or> ch = CR \<or> ch = LF \<or> ch = TAB \<or> ch = CHR 0x0C then s_dead
      else case s of
        s_req_spaces_before_url \<Rightarrow>
          if ch = CHR ''/'' \<or> ch = CHR ''*'' then s_req_path
          else if IS_ALPHA ch then s_req_schema else s_dead
      | s_req_schema \<Rightarrow>
          if IS_ALPHA ch then s_req_schema
          else if ch = CHR '':'' then s_req_schema_slash else s_dead
      | s_req_schema_slash \<Rightarrow> if ch = CHR ''/'' then s_req_schema_slash_slash else s_dead
      | s_req_schema_slash_slash \<Rightarrow> if ch = CHR ''/'' then s_req_server_start else s_dead
      | s_req_server_with_at \<Rightarrow> if ch = CHR ''@'' then s_dead else url_server_char ch
      | s_req_server_start \<Rightarrow> url_server_char ch
      | s_req_server \<Rightarrow> url_server_char ch
      | s_req_path \<Rightarrow>
          if IS_URL_CHAR ch then s_req_path
          else if ch = CHR ''?'' then s_req_query_string_start
          else if ch = CHR ''#'' then s_req_fragment_start else s_dead
      | s_req_query_string_start \<Rightarrow> url_query_char ch
      | s_req_query_string \<Rightarrow> url_query_char ch
      | s_req_fragment_start \<Rightarrow>
          if IS_URL_CHAR ch then s_req_fragment
          else if ch = CHR ''?'' then s_req_fragment
          else if ch = CHR ''#'' then s_req_fragment_start else s_dead
      | s_req_fragment \<Rightarrow>
          if IS_URL_CHAR ch then s_req_fragment
          else if ch = CHR ''?'' \<or> ch = CHR ''#'' then s_req_fragment else s_dead
      | _ \<Rightarrow> s_dead)"

text \<open>The step through \<^verbatim>\<open>parse_url_char\<close> that the three URL cases share.\<close>

definition url_step :: "http_parser \<Rightarrow> byte \<Rightarrow> case_result" where
  "url_step p ch =
     (let p1 = p\<lparr>p_state := parse_url_char (p_state p) ch\<rparr>
      in if p_state p1 = s_dead then fail HPE_INVALID_URL p1 else (p1, Break))"

definition at_s_req_spaces_before_url :: "http_parser \<Rightarrow> byte \<Rightarrow> case_result" where
  "at_s_req_spaces_before_url p ch =
     (if ch = CHR '' '' then (p, Break)
      else let p1 = (if p_method p = HTTP_CONNECT then p\<lparr>p_state := s_req_server_start\<rparr> else p);
               (p2, a) = url_step p1 ch
           in (p2, Mark Url a))"

definition at_url_schema :: "http_parser \<Rightarrow> byte \<Rightarrow> case_result" where
  "at_url_schema p ch =
     (if ch = CHR '' '' \<or> ch = CR \<or> ch = LF then fail HPE_INVALID_URL p else url_step p ch)"

definition at_url_rest :: "http_parser \<Rightarrow> byte \<Rightarrow> case_result" where
  "at_url_rest p ch =
     (if ch = CHR '' '' then (p\<lparr>p_state := s_req_http_start\<rparr>, CALLBACK_DATA Url Break)
      else if ch = CR \<or> ch = LF
      then (p\<lparr>http_major := 0, http_minor := 9,
              p_state := (if ch = CR then s_req_line_almost_done else s_header_field_start)\<rparr>,
            CALLBACK_DATA Url Break)
      else url_step p ch)"

definition at_s_req_http_start :: "http_parser \<Rightarrow> byte \<Rightarrow> case_result" where
  "at_s_req_http_start p ch =
     (if ch = CHR ''H'' then goes_to s_req_http_H p
      else if ch = CHR '' '' then (p, Break)
      else fail HPE_INVALID_CONSTANT p)"

definition at_s_req_http_H :: "http_parser \<Rightarrow> byte \<Rightarrow> case_result" where
  "at_s_req_http_H p ch = STRICT_CHECK (ch \<noteq> CHR ''T'') p (goes_to s_req_http_HT p)"

definition at_s_req_http_HT :: "http_parser \<Rightarrow> byte \<Rightarrow> case_result" where
  "at_s_req_http_HT p ch = STRICT_CHECK (ch \<noteq> CHR ''T'') p (goes_to s_req_http_HTT p)"

definition at_s_req_http_HTT :: "http_parser \<Rightarrow> byte \<Rightarrow> case_result" where
  "at_s_req_http_HTT p ch = STRICT_CHECK (ch \<noteq> CHR ''P'') p (goes_to s_req_http_HTTP p)"

definition at_s_req_http_HTTP :: "http_parser \<Rightarrow> byte \<Rightarrow> case_result" where
  "at_s_req_http_HTTP p ch = STRICT_CHECK (ch \<noteq> CHR ''/'') p (goes_to s_req_first_http_major p)"

definition at_s_req_first_http_major :: "http_parser \<Rightarrow> byte \<Rightarrow> case_result" where
  "at_s_req_first_http_major p ch =
     (if \<not> IS_NUM ch \<or> ch = CHR ''0'' then fail HPE_INVALID_VERSION p
      else goes_to s_req_http_major (p\<lparr>http_major := digit ch\<rparr>))"

definition at_s_req_http_major :: "http_parser \<Rightarrow> byte \<Rightarrow> case_result" where
  "at_s_req_http_major p ch =
     (if ch = CHR ''.'' then goes_to s_req_first_http_minor p
      else if \<not> IS_NUM ch then fail HPE_INVALID_VERSION p
      else let p1 = p\<lparr>http_major := http_major p * 10 + digit ch\<rparr>
           in if http_major p1 > 999 then fail HPE_INVALID_VERSION p1 else (p1, Break))"

definition at_s_req_first_http_minor :: "http_parser \<Rightarrow> byte \<Rightarrow> case_result" where
  "at_s_req_first_http_minor p ch =
     (if \<not> IS_NUM ch then fail HPE_INVALID_VERSION p
      else goes_to s_req_http_minor (p\<lparr>http_minor := digit ch\<rparr>))"

definition at_s_req_http_minor :: "http_parser \<Rightarrow> byte \<Rightarrow> case_result" where
  "at_s_req_http_minor p ch =
     (if ch = CR then goes_to s_req_line_almost_done p
      else if ch = LF then goes_to s_header_field_start p
      else if \<not> IS_NUM ch then fail HPE_INVALID_VERSION p
      else let p1 = p\<lparr>http_minor := http_minor p * 10 + digit ch\<rparr>
           in if http_minor p1 > 999 then fail HPE_INVALID_VERSION p1 else (p1, Break))"

definition at_s_req_line_almost_done :: "http_parser \<Rightarrow> byte \<Rightarrow> case_result" where
  "at_s_req_line_almost_done p ch =
     (if ch \<noteq> LF then fail HPE_LF_EXPECTED p else goes_to s_header_field_start p)"

end
