(* ===== verification/Http_Headers.thy ===== *)
theory Http_Headers
  imports Http_States
begin

text \<open>
  The cases of the header lines, of the end of the headers and of the bodies, and the
  dispatch on the state.
\<close>

section \<open>Header names\<close>

definition at_s_header_field_start :: "http_parser \<Rightarrow> byte \<Rightarrow> case_result" where
  "at_s_header_field_start p ch =
     (if ch = CR then goes_to s_headers_almost_done p
      else if ch = LF then (p\<lparr>p_state := s_headers_almost_done\<rparr>, Reexecute)
      else let c = TOKEN ch
           in if c = NUL then fail HPE_INVALID_HEADER_TOKEN p
              else (p\<lparr>p_index := 0, p_state := s_header_field,
                      header_state :=
                        (if c = CHR ''c'' then h_C
                         else if c = CHR ''p'' then h_matching_proxy_connection
                         else if c = CHR ''t'' then h_matching_transfer_encoding
                         else if c = CHR ''u'' then h_matching_upgrade
                         else h_general)\<rparr>,
                    Mark Header_Field Break))"

text \<open>
  One character of a name or value that is compared with \<open>word\<close>: at the first difference
  the header is an ordinary one, at the last character the state becomes \<open>done\<close>.
\<close>

definition match_char :: "string \<Rightarrow> hstate \<Rightarrow> http_parser \<Rightarrow> byte \<Rightarrow> http_parser" where
  "match_char word done p c =
     (let p1 = p\<lparr>p_index := p_index p + 1\<rparr>; i = unat (p_index p1)
      in if i > length word \<or> c \<noteq> c_str word i then p1\<lparr>header_state := h_general\<rparr>
         else if i = length word - 1 then p1\<lparr>header_state := done\<rparr>
         else p1)"

definition header_name_char :: "http_parser \<Rightarrow> byte \<Rightarrow> byte \<Rightarrow> http_parser" where
  "header_name_char p ch c =
     (case header_state p of
        h_general \<Rightarrow> p
      | h_C \<Rightarrow> p\<lparr>p_index := p_index p + 1, header_state := (if c = CHR ''o'' then h_CO else h_general)\<rparr>
      | h_CO \<Rightarrow> p\<lparr>p_index := p_index p + 1, header_state := (if c = CHR ''n'' then h_CON else h_general)\<rparr>
      | h_CON \<Rightarrow>
          p\<lparr>p_index := p_index p + 1,
            header_state := (if c = CHR ''n'' then h_matching_connection
                             else if c = CHR ''t'' then h_matching_content_length
                             else h_general)\<rparr>
      | h_matching_connection \<Rightarrow> match_char CONNECTION h_connection p c
      | h_matching_proxy_connection \<Rightarrow> match_char PROXY_CONNECTION h_connection p c
      | h_matching_content_length \<Rightarrow> match_char CONTENT_LENGTH h_content_length p c
      | h_matching_transfer_encoding \<Rightarrow> match_char TRANSFER_ENCODING h_transfer_encoding p c
      | h_matching_upgrade \<Rightarrow> match_char UPGRADE h_upgrade p c
      | h_connection \<Rightarrow> if ch \<noteq> CHR '' '' then p\<lparr>header_state := h_general\<rparr> else p
      | h_content_length \<Rightarrow> if ch \<noteq> CHR '' '' then p\<lparr>header_state := h_general\<rparr> else p
      | h_transfer_encoding \<Rightarrow> if ch \<noteq> CHR '' '' then p\<lparr>header_state := h_general\<rparr> else p
      | h_upgrade \<Rightarrow> if ch \<noteq> CHR '' '' then p\<lparr>header_state := h_general\<rparr> else p
      | _ \<Rightarrow> p)"

definition at_s_header_field :: "http_parser \<Rightarrow> byte \<Rightarrow> case_result" where
  "at_s_header_field p ch =
     (let c = TOKEN ch
      in if c \<noteq> NUL then (header_name_char p ch c, Break)
         else if ch = CHR '':''
         then (p\<lparr>p_state := s_header_value_start\<rparr>, CALLBACK_DATA Header_Field Break)
         else if ch = CR
         then (p\<lparr>p_state := s_header_almost_done\<rparr>, CALLBACK_DATA Header_Field Break)
         else if ch = LF
         then (p\<lparr>p_state := s_header_field_start\<rparr>, CALLBACK_DATA Header_Field Break)
         else fail HPE_INVALID_HEADER_TOKEN p)"

section \<open>Header values\<close>

definition header_value_first :: "http_parser \<Rightarrow> byte \<Rightarrow> case_result" where
  "header_value_first p ch =
     (let c = LOWER ch
      in case header_state p of
           h_upgrade \<Rightarrow> (p\<lparr>p_flags := p_flags p OR F_UPGRADE, header_state := h_general\<rparr>, Break)
         | h_transfer_encoding \<Rightarrow>
             (p\<lparr>header_state := (if c = CHR ''c'' then h_matching_transfer_encoding_chunked
                                 else h_general)\<rparr>, Break)
         | h_content_length \<Rightarrow>
             if \<not> IS_NUM ch then fail HPE_INVALID_CONTENT_LENGTH p
             else (p\<lparr>content_length := digit ch\<rparr>, Break)
         | h_connection \<Rightarrow>
             (p\<lparr>header_state := (if c = CHR ''k'' then h_matching_connection_keep_alive
                                 else if c = CHR ''c'' then h_matching_connection_close
                                 else h_general)\<rparr>, Break)
         | _ \<Rightarrow> (p\<lparr>header_state := h_general\<rparr>, Break))"

definition at_s_header_value_start :: "http_parser \<Rightarrow> byte \<Rightarrow> case_result" where
  "at_s_header_value_start p ch =
     (if ch = CHR '' '' \<or> ch = TAB then (p, Break)
      else let p1 = p\<lparr>p_state := s_header_value, p_index := 0\<rparr>;
               (p2, a) =
                 (if ch = CR
                  then (p1\<lparr>header_state := h_general, p_state := s_header_almost_done\<rparr>,
                        CALLBACK_DATA Header_Value Break)
                  else if ch = LF
                  then (p1\<lparr>p_state := s_header_field_start\<rparr>, CALLBACK_DATA Header_Value Break)
                  else header_value_first p1 ch)
           in (p2, Mark Header_Value a))"

definition content_length_char :: "http_parser \<Rightarrow> byte \<Rightarrow> case_result" where
  "content_length_char p ch =
     (if ch = CHR '' '' then (p, Break)
      else if \<not> IS_NUM ch then fail HPE_INVALID_CONTENT_LENGTH p
      else let t = content_length p * 10 + digit ch
           in if t < content_length p \<or> t = HTTP_UINT32_MAX then fail HPE_INVALID_CONTENT_LENGTH p
              else (p\<lparr>content_length := t\<rparr>, Break))"

definition header_value_char :: "http_parser \<Rightarrow> byte \<Rightarrow> case_result" where
  "header_value_char p ch =
     (let c = LOWER ch
      in case header_state p of
           h_general \<Rightarrow> (p, Break)
         | h_connection \<Rightarrow> (p, Break)
         | h_transfer_encoding \<Rightarrow> (p, Break)
         | h_content_length \<Rightarrow> content_length_char p ch
         | h_matching_transfer_encoding_chunked \<Rightarrow>
             (match_char CHUNKED h_transfer_encoding_chunked p c, Break)
         | h_matching_connection_keep_alive \<Rightarrow>
             (match_char KEEP_ALIVE h_connection_keep_alive p c, Break)
         | h_matching_connection_close \<Rightarrow> (match_char CLOSE h_connection_close p c, Break)
         | h_transfer_encoding_chunked \<Rightarrow>
             (if ch \<noteq> CHR '' '' then p\<lparr>header_state := h_general\<rparr> else p, Break)
         | h_connection_keep_alive \<Rightarrow>
             (if ch \<noteq> CHR '' '' then p\<lparr>header_state := h_general\<rparr> else p, Break)
         | h_connection_close \<Rightarrow>
             (if ch \<noteq> CHR '' '' then p\<lparr>header_state := h_general\<rparr> else p, Break)
         | _ \<Rightarrow> (p\<lparr>p_state := s_header_value, header_state := h_general\<rparr>, Break))"

definition at_s_header_value :: "http_parser \<Rightarrow> byte \<Rightarrow> case_result" where
  "at_s_header_value p ch =
     (if ch = CR then (p\<lparr>p_state := s_header_almost_done\<rparr>, CALLBACK_DATA Header_Value Break)
      else if ch = LF
      then (p\<lparr>p_state := s_header_almost_done\<rparr>, CALLBACK_DATA_NOADVANCE Header_Value Reexecute)
      else header_value_char p ch)"

definition at_s_header_almost_done :: "http_parser \<Rightarrow> byte \<Rightarrow> case_result" where
  "at_s_header_almost_done p ch = STRICT_CHECK (ch \<noteq> LF) p
     (goes_to s_header_value_lws
        (case header_state p of
           h_connection_keep_alive \<Rightarrow> p\<lparr>p_flags := p_flags p OR F_CONNECTION_KEEP_ALIVE\<rparr>
         | h_connection_close \<Rightarrow> p\<lparr>p_flags := p_flags p OR F_CONNECTION_CLOSE\<rparr>
         | h_transfer_encoding_chunked \<Rightarrow> p\<lparr>p_flags := p_flags p OR F_CHUNKED\<rparr>
         | _ \<Rightarrow> p))"

definition at_s_header_value_lws :: "http_parser \<Rightarrow> byte \<Rightarrow> case_result" where
  "at_s_header_value_lws p ch =
     (if ch = CHR '' '' \<or> ch = TAB then goes_to s_header_value_start p
      else (p\<lparr>p_state := s_header_field_start\<rparr>, Reexecute))"

section \<open>The end of the headers\<close>

definition at_s_headers_almost_done :: "http_parser \<Rightarrow> byte \<Rightarrow> case_result" where
  "at_s_headers_almost_done p ch = STRICT_CHECK (ch \<noteq> LF) p
     (if has_flag p F_TRAILING
      then (p\<lparr>p_state := NEW_MESSAGE p\<rparr>, CALLBACK_NOTIFY Message_Complete Break)
      else (p\<lparr>p_state := s_headers_done,
              upgrade := (has_flag p F_UPGRADE \<or> p_method p = HTTP_CONNECT)\<rparr>,
            On_Headers_Complete Reexecute))"

definition at_s_headers_done :: "http_parser \<Rightarrow> byte \<Rightarrow> case_result" where
  "at_s_headers_done p ch = STRICT_CHECK (ch \<noteq> LF) p
     (let p1 = p\<lparr>nread := 0\<rparr>;
          finish = p1\<lparr>p_state := NEW_MESSAGE p1\<rparr>
      in if upgrade p1 then (finish, CALLBACK_NOTIFY Message_Complete Return_Next)
         else if has_flag p1 F_SKIPBODY then (finish, CALLBACK_NOTIFY Message_Complete Break)
         else if has_flag p1 F_CHUNKED then goes_to s_chunk_size_start p1
         else if content_length p1 = 0 then (finish, CALLBACK_NOTIFY Message_Complete Break)
         else if content_length p1 \<noteq> HTTP_UINT32_MAX then goes_to s_body_identity p1
         else if p_type p1 = HTTP_REQUEST \<or> \<not> http_message_needs_eof p1
         then (finish, CALLBACK_NOTIFY Message_Complete Break)
         else goes_to s_body_identity_eof p1)"

section \<open>Bodies\<close>

text \<open>The cases that look ahead get the number \<open>rest\<close> of bytes from \<^verbatim>\<open>p\<close> to the end.\<close>

definition at_s_body_identity :: "http_parser \<Rightarrow> nat \<Rightarrow> case_result" where
  "at_s_body_identity p rest =
     (let to_read = min (content_length p) (word_of_nat rest);
          p1 = p\<lparr>content_length := content_length p - to_read\<rparr>
      in if content_length p1 = 0
         then (p1\<lparr>p_state := s_message_done\<rparr>, Mark Body (Skip (unat to_read) (Data Body 1 0 Reexecute)))
         else (p1, Mark Body (Skip (unat to_read) Break)))"

definition at_s_body_identity_eof :: "http_parser \<Rightarrow> nat \<Rightarrow> case_result" where
  "at_s_body_identity_eof p rest = (p, Mark Body (Skip rest Break))"

definition at_s_message_done :: "http_parser \<Rightarrow> case_result" where
  "at_s_message_done p = (p\<lparr>p_state := NEW_MESSAGE p\<rparr>, CALLBACK_NOTIFY Message_Complete Break)"

definition at_s_chunk_size_start :: "http_parser \<Rightarrow> byte \<Rightarrow> case_result" where
  "at_s_chunk_size_start p ch =
     (if unhex_val ch = -1 then fail HPE_INVALID_CHUNK_SIZE p
      else goes_to s_chunk_size (p\<lparr>content_length := word_of_int (unhex_val ch)\<rparr>))"

definition at_s_chunk_size :: "http_parser \<Rightarrow> byte \<Rightarrow> case_result" where
  "at_s_chunk_size p ch =
     (if ch = CR then goes_to s_chunk_size_almost_done p
      else if unhex_val ch = -1
      then if ch = CHR '';'' \<or> ch = CHR '' '' then goes_to s_chunk_parameters p
           else fail HPE_INVALID_CHUNK_SIZE p
      else let t = content_length p * 16 + word_of_int (unhex_val ch)
           in if t < content_length p \<or> t = HTTP_UINT32_MAX then fail HPE_INVALID_CONTENT_LENGTH p
              else (p\<lparr>content_length := t\<rparr>, Break))"

definition at_s_chunk_parameters :: "http_parser \<Rightarrow> byte \<Rightarrow> case_result" where
  "at_s_chunk_parameters p ch =
     (if ch = CR then goes_to s_chunk_size_almost_done p else (p, Break))"

definition at_s_chunk_size_almost_done :: "http_parser \<Rightarrow> byte \<Rightarrow> case_result" where
  "at_s_chunk_size_almost_done p ch = STRICT_CHECK (ch \<noteq> LF) p
     (let p1 = p\<lparr>nread := 0\<rparr>
      in if content_length p1 = 0
         then goes_to s_header_field_start (p1\<lparr>p_flags := p_flags p1 OR F_TRAILING\<rparr>)
         else goes_to s_chunk_data p1)"

definition at_s_chunk_data :: "http_parser \<Rightarrow> nat \<Rightarrow> case_result" where
  "at_s_chunk_data p rest =
     (let to_read = min (content_length p) (word_of_nat rest);
          p1 = p\<lparr>content_length := content_length p - to_read\<rparr>
      in (if content_length p1 = 0 then p1\<lparr>p_state := s_chunk_data_almost_done\<rparr> else p1,
          Mark Body (Skip (unat to_read) Break)))"

definition at_s_chunk_data_almost_done :: "http_parser \<Rightarrow> byte \<Rightarrow> case_result" where
  "at_s_chunk_data_almost_done p ch = STRICT_CHECK (ch \<noteq> CR) p
     (p\<lparr>p_state := s_chunk_data_done\<rparr>, CALLBACK_DATA Body Break)"

definition at_s_chunk_data_done :: "http_parser \<Rightarrow> byte \<Rightarrow> case_result" where
  "at_s_chunk_data_done p ch = STRICT_CHECK (ch \<noteq> LF) p
     (goes_to s_chunk_size_start (p\<lparr>nread := 0\<rparr>))"

end
