(* ===== verification/Http_Execute.thy ===== *)
theory Http_Execute
  imports Http_Headers
begin

text \<open>
  \<^verbatim>\<open>http_parser_execute\<close>: the dispatch on the state, the meaning of the actions (the
  callback macros on the input buffer), the loop over the input and its exits.
\<close>

section \<open>Dispatch\<close>

primrec exec_state :: "pstate \<Rightarrow> http_parser \<Rightarrow> byte \<Rightarrow> nat \<Rightarrow> case_result" where
  "exec_state s_dead p ch rest = at_s_dead p ch"
| "exec_state s_start_req_or_res p ch rest = at_s_start_req_or_res p ch"
| "exec_state s_res_or_resp_H p ch rest = at_s_res_or_resp_H p ch"
| "exec_state s_start_res p ch rest = at_s_start_res p ch"
| "exec_state s_res_H p ch rest = at_s_res_H p ch"
| "exec_state s_res_HT p ch rest = at_s_res_HT p ch"
| "exec_state s_res_HTT p ch rest = at_s_res_HTT p ch"
| "exec_state s_res_HTTP p ch rest = at_s_res_HTTP p ch"
| "exec_state s_res_first_http_major p ch rest = at_s_res_first_http_major p ch"
| "exec_state s_res_http_major p ch rest = at_s_res_http_major p ch"
| "exec_state s_res_first_http_minor p ch rest = at_s_res_first_http_minor p ch"
| "exec_state s_res_http_minor p ch rest = at_s_res_http_minor p ch"
| "exec_state s_res_first_status_code p ch rest = at_s_res_first_status_code p ch"
| "exec_state s_res_status_code p ch rest = at_s_res_status_code p ch"
| "exec_state s_res_status p ch rest = at_s_res_status p ch"
| "exec_state s_res_line_almost_done p ch rest = at_s_res_line_almost_done p ch"
| "exec_state s_start_req p ch rest = at_s_start_req p ch"
| "exec_state s_req_method p ch rest = at_s_req_method p ch"
| "exec_state s_req_spaces_before_url p ch rest = at_s_req_spaces_before_url p ch"
| "exec_state s_req_schema p ch rest = at_url_schema p ch"
| "exec_state s_req_schema_slash p ch rest = at_url_schema p ch"
| "exec_state s_req_schema_slash_slash p ch rest = at_url_schema p ch"
| "exec_state s_req_server_start p ch rest = at_url_schema p ch"
| "exec_state s_req_server p ch rest = at_url_rest p ch"
| "exec_state s_req_server_with_at p ch rest = at_url_rest p ch"
| "exec_state s_req_path p ch rest = at_url_rest p ch"
| "exec_state s_req_query_string_start p ch rest = at_url_rest p ch"
| "exec_state s_req_query_string p ch rest = at_url_rest p ch"
| "exec_state s_req_fragment_start p ch rest = at_url_rest p ch"
| "exec_state s_req_fragment p ch rest = at_url_rest p ch"
| "exec_state s_req_http_start p ch rest = at_s_req_http_start p ch"
| "exec_state s_req_http_H p ch rest = at_s_req_http_H p ch"
| "exec_state s_req_http_HT p ch rest = at_s_req_http_HT p ch"
| "exec_state s_req_http_HTT p ch rest = at_s_req_http_HTT p ch"
| "exec_state s_req_http_HTTP p ch rest = at_s_req_http_HTTP p ch"
| "exec_state s_req_first_http_major p ch rest = at_s_req_first_http_major p ch"
| "exec_state s_req_http_major p ch rest = at_s_req_http_major p ch"
| "exec_state s_req_first_http_minor p ch rest = at_s_req_first_http_minor p ch"
| "exec_state s_req_http_minor p ch rest = at_s_req_http_minor p ch"
| "exec_state s_req_line_almost_done p ch rest = at_s_req_line_almost_done p ch"
| "exec_state s_header_field_start p ch rest = at_s_header_field_start p ch"
| "exec_state s_header_field p ch rest = at_s_header_field p ch"
| "exec_state s_header_value_start p ch rest = at_s_header_value_start p ch"
| "exec_state s_header_value p ch rest = at_s_header_value p ch"
| "exec_state s_header_value_lws p ch rest = at_s_header_value_lws p ch"
| "exec_state s_header_almost_done p ch rest = at_s_header_almost_done p ch"
| "exec_state s_chunk_size_start p ch rest = at_s_chunk_size_start p ch"
| "exec_state s_chunk_size p ch rest = at_s_chunk_size p ch"
| "exec_state s_chunk_parameters p ch rest = at_s_chunk_parameters p ch"
| "exec_state s_chunk_size_almost_done p ch rest = at_s_chunk_size_almost_done p ch"
| "exec_state s_headers_almost_done p ch rest = at_s_headers_almost_done p ch"
| "exec_state s_headers_done p ch rest = at_s_headers_done p ch"
| "exec_state s_chunk_data p ch rest = at_s_chunk_data p rest"
| "exec_state s_chunk_data_almost_done p ch rest = at_s_chunk_data_almost_done p ch"
| "exec_state s_chunk_data_done p ch rest = at_s_chunk_data_done p ch"
| "exec_state s_body_identity p ch rest = at_s_body_identity p rest"
| "exec_state s_body_identity_eof p ch rest = at_s_body_identity_eof p rest"
| "exec_state s_message_done p ch rest = at_s_message_done p"

section \<open>The callback macros\<close>

text \<open>
  The state of a call of \<^verbatim>\<open>http_parser_execute\<close>: the parser, the index \<^verbatim>\<open>p - data\<close>, the
  four \<^verbatim>\<open>_mark\<close> pointers (as indices; \<open>None\<close> is \<^verbatim>\<open>NULL\<close>) and the user's state.
\<close>

record 'u exec_st =
  parser :: http_parser
  at :: nat
  marks :: "data_cb \<Rightarrow> nat option"
  user :: 'u

primrec notify_of :: "notify_cb \<Rightarrow> 'u http_parser_settings \<Rightarrow> 'u http_cb option" where
  "notify_of Message_Begin = on_message_begin"
| "notify_of Status_Complete = on_status_complete"
| "notify_of Message_Complete = on_message_complete"

primrec notify_errno :: "notify_cb \<Rightarrow> http_errno_code" where
  "notify_errno Message_Begin = HPE_CB_message_begin"
| "notify_errno Status_Complete = HPE_CB_status_complete"
| "notify_errno Message_Complete = HPE_CB_message_complete"

primrec data_of :: "data_cb \<Rightarrow> 'u http_parser_settings \<Rightarrow> 'u http_data_cb option" where
  "data_of Header_Field = on_header_field"
| "data_of Header_Value = on_header_value"
| "data_of Url = on_url"
| "data_of Body = on_body"

primrec data_errno :: "data_cb \<Rightarrow> http_errno_code" where
  "data_errno Header_Field = HPE_CB_header_field"
| "data_errno Header_Value = HPE_CB_header_value"
| "data_errno Url = HPE_CB_url"
| "data_errno Body = HPE_CB_body"

text \<open>
  The outcome of the switch on one byte: go to the next byte, execute the byte again,
  \<^verbatim>\<open>return\<close> a value, or \<^verbatim>\<open>goto error\<close>.
\<close>

datatype outcome = Next_Byte | Again | Stop nat | Goto_Error

text \<open>
  The call of \<^verbatim>\<open>on_headers_complete\<close> with the \<^verbatim>\<open>switch\<close> on its result: 1 says that no body
  will follow.
\<close>

definition headers_complete_call :: "'u http_parser_settings \<Rightarrow> 'u exec_st \<Rightarrow> 'u exec_st" where
  [simp]: "headers_complete_call st m =
     (case on_headers_complete st of
        None \<Rightarrow> m
      | Some f \<Rightarrow>
          let (r, u1) = f (parser m) (user m);
              m1 = m\<lparr>user := u1\<rparr>
          in if r = 0 then m1
             else if r = 1
             then m1\<lparr>parser := (parser m1)\<lparr>p_flags := p_flags (parser m1) OR F_SKIPBODY\<rparr>\<rparr>
             else m1\<lparr>parser := (parser m1)\<lparr>http_errno := HPE_CB_headers_complete\<rparr>\<rparr>)"

text \<open>
  \<open>None\<close> is a callback on bytes outside the input buffer, or (\<open>Skip 0\<close>) a pointer that
  steps back.
\<close>

primrec run_action :: "'u http_parser_settings \<Rightarrow> byte list \<Rightarrow> action \<Rightarrow> 'u exec_st \<Rightarrow>
    (outcome \<times> 'u exec_st) option" where
  "run_action st data Break m = Some (Next_Byte, m)"
| "run_action st data Reexecute m = Some (Again, m)"
| "run_action st data Error m = Some (Goto_Error, m)"
| "run_action st data Return_Next m = Some (Stop (at m + 1), m)"
| "run_action st data (Mark cb a) m =
     run_action st data a
       (if marks m cb = None then m\<lparr>marks := (marks m)(cb := Some (at m))\<rparr> else m)"
| "run_action st data (Skip n a) m =
     (if n = 0 then None else run_action st data a (m\<lparr>at := at m + n - 1\<rparr>))"
| "run_action st data (Notify cb er a) m =
     (case notify_of cb st of
        None \<Rightarrow> run_action st data a m
      | Some f \<Rightarrow>
          let (r, u1) = f (parser m) (user m);
              m1 = m\<lparr>user := u1\<rparr>;
              m2 = (if r \<noteq> 0 then m1\<lparr>parser := (parser m1)\<lparr>http_errno := notify_errno cb\<rparr>\<rparr> else m1)
          in if http_errno (parser m2) \<noteq> HPE_OK then Some (Stop (at m2 + er), m2)
             else run_action st data a m2)"
| "run_action st data (Data cb l er a) m =
     (case marks m cb of
        None \<Rightarrow> run_action st data a m
      | Some mk \<Rightarrow>
          (case data_of cb st of
             None \<Rightarrow> run_action st data a (m\<lparr>marks := (marks m)(cb := None)\<rparr>)
           | Some f \<Rightarrow>
               if at m + l < mk then None
               else do {
                 bs \<leftarrow> mem_read data mk (at m + l - mk);
                 let (r, u1) = f (parser m) bs (user m);
                     m1 = m\<lparr>user := u1\<rparr>;
                     m2 = (if r \<noteq> 0 then m1\<lparr>parser := (parser m1)\<lparr>http_errno := data_errno cb\<rparr>\<rparr>
                           else m1)
                 in if http_errno (parser m2) \<noteq> HPE_OK then Some (Stop (at m2 + er), m2)
                    else run_action st data a (m2\<lparr>marks := (marks m2)(cb := None)\<rparr>) }))"
| "run_action st data (On_Headers_Complete a) m =
     (let m2 = headers_complete_call st m
      in if http_errno (parser m2) \<noteq> HPE_OK then Some (Stop (at m2), m2)
         else run_action st data a m2)"

section \<open>The loop\<close>

text \<open>
  One byte: the switch, repeated while it says \<^verbatim>\<open>goto reexecute_byte\<close>. No state needs more
  than four rounds (\<open>exec_byte_total\<close>).
\<close>

fun exec_byte :: "nat \<Rightarrow> 'u http_parser_settings \<Rightarrow> byte list \<Rightarrow> byte \<Rightarrow> 'u exec_st \<Rightarrow>
    (outcome \<times> 'u exec_st) option" where
  "exec_byte 0 st data ch m = None"
| "exec_byte (Suc k) st data ch m =
     (let (p1, a) = exec_state (p_state (parser m)) (parser m) ch (length data - at m)
      in do {
        (out, m1) \<leftarrow> run_action st data a (m\<lparr>parser := p1\<rparr>);
        (if out = Again then exec_byte k st data ch m1 else Some (out, m1)) })"

text \<open>The label \<^verbatim>\<open>error\<close>.\<close>

definition exec_error :: "'u exec_st \<Rightarrow> nat \<times> 'u exec_st" where
  "exec_error m =
     (at m, if http_errno (parser m) = HPE_OK
            then m\<lparr>parser := (parser m)\<lparr>http_errno := HPE_UNKNOWN\<rparr>\<rparr> else m)"

text \<open>The callbacks after the loop, on what is marked at the end of the input.\<close>

definition exec_finish :: "'u http_parser_settings \<Rightarrow> byte list \<Rightarrow> 'u exec_st \<Rightarrow> (nat \<times> 'u exec_st) option" where
  "exec_finish st data m = do {
     (out, m1) \<leftarrow> run_action st data
       (CALLBACK_DATA_NOADVANCE Header_Field (CALLBACK_DATA_NOADVANCE Header_Value
          (CALLBACK_DATA_NOADVANCE Url (CALLBACK_DATA_NOADVANCE Body Break)))) m;
     Some (case out of Stop r \<Rightarrow> r | _ \<Rightarrow> length data, m1) }"

text \<open>The count of header bytes at the head of the loop body, and its limit.\<close>

definition count_byte :: "http_parser \<Rightarrow> http_parser" where
  "count_byte p = (if up_to_headers_done (p_state p) then p\<lparr>nread := nread p + 1\<rparr> else p)"

definition header_overflow :: "http_parser \<Rightarrow> bool" where
  "header_overflow p \<longleftrightarrow> up_to_headers_done (p_state p) \<and> nread p > HTTP_MAX_HEADER_SIZE"

text \<open>
  Every round moves \<^verbatim>\<open>p\<close> on, so that the length of the input plus one is enough fuel.
\<close>

fun exec_loop :: "nat \<Rightarrow> 'u http_parser_settings \<Rightarrow> byte list \<Rightarrow> 'u exec_st \<Rightarrow>
    (nat \<times> 'u exec_st) option" where
  "exec_loop 0 st data m = None"
| "exec_loop (Suc fuel) st data m =
     (if at m = length data then exec_finish st data m
      else let ch = data ! at m;
               p0 = count_byte (parser m);
               m0 = m\<lparr>parser := p0\<rparr>
      in if header_overflow p0
         then Some (exec_error (m\<lparr>parser := p0\<lparr>http_errno := HPE_HEADER_OVERFLOW\<rparr>\<rparr>))
         else do {
           (out, m1) \<leftarrow> exec_byte 4 st data ch m0;
           (case out of
              Stop r \<Rightarrow> Some (r, m1)
            | Goto_Error \<Rightarrow> Some (exec_error m1)
            | _ \<Rightarrow> exec_loop fuel st data (m1\<lparr>at := at m1 + 1\<rparr>)) })"

text \<open>The marks a call starts with: what the last call left unfinished goes on at \<^verbatim>\<open>data\<close>.\<close>

definition url_states :: "pstate set" where
  "url_states =
     {s_req_path, s_req_schema, s_req_schema_slash, s_req_schema_slash_slash,
      s_req_server_start, s_req_server, s_req_server_with_at, s_req_query_string_start,
      s_req_query_string, s_req_fragment_start, s_req_fragment}"

definition start_marks :: "pstate \<Rightarrow> data_cb \<Rightarrow> nat option" where
  "start_marks s cb =
     (if cb = Header_Field \<and> s = s_header_field \<or> cb = Header_Value \<and> s = s_header_value
         \<or> cb = Url \<and> s \<in> url_states
      then Some 0 else None)"

text \<open>A call with no bytes tells the parser that the peer has closed the connection.\<close>

definition exec_eof :: "'u http_parser_settings \<Rightarrow> http_parser \<Rightarrow> 'u \<Rightarrow> (nat \<times> http_parser \<times> 'u) option" where
  "exec_eof st p u =
     (if p_state p = s_body_identity_eof then do {
        (out, m1) \<leftarrow> run_action st [] (Notify Message_Complete 0 Break)
                       \<lparr>parser = p, at = 0, marks = (\<lambda>_. None), user = u\<rparr>;
        Some (0, parser m1, user m1) }
      else if p_state p \<in> {s_dead, s_start_req_or_res, s_start_res, s_start_req}
      then Some (0, p, u)
      else Some (1, p\<lparr>http_errno := HPE_INVALID_EOF_STATE\<rparr>, u))"

definition http_parser_execute :: "'u http_parser_settings \<Rightarrow> byte list \<Rightarrow> http_parser \<Rightarrow> 'u \<Rightarrow>
    (nat \<times> http_parser \<times> 'u) option" where
  "http_parser_execute st data p u =
     (if http_errno p \<noteq> HPE_OK then Some (0, p, u)
      else if data = [] then exec_eof st p u
      else do {
        (r, m) \<leftarrow> exec_loop (length data + 1) st data
                   \<lparr>parser = p, at = 0, marks = start_marks (p_state p), user = u\<rparr>;
        Some (r, parser m, user m) })"

end
