(* ===== verification/Http_Invariant.thy ===== *)
theory Http_Invariant
  imports Http_Execute
begin

text \<open>
  What every case of the switch keeps: the invariant of the parser, the discipline of marks
  and callbacks, and a rank that falls with every \<^verbatim>\<open>goto reexecute_byte\<close>. It follows that
  \<^verbatim>\<open>http_parser_execute\<close> returns, inside the input.
\<close>

section \<open>The invariant\<close>

definition hp_wf :: "http_parser \<Rightarrow> bool" where
  "hp_wf p \<longleftrightarrow>
     (p_state p = s_req_method \<longrightarrow> unat (p_index p) \<le> length (method_strings (p_method p)))
     \<and> http_major p \<le> 999 \<and> http_minor p \<le> 999 \<and> status_code p \<le> 999
     \<and> (p_state p = s_body_identity \<or> p_state p = s_chunk_data \<longrightarrow> content_length p \<noteq> 0)
     \<and> nread p \<le> HTTP_MAX_HEADER_SIZE"

lemma hp_wf_init: "hp_wf (http_parser_init t)"
  by (auto simp: hp_wf_def http_parser_init_def HTTP_MAX_HEADER_SIZE_def)

lemma hp_wf_cong:
  "hp_wf (p\<lparr>http_errno := e\<rparr>) = hp_wf p" "hp_wf (p\<lparr>p_flags := f\<rparr>) = hp_wf p"
  "hp_wf (p\<lparr>header_state := h\<rparr>) = hp_wf p"
  by (simp_all add: hp_wf_def)

section \<open>The shape of an action\<close>

primrec ending :: "action \<Rightarrow> action" where
  "ending Break = Break"
| "ending Reexecute = Reexecute"
| "ending Error = Error"
| "ending Return_Next = Return_Next"
| "ending (Mark cb a) = ending a"
| "ending (Skip n a) = ending a"
| "ending (Notify cb er a) = ending a"
| "ending (Data cb l er a) = ending a"
| "ending (On_Headers_Complete a) = ending a"

text \<open>No action leaves the input, of which \<open>rest\<close> bytes are left.\<close>

primrec within :: "nat \<Rightarrow> action \<Rightarrow> bool" where
  "within rest Break = True"
| "within rest Reexecute = True"
| "within rest Error = True"
| "within rest Return_Next = True"
| "within rest (Mark cb a) = within rest a"
| "within rest (Skip n a) = (0 < n \<and> n \<le> rest \<and> within (rest - n + 1) a)"
| "within rest (Notify cb er a) = (er \<le> 1 \<and> within rest a)"
| "within rest (Data cb l er a) = (l \<le> 1 \<and> er \<le> 1 \<and> within rest a)"
| "within rest (On_Headers_Complete a) = within rest a"

text \<open>
  Which datum is being collected in a state. \<open>marked c s' a\<close>: when \<open>a\<close> starts with \<open>c\<close>
  being collected, no callback runs in the middle of it but its own, and \<open>a\<close> leaves what
  the next state \<open>s'\<close> collects.
\<close>

definition collects :: "pstate \<Rightarrow> data_cb option" where
  "collects s =
     (if s = s_header_field then Some Header_Field
      else if s = s_header_value then Some Header_Value
      else if s \<in> url_states then Some Url
      else if s \<in> {s_body_identity, s_body_identity_eof, s_chunk_data, s_chunk_data_almost_done}
      then Some Body
      else None)"

definition collected :: "data_cb option \<Rightarrow> pstate \<Rightarrow> bool" where
  "collected c s \<longleftrightarrow> c = collects s \<or> c = None \<and> collects s = Some Body"

primrec marked :: "data_cb option \<Rightarrow> pstate \<Rightarrow> action \<Rightarrow> bool" where
  "marked c s Break = collected c s"
| "marked c s Reexecute = collected c s"
| "marked c s Error = True"
| "marked c s Return_Next = True"
| "marked c s (Mark cb a) = ((c = None \<or> c = Some cb) \<and> marked (Some cb) s a)"
| "marked c s (Skip n a) = marked c s a"
| "marked c s (Notify cb er a) = (c = None \<and> marked None s a)"
| "marked c s (Data cb l er a) = (c = Some cb \<and> (l = 0 \<or> cb = Body) \<and> marked None s a)"
| "marked c s (On_Headers_Complete a) = (c = None \<and> marked None s a)"

text \<open>The number of times that a state may still ask for the byte to be executed again.\<close>

definition reexec_rank :: "pstate \<Rightarrow> nat" where
  "reexec_rank s =
     (if s = s_header_value_lws then 3 else if s = s_header_field_start then 2
      else if s \<in> {s_start_req_or_res, s_header_value, s_headers_almost_done, s_body_identity} then 1
      else 0)"

definition body_states :: "pstate set" where
  "body_states = {s_body_identity, s_body_identity_eof, s_chunk_data}"

text \<open>The flag \<^verbatim>\<open>upgrade\<close> is seen by \<^verbatim>\<open>s_headers_done\<close> before the byte is finished.\<close>

definition upgrade_ok :: "http_parser \<Rightarrow> bool" where
  "upgrade_ok p \<longleftrightarrow> (upgrade p \<longrightarrow> p_state p = s_headers_done)"

definition case_ok :: "nat \<Rightarrow> http_parser \<Rightarrow> case_result \<Rightarrow> bool" where
  "case_ok rest p = (\<lambda>(p', a).
     (ending a \<noteq> Error \<longrightarrow> hp_wf p') \<and> within rest a \<and> marked (collects (p_state p)) (p_state p') a
     \<and> (ending a = Reexecute \<longrightarrow>
          reexec_rank (p_state p') < reexec_rank (p_state p) \<and> p_state p' \<notin> body_states)
     \<and> (ending a \<noteq> Error \<longrightarrow> http_errno p' = http_errno p)
     \<and> (ending a = Break \<and> upgrade_ok p \<longrightarrow> \<not> upgrade p')
     \<and> (ending a = Reexecute \<and> upgrade_ok p \<longrightarrow> upgrade_ok p')
     \<and> (ending a = Return_Next \<longrightarrow> upgrade p')
     \<and> (ending a = Error \<longrightarrow> a = Error \<or> a = Mark Url Error \<or> a = Mark Header_Value Error)
     \<and> nread p' \<le> nread p)"

lemmas case_ok_defs = case_ok_def hp_wf_def fail_def STRICT_CHECK_def collects_def collected_def
  url_states_def reexec_rank_def body_states_def upgrade_ok_def Let_def

lemma NEW_MESSAGE_cases: "NEW_MESSAGE p \<in> {s_dead, s_start_req, s_start_res}"
  by (simp add: NEW_MESSAGE_def start_state_def)

lemma unat_digit: "IS_NUM ch \<Longrightarrow> unat (digit ch :: u16) = of_char ch - 48"
  unfolding digit_def by (subst unat_of_nat) (auto simp: IS_NUM_def)

lemma unat_digit32: "IS_NUM ch \<Longrightarrow> unat (digit ch :: u32) = of_char ch - 48"
  unfolding digit_def by (subst unat_of_nat) (auto simp: IS_NUM_def)

lemma digit_le_999: "IS_NUM ch \<Longrightarrow> (digit ch :: u16) \<le> 999"
  by (auto simp: word_le_nat_alt unat_digit) (auto simp: IS_NUM_def)

lemma not_IS_NUM: "\<not> IS_NUM CR" "\<not> IS_NUM LF" "\<not> IS_NUM CHR '' ''" "\<not> IS_NUM CHR ''.''"
  by (simp_all add: IS_NUM_def)

section \<open>The cases\<close>

lemma response_cases_ok:
  assumes "hp_wf p" and "p_state p = s"
    and "s \<in> {s_dead, s_start_req_or_res, s_res_or_resp_H, s_start_res, s_res_H, s_res_HT,
              s_res_HTT, s_res_HTTP, s_res_first_http_major, s_res_http_major,
              s_res_first_http_minor, s_res_http_minor, s_res_first_status_code,
              s_res_status_code, s_res_status, s_res_line_almost_done}"
  shows "case_ok rest p (exec_state s p ch rest)"
  using assms(3)
  by (elim insertE emptyE; insert assms(1,2);
      simp add: case_ok_defs at_s_dead_def at_s_start_req_or_res_def at_s_res_or_resp_H_def
        at_s_start_res_def at_s_res_H_def at_s_res_HT_def at_s_res_HTT_def at_s_res_HTTP_def
        at_s_res_first_http_major_def at_s_res_http_major_def at_s_res_first_http_minor_def
        at_s_res_http_minor_def at_s_res_first_status_code_def at_s_res_status_code_def
        at_s_res_status_def at_s_res_line_almost_done_def digit_le_999 not_IS_NUM not_less)

lemma http_version_cases_ok:
  assumes "hp_wf p" and "p_state p = s"
    and "s \<in> {s_req_http_start, s_req_http_H, s_req_http_HT, s_req_http_HTT, s_req_http_HTTP,
              s_req_first_http_major, s_req_http_major, s_req_first_http_minor, s_req_http_minor,
              s_req_line_almost_done, s_start_req}"
  shows "case_ok rest p (exec_state s p ch rest)"
  using assms(3)
  by (elim insertE emptyE; insert assms(1,2);
      simp add: case_ok_defs at_s_req_http_start_def at_s_req_http_H_def at_s_req_http_HT_def
        at_s_req_http_HTT_def at_s_req_http_HTTP_def at_s_req_first_http_major_def
        at_s_req_http_major_def at_s_req_first_http_minor_def at_s_req_http_minor_def
        at_s_req_line_almost_done_def at_s_start_req_def first_method_def digit_le_999 not_IS_NUM not_less)

lemma parse_url_char_states: "parse_url_char s ch = s_dead \<or> parse_url_char s ch \<in> url_states"
  by (cases s) (simp_all add: parse_url_char_def url_server_char_def url_query_char_def url_states_def)

lemma url_state_facts:
  assumes "s \<in> url_states"
  shows "collects s = Some Url" and "s \<noteq> s_req_method" "s \<noteq> s_body_identity" "s \<noteq> s_chunk_data"
    "s \<noteq> s_headers_done" "s \<noteq> s_dead"
  using assms by (auto simp: collects_def url_states_def)

lemma url_step_ok:
  assumes "hp_wf p" and "p_state q \<noteq> s_headers_done"
    and "http_errno p = http_errno q" "upgrade p = upgrade q" "nread p \<le> nread q"
  shows "collects (p_state q) = Some Url \<Longrightarrow> case_ok rest q (url_step p ch)"
    and "collects (p_state q) = None \<Longrightarrow>
      case_ok rest q (fst (url_step p ch), Mark Url (snd (url_step p ch)))"
  using parse_url_char_states [of "p_state p" ch] url_state_facts [of "parse_url_char (p_state p) ch"] assms
  by (auto simp: url_step_def case_ok_def hp_wf_def fail_def collected_def upgrade_ok_def Let_def
      split: if_splits)

lemma url_end_ok:
  assumes "hp_wf p" and "p_state p \<in> url_states"
  shows "case_ok rest p (at_url_rest p ch)"
  using url_step_ok [OF assms(1), of p rest ch] url_state_facts [OF assms(2)] assms(1)
  by (simp add: at_url_rest_def)
    (auto simp: case_ok_def hp_wf_def upgrade_ok_def collected_def collects_def url_states_def)

lemma url_schema_ok:
  assumes "hp_wf p" and "p_state p \<in> url_states"
  shows "case_ok rest p (at_url_schema p ch)"
  using url_step_ok [OF assms(1), of p rest ch] url_state_facts [OF assms(2)] assms(1)
  by (simp add: at_url_schema_def) (auto simp: case_ok_def hp_wf_def fail_def)

lemma url_start_ok:
  assumes "hp_wf p" and "p_state p = s_req_spaces_before_url"
  shows "case_ok rest p (at_s_req_spaces_before_url p ch)"
proof -
  have c: "collects s_req_spaces_before_url = None" by (simp add: collects_def url_states_def)
  have q: "hp_wf (p\<lparr>p_state := s_req_server_start\<rparr>)" using assms by (simp add: hp_wf_def)
  show ?thesis
    using url_step_ok(2) [OF assms(1), of p rest ch] url_step_ok(2) [OF q, of p rest ch] assms c
    by (simp add: at_s_req_spaces_before_url_def split_beta Let_def)
      (auto simp: case_ok_def collected_def upgrade_ok_def)
qed

lemma url_cases_ok:
  assumes "hp_wf p" and "p_state p = s" and "s \<in> insert s_req_spaces_before_url url_states"
  shows "case_ok rest p (exec_state s p ch rest)"
proof (cases "s = s_req_spaces_before_url")
  case True
  with url_start_ok [OF assms(1), of rest ch] assms(2) show ?thesis by simp
next
  case False
  with assms have "s \<in> url_states" by simp
  then have "exec_state s p ch rest = at_url_rest p ch \<or> exec_state s p ch rest = at_url_schema p ch"
    by (auto simp: url_states_def)
  with url_end_ok [OF assms(1), of rest ch] url_schema_ok [OF assms(1), of rest ch]
    \<open>s \<in> url_states\<close> assms(2) show ?thesis by auto
qed

lemma method_long: "3 \<le> length (method_strings m)"
  by (cases m) simp_all

lemma next_method_length:
  "next_method m i ch = Some (Some m') \<Longrightarrow> unat i + 1 \<le> length (method_strings m')"
  using method_long [of m']
  by (auto simp: next_method_def split: if_splits)

lemma method_case_ok:
  assumes "hp_wf p" and "p_state p = s_req_method"
  shows "case_ok rest p (exec_state s_req_method p ch rest)"
proof -
  let ?i = "p_index p" and ?m = "method_strings (p_method p)"
  have i: "unat ?i \<le> length ?m" using assms by (simp add: hp_wf_def)
  have len: "length (method_strings m) \<le> 11" for m by (cases m) simp_all
  have inc: "unat (?i + 1) = unat ?i + 1"
    using i len [of "p_method p"] by (subst unat_add_small) simp_all
  have "unat ?i < length ?m" if "ch = c_str ?m (unat ?i)" "ch \<noteq> NUL"
    using that i by (cases "unat ?i = length ?m") (auto simp: c_str_def nth_append)
  then show ?thesis
    using assms inc next_method_length [of "p_method p" ?i ch]
    by (auto simp: at_s_req_method_def case_ok_defs split: option.splits)
qed

lemma match_char_keeps:
  "p_state (match_char w d p c) = p_state p" "http_major (match_char w d p c) = http_major p"
  "http_minor (match_char w d p c) = http_minor p" "status_code (match_char w d p c) = status_code p"
  "content_length (match_char w d p c) = content_length p" "nread (match_char w d p c) = nread p"
  "http_errno (match_char w d p c) = http_errno p" "upgrade (match_char w d p c) = upgrade p"
  "p_flags (match_char w d p c) = p_flags p" "p_type (match_char w d p c) = p_type p"
  "p_method (match_char w d p c) = p_method p"
  by (simp_all add: match_char_def Let_def)

lemma header_name_char_keeps:
  "p_state (header_name_char p ch c) = p_state p" "http_major (header_name_char p ch c) = http_major p"
  "http_minor (header_name_char p ch c) = http_minor p"
  "status_code (header_name_char p ch c) = status_code p"
  "content_length (header_name_char p ch c) = content_length p"
  "nread (header_name_char p ch c) = nread p"
  "http_errno (header_name_char p ch c) = http_errno p" "upgrade (header_name_char p ch c) = upgrade p"
  "p_flags (header_name_char p ch c) = p_flags p" "p_type (header_name_char p ch c) = p_type p"
  "p_method (header_name_char p ch c) = p_method p"
  by (simp_all add: header_name_char_def match_char_keeps split: hstate.splits)

lemma header_cases_ok:
  assumes "hp_wf p" and "p_state p = s"
    and "s \<in> {s_header_field_start, s_header_field, s_header_almost_done, s_header_value_lws}"
  shows "case_ok rest p (exec_state s p ch rest)"
  using assms(3)
  by (elim insertE emptyE; insert assms(1,2);
      simp add: case_ok_defs at_s_header_field_start_def at_s_header_field_def
        at_s_header_almost_done_def at_s_header_value_lws_def header_name_char_keeps
        split: hstate.splits)

lemma header_value_cases_ok:
  assumes "hp_wf p" and "p_state p = s" and "s \<in> {s_header_value_start, s_header_value}"
  shows "case_ok rest p (exec_state s p ch rest)"
  using assms(3)
  by (elim insertE emptyE; insert assms(1,2);
      simp add: case_ok_defs at_s_header_value_start_def header_value_first_def
        at_s_header_value_def header_value_char_def content_length_char_def match_char_keeps
        split: hstate.splits)

lemma end_of_headers_cases_ok:
  assumes "hp_wf p" and "p_state p = s"
    and "s \<in> {s_headers_almost_done, s_headers_done, s_message_done}"
  shows "case_ok rest p (exec_state s p ch rest)"
  using assms(3) NEW_MESSAGE_cases [of p] NEW_MESSAGE_cases [of "p\<lparr>nread := 0\<rparr>"]
  by (elim insertE emptyE; insert assms(1,2);
      simp add: case_ok_defs at_s_headers_almost_done_def at_s_headers_done_def at_s_message_done_def;
      auto)

lemma to_read:
  assumes "(c :: u32) \<noteq> 0" and "0 < rest" "rest < 2 ^ 32"
  shows "unat (min c (word_of_nat rest)) = min (unat c) rest"
    and "unat (c - min c (word_of_nat rest)) = unat c - rest"
    and "min c (word_of_nat rest) \<noteq> 0"
proof -
  have r: "unat (word_of_nat rest :: u32) = rest" using assms(3) by (rule unat_u32_of_nat)
  show 1: "unat (min c (word_of_nat rest)) = min (unat c) rest"
    using r by (simp add: min_def word_le_nat_alt)
  show "unat (c - min c (word_of_nat rest)) = unat c - rest"
    using 1 by (subst unat_diff_le) (auto simp: word_le_nat_alt min_def)
  show "min c (word_of_nat rest) \<noteq> 0"
    using 1 assms(1,2) by (metis bot_nat_0.not_eq_extremum min_less_iff_conj unat_0 unat_gt_0)
qed

lemma body_cases_ok:
  assumes "hp_wf p" and "p_state p = s" and "0 < rest" "rest < 2 ^ 32"
    and "s \<in> {s_body_identity, s_body_identity_eof, s_chunk_data, s_chunk_data_almost_done,
              s_chunk_data_done, s_chunk_size_start, s_chunk_size, s_chunk_parameters,
              s_chunk_size_almost_done}"
  shows "case_ok rest p (exec_state s p ch rest)"
proof -
  have rd: "content_length p \<noteq> 0 \<Longrightarrow> unat (min (content_length p) (word_of_nat rest)) \<le> rest"
    "content_length p \<noteq> 0 \<Longrightarrow> 0 < unat (min (content_length p) (word_of_nat rest))"
    using to_read [of "content_length p" rest] assms(3,4) by (auto simp: unat_gt_0)
  show ?thesis
    using assms(5)
    by (elim insertE emptyE; insert assms(1-4) rd;
        simp add: case_ok_defs at_s_body_identity_def at_s_body_identity_eof_def at_s_chunk_data_def
          at_s_chunk_data_almost_done_def at_s_chunk_data_done_def at_s_chunk_size_start_def
          at_s_chunk_size_def at_s_chunk_parameters_def at_s_chunk_size_almost_done_def; auto)
qed

lemma exec_state_ok:
  assumes "hp_wf p" and "0 < rest" "rest < 2 ^ 32"
  shows "case_ok rest p (exec_state (p_state p) p ch rest)"
  using response_cases_ok [OF assms(1) refl] http_version_cases_ok [OF assms(1) refl]
    url_cases_ok [OF assms(1) refl] method_case_ok [OF assms(1)]
    header_cases_ok [OF assms(1) refl] header_value_cases_ok [OF assms(1) refl]
    end_of_headers_cases_ok [OF assms(1) refl] body_cases_ok [OF assms(1) refl assms(2,3)]
  by (cases "p_state p") (simp_all add: url_states_def)

end
