(* ===== verification/Http_Safety.thy ===== *)
theory Http_Safety
  imports Http_Invariant
begin

text \<open>
  \<^verbatim>\<open>http_parser_execute\<close> always returns, whatever the callbacks do, calls back only with
  bytes of its input, and keeps the invariant.
\<close>

section \<open>Actions\<close>

definition marks_ok :: "'u exec_st \<Rightarrow> bool" where
  "marks_ok m \<longleftrightarrow> (\<forall>cb k. marks m cb = Some k \<longrightarrow> k \<le> at m)"

lemma marks_ok_at: "marks_ok m \<Longrightarrow> at m \<le> i \<Longrightarrow> marks_ok (m\<lparr>at := i\<rparr>)"
  unfolding marks_ok_def by (metis exec_st.select_convs(2,3) exec_st.surjective exec_st.update_convs(2) le_trans)

definition outcome_of :: "byte list \<Rightarrow> action \<Rightarrow> outcome \<Rightarrow> bool" where
  "outcome_of data a out \<longleftrightarrow>
     (case out of Next_Byte \<Rightarrow> ending a = Break | Again \<Rightarrow> ending a = Reexecute
      | Goto_Error \<Rightarrow> ending a = Error | Stop r \<Rightarrow> r \<le> length data)"

text \<open>
  An action that stays within the input runs to an outcome that it announces. It changes in
  the parser only the error number, when it returns, and the flags.
\<close>

definition action_result :: "byte list \<Rightarrow> action \<Rightarrow> 'u exec_st \<Rightarrow> outcome \<Rightarrow> 'u exec_st \<Rightarrow> bool" where
  "action_result data a m out m1 \<longleftrightarrow>
     at m \<le> at m1 \<and> at m1 < length data \<and> marks_ok m1 \<and> outcome_of data a out
     \<and> (\<exists>f e. parser m1 = (parser m)\<lparr>p_flags := f, http_errno := e\<rparr>)
     \<and> (http_errno (parser m) = HPE_OK \<longrightarrow>
          (case out of Stop r \<Rightarrow> http_errno (parser m1) \<noteq> HPE_OK \<or> ending a = Return_Next
           | _ \<Rightarrow> http_errno (parser m1) = HPE_OK))"

lemma action_resultI_step:
  assumes "action_result data a m' out m1"
    and "at m \<le> at m'" and "ending a = ending b"
    and "\<exists>f. parser m' = (parser m)\<lparr>p_flags := f\<rparr>"
  shows "action_result data b m out m1"
proof -
  obtain f where f: "parser m' = (parser m)\<lparr>p_flags := f\<rparr>" using assms(4) by blast
  then show ?thesis
    using assms(1-3) by (auto simp: action_result_def outcome_of_def split: outcome.splits)
qed

lemma run_action_step:
  assumes "\<exists>out m1. run_action st data a m' = Some (out, m1) \<and> action_result data a m' out m1"
    and "run_action st data b m = run_action st data a m'"
    and "at m \<le> at m'" and "ending a = ending b"
    and "\<exists>f. parser m' = (parser m)\<lparr>p_flags := f\<rparr>"
  shows "\<exists>out m1. run_action st data b m = Some (out, m1) \<and> action_result data b m out m1"
  using assms action_resultI_step by metis

lemma parser_same_flags: "parser m' = parser m \<Longrightarrow> \<exists>f. parser m' = (parser m)\<lparr>p_flags := f\<rparr>"
  by (metis http_parser.surjective http_parser.update_convs(2))

lemma action_result_stop:
  assumes "http_errno (parser m1) \<noteq> HPE_OK" and "at m1 = at m" "at m < length data"
    and "marks_ok m1" "r \<le> length data" "\<exists>f e. parser m1 = (parser m)\<lparr>p_flags := f, http_errno := e\<rparr>"
  shows "action_result data a m (Stop r) m1"
  using assms by (auto simp: action_result_def outcome_of_def)

lemma http_parser_upd_same: "p = p\<lparr>p_flags := p_flags p, http_errno := http_errno p\<rparr>"
  by simp

lemma http_parser_flags_upd: "p\<lparr>http_errno := e\<rparr> = p\<lparr>p_flags := p_flags p, http_errno := e\<rparr>"
  by simp

lemma run_action_ok:
  assumes "within rest a" and "at m + rest = length data" and "0 < rest" and "marks_ok m"
  shows "\<exists>out m1. run_action st data a m = Some (out, m1) \<and> action_result data a m out m1"
  using assms
proof (induction a arbitrary: m rest)
  case Break
  then show ?case
    by (auto simp: action_result_def outcome_of_def intro: http_parser_upd_same)
next
  case Reexecute
  then show ?case
    by (auto simp: action_result_def outcome_of_def intro: http_parser_upd_same)
next
  case Error
  then show ?case
    by (auto simp: action_result_def outcome_of_def intro: http_parser_upd_same)
next
  case Return_Next
  then show ?case
    by (auto simp: action_result_def outcome_of_def intro: http_parser_upd_same)
next
  case (Mark cb a)
  let ?m = "if marks m cb = None then m\<lparr>marks := (marks m)(cb := Some (at m))\<rparr> else m"
  have ok: "marks_ok ?m" using Mark.prems(4) by (auto simp: marks_ok_def)
  have "\<exists>out m1. run_action st data a ?m = Some (out, m1) \<and> action_result data a ?m out m1"
    using Mark.prems ok by (intro Mark.IH) auto
  then show ?case
    by (rule run_action_step) (auto intro: parser_same_flags)
next
  case (Skip n a)
  let ?m = "m\<lparr>at := at m + n - 1\<rparr>"
  have ok: "marks_ok ?m" using Skip.prems by (intro marks_ok_at) auto
  have "\<exists>out m1. run_action st data a ?m = Some (out, m1) \<and> action_result data a ?m out m1"
    using Skip.prems ok by (intro Skip.IH [of "rest - n + 1"]) auto
  then show ?case
    using Skip.prems by (rule_tac run_action_step) (auto intro: parser_same_flags)
next
  case (Notify cb er a)
  show ?case
  proof (cases "notify_of cb st")
    case None
    have "\<exists>out m1. run_action st data a m = Some (out, m1) \<and> action_result data a m out m1"
      using Notify.prems by (intro Notify.IH) auto
    then show ?thesis using None by (rule_tac run_action_step) (auto intro: parser_same_flags)
  next
    case (Some f)
    obtain r u1 where r: "f (parser m) (user m) = (r, u1)" by fastforce
    let ?p = "if r \<noteq> 0 then (parser m)\<lparr>http_errno := notify_errno cb\<rparr> else parser m"
    let ?m = "m\<lparr>user := u1, parser := ?p\<rparr>"
    have mk: "marks_ok ?m" using Notify.prems(4) by (auto simp: marks_ok_def)
    have run: "run_action st data (Notify cb er a) m =
        (if http_errno ?p \<noteq> HPE_OK then Some (Stop (at m + er), ?m) else run_action st data a ?m)"
      using Some r by (auto simp: Let_def)
    show ?thesis
    proof (cases "http_errno ?p = HPE_OK")
      case True
      then have "r = 0" by (cases cb) (auto split: if_splits)
      have "\<exists>out m1. run_action st data a ?m = Some (out, m1) \<and> action_result data a ?m out m1"
        using Notify.prems mk by (intro Notify.IH) auto
      then show ?thesis
        by (rule run_action_step) (use run True \<open>r = 0\<close> in \<open>auto intro: parser_same_flags\<close>)
    next
      case False
      have "action_result data (Notify cb er a) m (Stop (at m + er)) ?m"
        using False mk Notify.prems
        by (intro action_result_stop) (auto intro: http_parser_upd_same http_parser_flags_upd)
      then show ?thesis unfolding run using False by auto
    qed
  qed
next
  case (Data cb l er a)
  show ?case
  proof (cases "marks m cb")
    case None
    have "\<exists>out m1. run_action st data a m = Some (out, m1) \<and> action_result data a m out m1"
      using Data.prems by (intro Data.IH) auto
    then show ?thesis using None by (rule_tac run_action_step) (auto intro: parser_same_flags)
  next
    case mk: (Some mk)
    then have le: "mk \<le> at m" using Data.prems(4) by (auto simp: marks_ok_def)
    show ?thesis
    proof (cases "data_of cb st")
      case None
      let ?m = "m\<lparr>marks := (marks m)(cb := None)\<rparr>"
      have ok: "marks_ok ?m" using Data.prems(4) by (auto simp: marks_ok_def)
      have "\<exists>out m1. run_action st data a ?m = Some (out, m1) \<and> action_result data a ?m out m1"
        using Data.prems ok by (intro Data.IH) auto
      then show ?thesis
        using None mk by (rule_tac run_action_step) (auto intro: parser_same_flags)
    next
      case (Some f)
      let ?bs = "seg data mk (at m + l - mk)"
      have bs: "mem_read data mk (at m + l - mk) = Some ?bs"
        using le Data.prems by (intro mem_read_Some) auto
      obtain r u1 where r: "f (parser m) ?bs (user m) = (r, u1)" by fastforce
      let ?p = "if r \<noteq> 0 then (parser m)\<lparr>http_errno := data_errno cb\<rparr> else parser m"
      let ?m = "m\<lparr>user := u1, parser := ?p\<rparr>"
      let ?m' = "?m\<lparr>marks := (marks m)(cb := None)\<rparr>"
      have ok: "marks_ok ?m" "marks_ok ?m'" using Data.prems(4) by (auto simp: marks_ok_def)
      have run: "run_action st data (Data cb l er a) m =
          (if http_errno ?p \<noteq> HPE_OK then Some (Stop (at m + er), ?m) else run_action st data a ?m')"
        using Some r mk bs le by (auto simp: Let_def)
      show ?thesis
      proof (cases "http_errno ?p = HPE_OK")
        case True
        then have "r = 0" by (cases cb) (auto split: if_splits)
        have "\<exists>out m1. run_action st data a ?m' = Some (out, m1) \<and> action_result data a ?m' out m1"
          using Data.prems ok by (intro Data.IH) auto
        then show ?thesis
          by (rule run_action_step) (use run True \<open>r = 0\<close> in \<open>auto intro: parser_same_flags\<close>)
      next
        case False
        have "action_result data (Data cb l er a) m (Stop (at m + er)) ?m"
          using False ok Data.prems
          by (intro action_result_stop) (auto intro: http_parser_upd_same http_parser_flags_upd)
        then show ?thesis unfolding run using False by auto
      qed
    qed
  qed
next
  case (On_Headers_Complete a)
  define h where "h = (case on_headers_complete st of None \<Rightarrow> (0, user m) | Some f \<Rightarrow> f (parser m) (user m))"
  define p where "p = (if fst h = 0 then parser m
    else if fst h = 1 then (parser m)\<lparr>p_flags := p_flags (parser m) OR F_SKIPBODY\<rparr>
    else (parser m)\<lparr>http_errno := HPE_CB_headers_complete\<rparr>)"
  let ?m = "m\<lparr>user := snd h, parser := p\<rparr>"
  have mk: "marks_ok ?m" using On_Headers_Complete.prems(4) by (auto simp: marks_ok_def)
  have run: "run_action st data (On_Headers_Complete a) m =
      (if http_errno p \<noteq> HPE_OK then Some (Stop (at m), ?m) else run_action st data a ?m)"
    by (auto simp: h_def p_def Let_def split_beta split: option.splits)
  have pe: "\<exists>f e. p = (parser m)\<lparr>p_flags := f, http_errno := e\<rparr>"
    unfolding p_def by (metis http_parser_upd_same http_parser_flags_upd http_parser.surjective
        http_parser.update_convs(2) http_parser.update_convs(12))
  show ?case
  proof (cases "http_errno p = HPE_OK")
    case True
    then have pf: "\<exists>f. p = (parser m)\<lparr>p_flags := f\<rparr>"
      by (auto simp: p_def split: if_splits intro: exI [of _ "p_flags (parser m)"])
    have "\<exists>out m1. run_action st data a ?m = Some (out, m1) \<and> action_result data a ?m out m1"
      using On_Headers_Complete.prems mk by (intro On_Headers_Complete.IH) auto
    then show ?thesis
      by (rule run_action_step) (use run True pf in auto)
  next
    case False
    have "action_result data (On_Headers_Complete a) m (Stop (at m)) ?m"
      using False mk pe On_Headers_Complete.prems by (intro action_result_stop) auto
    then show ?thesis unfolding run using False by auto
  qed
qed

section \<open>One byte\<close>

definition byte_result :: "byte list \<Rightarrow> 'u exec_st \<Rightarrow> outcome \<Rightarrow> 'u exec_st \<Rightarrow> bool" where
  "byte_result data m out m1 \<longleftrightarrow>
     at m \<le> at m1 \<and> at m1 < length data \<and> marks_ok m1
     \<and> (case out of
          Next_Byte \<Rightarrow> hp_wf (parser m1) \<and> http_errno (parser m1) = HPE_OK
        | Stop r \<Rightarrow> hp_wf (parser m1) \<and> r \<le> length data
        | Goto_Error \<Rightarrow> True
        | Again \<Rightarrow> False)"

lemma hp_wf_flags_errno: "hp_wf (p\<lparr>p_flags := f, http_errno := e\<rparr>) = hp_wf p"
  by (simp add: hp_wf_def)

lemma exec_byte_ok:
  assumes "hp_wf (parser m)" and "http_errno (parser m) = HPE_OK" and "marks_ok m"
    and "at m < length data" "length data < 2 ^ 32" and "reexec_rank (p_state (parser m)) < k"
  shows "\<exists>out m1. exec_byte k st data ch m = Some (out, m1) \<and> byte_result data m out m1"
  using assms
proof (induction k arbitrary: m)
  case 0
  then show ?case by simp
next
  case (Suc k)
  let ?rest = "length data - at m"
  obtain p1 a where pa: "exec_state (p_state (parser m)) (parser m) ch ?rest = (p1, a)" by fastforce
  have ok: "case_ok ?rest (parser m) (p1, a)"
    using exec_state_ok [of "parser m" ?rest ch] Suc.prems pa by auto
  let ?m = "m\<lparr>parser := p1\<rparr>"
  have "marks_ok ?m" using Suc.prems(3) by (simp add: marks_ok_def)
  then obtain out m1 where run: "run_action st data a ?m = Some (out, m1)"
    and res: "action_result data a ?m out m1"
    using run_action_ok [of ?rest a ?m data st] ok Suc.prems(4) by (auto simp: case_ok_def)
  have wf: "hp_wf (parser m1)" if "ending a \<noteq> Error"
    using ok res that by (auto simp: case_ok_def action_result_def hp_wf_flags_errno)
  have errno: "http_errno p1 = HPE_OK" if "ending a \<noteq> Error"
    using ok that Suc.prems(2) by (simp add: case_ok_def)
  have step: "exec_byte (Suc k) st data ch m =
      (if out = Again then exec_byte k st data ch m1 else Some (out, m1))"
    using pa run by simp
  show ?case
  proof (cases "out = Again")
    case True
    then have e: "ending a = Reexecute" using res by (simp add: action_result_def outcome_of_def)
    have "p_state (parser m1) = p_state p1" using res by (auto simp: action_result_def)
    then have "reexec_rank (p_state (parser m1)) < k"
      using ok e Suc.prems(6) by (simp add: case_ok_def)
    moreover have "http_errno (parser m1) = HPE_OK"
      using res errno e True by (simp add: action_result_def)
    ultimately obtain out' m2 where "exec_byte k st data ch m1 = Some (out', m2)" "byte_result data m1 out' m2"
      using Suc.IH [of m1] wf e res Suc.prems(5) by (auto simp: action_result_def)
    then show ?thesis
      using True step res by (auto simp: byte_result_def action_result_def)
  next
    case False
    have basic: "at m \<le> at m1 \<and> at m1 < length data \<and> marks_ok m1" "outcome_of data a out"
      using res by (simp_all add: action_result_def)
    have "byte_result data m out m1"
    proof (cases out)
      case Next_Byte
      then have "ending a = Break" using basic by (simp add: outcome_of_def)
      moreover from this have "http_errno (parser m1) = HPE_OK"
        using res errno Next_Byte by (simp add: action_result_def)
      ultimately show ?thesis using basic wf Next_Byte by (simp add: byte_result_def)
    next
      case (Stop r)
      have "hp_wf (parser m1)"
      proof (cases "ending a = Error")
        case True
        then have "a = Error \<or> a = Mark Url Error \<or> a = Mark Header_Value Error"
          using ok by (simp add: case_ok_def)
        then show ?thesis using run Stop by (auto split: if_splits)
      next
        case False
        then show ?thesis by (rule wf)
      qed
      then show ?thesis using basic Stop by (simp add: byte_result_def outcome_of_def)
    qed (use basic False in \<open>simp_all add: byte_result_def\<close>)
    then show ?thesis using step False by auto
  qed
qed

lemma reexec_rank_le: "reexec_rank s < 4"
  by (simp add: reexec_rank_def)


section \<open>The loop\<close>

definition exec_result :: "byte list \<Rightarrow> nat \<Rightarrow> http_parser \<Rightarrow> bool" where
  "exec_result data r p \<longleftrightarrow> r \<le> length data \<and> (http_errno p = HPE_OK \<longrightarrow> hp_wf p)"

lemma hp_wf_count_byte:
  assumes "hp_wf p" and "\<not> header_overflow (count_byte p)"
  shows "hp_wf (count_byte p)"
  using assms by (auto simp: hp_wf_def count_byte_def header_overflow_def)

lemma count_byte_keeps [simp]:
  "p_state (count_byte p) = p_state p" "http_errno (count_byte p) = http_errno p"
  "upgrade (count_byte p) = upgrade p" "content_length (count_byte p) = content_length p"
  by (simp_all add: count_byte_def)

lemma exec_error_errno: "http_errno (parser (snd (exec_error m))) \<noteq> HPE_OK"
  by (simp add: exec_error_def)

text \<open>The callbacks after the loop find their marks inside the input.\<close>

definition errs :: "http_parser \<Rightarrow> http_parser \<Rightarrow> bool" where
  "errs p q \<longleftrightarrow> (\<exists>f e. q = p\<lparr>p_flags := f, http_errno := e\<rparr>)"

lemma errs_refl [simp]: "errs p p"
  unfolding errs_def using http_parser_upd_same by blast

lemma errs_errno: "errs p q \<Longrightarrow> errs p (q\<lparr>http_errno := e\<rparr>)"
proof -
  assume "errs p q"
  then obtain f d where "q = p\<lparr>p_flags := f, http_errno := d\<rparr>" by (auto simp: errs_def)
  then have "q\<lparr>http_errno := e\<rparr> = p\<lparr>p_flags := f, http_errno := e\<rparr>" by simp
  then show ?thesis unfolding errs_def by blast
qed

lemma errs_wf: "errs p q \<Longrightarrow> hp_wf q = hp_wf p"
  by (auto simp: errs_def hp_wf_flags_errno)

definition end_ok :: "'u http_parser_settings \<Rightarrow> byte list \<Rightarrow> http_parser \<Rightarrow> action \<Rightarrow> bool" where
  "end_ok st data p a \<longleftrightarrow>
     (\<forall>m. at m = length data \<longrightarrow> marks_ok m \<longrightarrow> errs p (parser m) \<longrightarrow>
        (\<exists>out m1. run_action st data a m = Some (out, m1)
           \<and> (\<forall>r. out = Stop r \<longrightarrow> r = length data) \<and> errs p (parser m1)))"

lemma end_ok_Break: "end_ok st data p Break"
  by (simp add: end_ok_def)

lemma end_ok_Data:
  assumes a: "end_ok st data p a"
  shows "end_ok st data p (CALLBACK_DATA_NOADVANCE cb a)"
  unfolding end_ok_def
proof (intro allI impI)
  fix m :: "'a exec_st"
  assume at: "at m = length data" and mo: "marks_ok m" and e: "errs p (parser m)"
  let ?goal = "\<lambda>b m. \<exists>out m1. run_action st data b m = Some (out, m1)
           \<and> (\<forall>r. out = Stop r \<longrightarrow> r = length data) \<and> errs p (parser m1)"
  have go: "?goal a m'" if "at m' = length data" "marks_ok m'" "errs p (parser m')" for m'
    using a that by (simp add: end_ok_def)
  have ok: "marks_ok (m\<lparr>user := u, parser := q, marks := (marks m)(cb := None)\<rparr>)" for u q
    using mo by (auto simp: marks_ok_def)
  show "?goal (CALLBACK_DATA_NOADVANCE cb a) m"
  proof (cases "marks m cb")
    case None
    then show ?thesis using go [OF at mo e] by simp
  next
    case mk: (Some mk)
    then have le: "mk \<le> length data" using at mo by (auto simp: marks_ok_def)
    show ?thesis
    proof (cases "data_of cb st")
      case None
      then show ?thesis
        using go [of "m\<lparr>marks := (marks m)(cb := None)\<rparr>"] at e mk ok [where u = "user m" and q = "parser m"] by simp
    next
      case (Some f)
      let ?bs = "seg data mk (length data - mk)"
      have bs: "mem_read data mk (length data - mk) = Some ?bs"
        using le by (intro mem_read_Some) auto
      obtain r u1 where r: "f (parser m) ?bs (user m) = (r, u1)" by fastforce
      let ?p = "if r \<noteq> 0 then (parser m)\<lparr>http_errno := data_errno cb\<rparr> else parser m"
      let ?m = "m\<lparr>user := u1, parser := ?p\<rparr>"
      have run: "run_action st data (CALLBACK_DATA_NOADVANCE cb a) m =
          (if http_errno ?p \<noteq> HPE_OK then Some (Stop (length data), ?m)
           else run_action st data a (?m\<lparr>marks := (marks m)(cb := None)\<rparr>))"
        using Some r mk bs le at by (auto simp: Let_def)
      have p: "errs p ?p" using e by (simp add: errs_errno)
      show ?thesis
        unfolding run using p go [of "?m\<lparr>marks := (marks m)(cb := None)\<rparr>"] at ok [where u = u1 and q = ?p] by simp
    qed
  qed
qed

lemma exec_finish_ok:
  assumes "at m = length data" and "marks_ok m" and "hp_wf (parser m)"
  shows "\<exists>m1. exec_finish st data m = Some (length data, m1) \<and> hp_wf (parser m1)"
proof -
  have "end_ok st data (parser m)
       (CALLBACK_DATA_NOADVANCE Header_Field (CALLBACK_DATA_NOADVANCE Header_Value
          (CALLBACK_DATA_NOADVANCE Url (CALLBACK_DATA_NOADVANCE Body Break))))"
    by (intro end_ok_Data end_ok_Break)
  then obtain out m1 where "run_action st data
       (CALLBACK_DATA_NOADVANCE Header_Field (CALLBACK_DATA_NOADVANCE Header_Value
          (CALLBACK_DATA_NOADVANCE Url (CALLBACK_DATA_NOADVANCE Body Break)))) m = Some (out, m1)"
      "\<forall>r. out = Stop r \<longrightarrow> r = length data" "errs (parser m) (parser m1)"
    unfolding end_ok_def using assms(1,2) errs_refl by blast
  then show ?thesis
    using assms(3) errs_wf
    by (auto simp: exec_finish_def simp del: run_action.simps split: outcome.splits)
qed

lemma exec_loop_ok:
  assumes "hp_wf (parser m)" and "http_errno (parser m) = HPE_OK" and "marks_ok m"
    and "at m \<le> length data" "length data < 2 ^ 32" and "length data - at m < fuel"
  shows "\<exists>r m1. exec_loop fuel st data m = Some (r, m1) \<and> exec_result data r (parser m1)"
  using assms
proof (induction fuel arbitrary: m)
  case 0
  then show ?case by simp
next
  case (Suc fuel)
  show ?case
  proof (cases "at m = length data")
    case True
    then show ?thesis
      using exec_finish_ok [of m data st] Suc.prems by (auto simp: exec_result_def)
  next
    case False
    let ?p0 = "count_byte (parser m)" and ?ch = "data ! at m"
    let ?m0 = "m\<lparr>parser := ?p0\<rparr>"
    show ?thesis
    proof (cases "header_overflow ?p0")
      case True
      then show ?thesis
        using False Suc.prems by (auto simp: exec_result_def exec_error_def Let_def)
    next
      case no: False
      have "marks_ok ?m0" using Suc.prems(3) by (simp add: marks_ok_def)
      then obtain out m1 where b: "exec_byte 4 st data ?ch ?m0 = Some (out, m1)"
        and res: "byte_result data ?m0 out m1"
        using exec_byte_ok [of ?m0 data 4 st ?ch] Suc.prems False no reexec_rank_le
        by (auto simp: hp_wf_count_byte)
      show ?thesis
      proof (cases out)
        case Next_Byte
        let ?m = "m1\<lparr>at := at m1 + 1\<rparr>"
        have "\<exists>r m2. exec_loop fuel st data ?m = Some (r, m2) \<and> exec_result data r (parser m2)"
          using res Suc.prems Next_Byte marks_ok_at [of m1 "at m1 + 1"]
          by (intro Suc.IH) (auto simp: byte_result_def)
        then show ?thesis using False no b Next_Byte by (simp add: Let_def)
      next
        case Again
        then show ?thesis using res by (simp add: byte_result_def)
      next
        case (Stop r)
        then show ?thesis using False no b res by (auto simp: Let_def byte_result_def exec_result_def)
      next
        case Goto_Error
        then show ?thesis using False no b res exec_error_errno [of m1]
          by (auto simp: Let_def byte_result_def exec_result_def exec_error_def)
      qed
    qed
  qed
qed

lemma exec_eof_ok:
  assumes "hp_wf p" and "http_errno p = HPE_OK"
  shows "\<exists>r p' u'. exec_eof st p u = Some (r, p', u') \<and> r \<le> 1 \<and> hp_wf p'"
  using assms
  by (auto simp: exec_eof_def hp_wf_cong Let_def split_beta split: option.splits)

lemma execute_ok:
  assumes "hp_wf p" and "length data < 2 ^ 31"
  shows "\<exists>r p' u'. http_parser_execute st data p u = Some (r, p', u')
      \<and> r \<le> max 1 (length data) \<and> (http_errno p' = HPE_OK \<longrightarrow> hp_wf p')"
proof (cases "http_errno p \<noteq> HPE_OK \<or> data = []")
  case True
  then show ?thesis
    using exec_eof_ok [OF assms(1), of st u] assms(1) by (auto simp: http_parser_execute_def)
next
  case False
  let ?m = "\<lparr>parser = p, at = 0, marks = start_marks (p_state p), user = u\<rparr>"
  have "marks_ok ?m" by (simp add: marks_ok_def start_marks_def)
  then have "\<exists>r m1. exec_loop (length data + 1) st data ?m = Some (r, m1) \<and> exec_result data r (parser m1)"
    using assms False by (intro exec_loop_ok) auto
  then show ?thesis
    using False by (auto simp: http_parser_execute_def exec_result_def)
qed

end
