(* ===== verification/Http_Reference.thy ===== *)
theory Http_Reference
  imports Http_Safety
begin

text \<open>
  A reference for \<^verbatim>\<open>http_parser_execute\<close> that has no input buffer: it takes one byte at a
  time, hands every byte of a datum to its callback at once, and has no look-ahead. For
  callbacks that accumulate, the parser with its marks and its jumps over bodies does the same
  as the reference, so that the way a stream is cut into reads does not matter.
\<close>

section \<open>Accumulating callbacks\<close>

text \<open>
  The data callbacks return 0 and receiving \<open>a @ b\<close> is receiving \<open>a\<close>, then \<open>b\<close>. Nothing is
  said about the other callbacks.
\<close>

definition accumulates :: "'u http_parser_settings \<Rightarrow> bool" where
  "accumulates st \<longleftrightarrow>
     (\<forall>cb f. data_of cb st = Some f \<longrightarrow>
        (\<forall>p q bs u. f p bs u = f q bs u) \<and> (\<forall>p bs u. fst (f p bs u) = 0)
        \<and> (\<forall>p u. snd (f p [] u) = u)
        \<and> (\<forall>p a b u. snd (f p (a @ b) u) = snd (f p b (snd (f p a u)))))"

definition put :: "'u http_parser_settings \<Rightarrow> http_parser \<Rightarrow> data_cb \<Rightarrow> byte list \<Rightarrow> 'u \<Rightarrow> 'u" where
  "put st p cb bs u = (case data_of cb st of None \<Rightarrow> u | Some f \<Rightarrow> snd (f p bs u))"

lemma put_Nil [simp]: "accumulates st \<Longrightarrow> put st p cb [] u = u"
  by (auto simp: accumulates_def put_def split: option.splits)

lemma put_append: "accumulates st \<Longrightarrow> put st p cb (a @ b) u = put st p cb b (put st p cb a u)"
  by (auto simp: accumulates_def put_def split: option.splits)

lemma put_any: "accumulates st \<Longrightarrow> put st p cb bs u = put st q cb bs u"
proof (cases "data_of cb st")
  case (Some f)
  moreover assume "accumulates st"
  ultimately have "f p bs u = f q bs u" unfolding accumulates_def by blast
  with Some show ?thesis by (simp add: put_def)
qed (simp add: put_def)

section \<open>The reference\<close>

type_synonym 'u ref_st = "http_parser \<times> 'u"

definition put_opt :: "'u http_parser_settings \<Rightarrow> http_parser \<Rightarrow> data_cb option \<Rightarrow> byte list \<Rightarrow> 'u \<Rightarrow> 'u" where
  "put_opt st p c bs u = (case c of None \<Rightarrow> u | Some cb \<Rightarrow> put st p cb bs u)"

text \<open>
  An action on the byte \<open>ch\<close>, with \<open>c\<close> the datum that is being collected. The result tells
  whether to execute the byte again; \<open>None\<close> is every other way to leave the loop.
\<close>

primrec ref_action :: "'u http_parser_settings \<Rightarrow> byte \<Rightarrow> action \<Rightarrow> http_parser \<Rightarrow> 'u \<Rightarrow> data_cb option \<Rightarrow>
    (bool \<times> http_parser \<times> 'u) option" where
  "ref_action st ch Break p u c = Some (False, p, put_opt st p c [ch] u)"
| "ref_action st ch Reexecute p u c = Some (True, p, u)"
| "ref_action st ch Error p u c = None"
| "ref_action st ch Return_Next p u c = None"
| "ref_action st ch (Mark cb a) p u c = ref_action st ch a p u (Some cb)"
| "ref_action st ch (Skip n a) p u c = ref_action st ch a p u c"
| "ref_action st ch (Notify cb er a) p u c =
     (case notify_of cb st of
        None \<Rightarrow> ref_action st ch a p u c
      | Some f \<Rightarrow> let (r, u1) = f p u in if r \<noteq> 0 then None else ref_action st ch a p u1 c)"
| "ref_action st ch (Data cb l er a) p u c =
     ref_action st ch a p (if l = 0 then u else put st p cb [ch] u) None"
| "ref_action st ch (On_Headers_Complete a) p u c =
     (case on_headers_complete st of
        None \<Rightarrow> ref_action st ch a p u c
      | Some f \<Rightarrow> let (r, u1) = f p u in
          if r = 0 then ref_action st ch a p u1 c
          else if r = 1 then ref_action st ch a (p\<lparr>p_flags := p_flags p OR F_SKIPBODY\<rparr>) u1 c
          else None)"

primrec ref_exec :: "nat \<Rightarrow> 'u http_parser_settings \<Rightarrow> byte \<Rightarrow> 'u ref_st \<Rightarrow> 'u ref_st option" where
  "ref_exec 0 st ch s = None"
| "ref_exec (Suc k) st ch s =
     (let (p, u) = s; (p1, a) = exec_state (p_state p) p ch 1
      in do {
        (again, p2, u2) \<leftarrow> ref_action st ch a p1 u (collects (p_state p));
        (if again then ref_exec k st ch (p2, u2) else Some (p2, u2)) })"

definition ref_byte :: "'u http_parser_settings \<Rightarrow> byte \<Rightarrow> 'u ref_st \<Rightarrow> 'u ref_st option" where
  "ref_byte st ch s =
     (let (p, u) = s; p0 = count_byte p
      in if header_overflow p0 then None else ref_exec 4 st ch (p0, u))"

fun ref_run :: "'u http_parser_settings \<Rightarrow> byte list \<Rightarrow> 'u ref_st \<Rightarrow> 'u ref_st option" where
  "ref_run st [] s = Some s"
| "ref_run st (ch # bs) s = do { s1 \<leftarrow> ref_byte st ch s; ref_run st bs s1 }"

lemma ref_run_append: "ref_run st (a @ b) s = do { s1 \<leftarrow> ref_run st a s; ref_run st b s1 }"
proof (induction a arbitrary: s)
  case (Cons x a)
  then show ?case by (cases "ref_byte st x s") simp_all
qed simp

section \<open>One byte outside the bodies\<close>

text \<open>
  A state of the loop stands for a state of the reference when the bytes that are marked have
  been handed over: \<open>c\<close> is what is being collected, \<open>u\<close> the user's state with it.
\<close>

definition collecting :: "(data_cb \<Rightarrow> nat option) \<Rightarrow> data_cb option \<Rightarrow> bool" where
  "collecting mk c \<longleftrightarrow>
     (\<forall>cb. mk cb \<noteq> None \<longrightarrow> c = Some cb) \<and> (\<forall>cb. c = Some cb \<longrightarrow> cb = Body \<or> mk cb \<noteq> None)"

definition pending :: "byte list \<Rightarrow> 'u exec_st \<Rightarrow> data_cb \<Rightarrow> byte list" where
  "pending data m cb = (case marks m cb of None \<Rightarrow> [] | Some k \<Rightarrow> seg data k (at m - k))"

definition stands_for :: "'u http_parser_settings \<Rightarrow> byte list \<Rightarrow> data_cb option \<Rightarrow> 'u exec_st \<Rightarrow> 'u \<Rightarrow> bool" where
  "stands_for st data c m u \<longleftrightarrow>
     collecting (marks m) c \<and> marks_ok m
     \<and> u = (case c of None \<Rightarrow> user m | Some cb \<Rightarrow> put st (parser m) cb (pending data m cb) (user m))"

text \<open>What the outcome of the switch must be, given the answer of the reference.\<close>

definition agrees :: "'u http_parser_settings \<Rightarrow> byte list \<Rightarrow> byte \<Rightarrow> pstate \<Rightarrow> action \<Rightarrow> 'u exec_st \<Rightarrow>
    (outcome \<times> 'u exec_st) option \<Rightarrow> (bool \<times> http_parser \<times> 'u) option \<Rightarrow> bool" where
  "agrees st data ch s' a m conc ref \<longleftrightarrow>
     (case ref of
        None \<Rightarrow> (\<exists>out m1. conc = Some (out, m1) \<and>
                   (out = Goto_Error
                    \<or> (\<exists>r. out = Stop r \<and> (http_errno (parser m1) \<noteq> HPE_OK
                         \<or> ending a = Return_Next \<and> upgrade (parser m1) = upgrade (parser m)))))
      | Some (again, p2, u2) \<Rightarrow>
          (\<exists>m1 c. conc = Some (if again then Again else Next_Byte, m1)
             \<and> at m1 = at m \<and> parser m1 = p2 \<and> http_errno p2 = HPE_OK \<and> collected c s'
             \<and> p_state p2 = p_state (parser m)
             \<and> upgrade p2 = upgrade (parser m)
             \<and> (if again then stands_for st data c m1 u2
                else stands_for st data c (m1\<lparr>at := at m + 1\<rparr>) u2)))"

text \<open>The actions without a jump, on a byte of the input.\<close>

primrec no_jump :: "action \<Rightarrow> bool" where
  "no_jump Break = True"
| "no_jump Reexecute = True"
| "no_jump Error = True"
| "no_jump Return_Next = True"
| "no_jump (Mark cb a) = (cb \<noteq> Body \<and> no_jump a)"
| "no_jump (Skip n a) = False"
| "no_jump (Notify cb er a) = no_jump a"
| "no_jump (Data cb l er a) = (l = 0 \<and> no_jump a)"
| "no_jump (On_Headers_Complete a) = no_jump a"

lemma pending_step:
  assumes "at m < length data" and "marks_ok m" and "marks m cb \<noteq> None"
  shows "pending data (m\<lparr>at := at m + 1\<rparr>) cb = pending data m cb @ [data ! at m]"
proof -
  obtain k where k: "marks m cb = Some k" "k \<le> at m" using assms(2,3) by (auto simp: marks_ok_def)
  have "seg data k (Suc (at m) - k) = seg data k (at m - k) @ seg data (at m) 1"
    using k(2) seg_append_seg [of data k "at m - k" 1] by (simp add: Suc_diff_le)
  moreover have "seg data (at m) 1 = [data ! at m]"
    using assms(1) by (simp add: seg_def take_Suc_conv_app_nth hd_drop_conv_nth take_Suc)
  ultimately show ?thesis using k by (simp add: pending_def)
qed


lemma seg_end: "seg data k (at m - k) = pending data m cb" if "marks m cb = Some k"
  using that by (simp add: pending_def)

lemma stands_for_None: "stands_for st data None m u \<longleftrightarrow> (\<forall>cb. marks m cb = None) \<and> u = user m"
  by (auto simp: stands_for_def collecting_def marks_ok_def)

lemma agrees_weaken:
  assumes "agrees st data ch s' a m' conc ref" and "at m' = at m"
    and "p_state (parser m') = p_state (parser m)" "upgrade (parser m') = upgrade (parser m)"
    and "ending a = ending b"
  shows "agrees st data ch s' b m conc ref"
  using assms by (cases ref) (auto simp: agrees_def split: if_splits)

lemma ref_action_agrees:
  assumes acc: "accumulates st" and "no_jump a" and "marked c s' a" and "stands_for st data c m u"
    and "at m < length data" and "http_errno (parser m) = HPE_OK"
    and "c = Some Body \<Longrightarrow> a = Error \<or> (\<exists>er a'. a = Data Body 0 er a')"
  shows "agrees st data (data ! at m) s' a m (run_action st data a m)
           (ref_action st (data ! at m) a (parser m) u c)"
  using assms(2-)
proof (induction a arbitrary: m u c)
  case Break
  then have mk: "marks_ok m" and col: "collecting (marks m) c"
    and u: "u = (case c of None \<Rightarrow> user m | Some cb \<Rightarrow> put st (parser m) cb (pending data m cb) (user m))"
    by (simp_all add: stands_for_def)
  have "stands_for st data c (m\<lparr>at := at m + 1\<rparr>) (put_opt st (parser m) c [data ! at m] u)"
  proof (cases c)
    case None
    then show ?thesis using Break.prems by (simp add: stands_for_None put_opt_def)
  next
    case (Some cb)
    then have "marks m cb \<noteq> None" using col Break.prems(6) by (auto simp: collecting_def)
    then have "pending data (m\<lparr>at := at m + 1\<rparr>) cb = pending data m cb @ [data ! at m]"
      using pending_step mk Break.prems(4) by blast
    then show ?thesis
      using Some u col marks_ok_at [OF mk, of "at m + 1"]
      by (simp add: stands_for_def put_opt_def put_append [OF acc])
  qed
  then show ?case using Break.prems by (auto simp: agrees_def)
next
  case Reexecute
  then show ?case by (auto simp: agrees_def)
next
  case Error
  then show ?case by (auto simp: agrees_def)
next
  case Return_Next
  then show ?case by (auto simp: agrees_def)
next
  case (Mark cb a)
  let ?m = "if marks m cb = None then m\<lparr>marks := (marks m)(cb := Some (at m))\<rparr> else m"
  have sf: "stands_for st data (Some cb) ?m u"
  proof (cases "marks m cb")
    case None
    then have "c = None" using Mark.prems by (auto simp: stands_for_def collecting_def)
    with Mark.prems(3) have "\<forall>cb. marks m cb = None" "u = user m" by (auto simp: stands_for_None)
    then show ?thesis
      using None by (auto simp: stands_for_def collecting_def pending_def marks_ok_def put_Nil [OF acc] seg_def)
  next
    case (Some k)
    then have "c = Some cb" using Mark.prems by (auto simp: stands_for_def collecting_def)
    then show ?thesis using Some Mark.prems(3) by simp
  qed
  have "agrees st data (data ! at ?m) s' a ?m (run_action st data a ?m)
      (ref_action st (data ! at ?m) a (parser ?m) u (Some cb))"
    using Mark.prems sf by (intro Mark.IH) auto
  then have "agrees st data (data ! at m) s' (Mark cb a) m (run_action st data a ?m)
      (ref_action st (data ! at m) a (parser m) u (Some cb))"
    by (auto elim!: agrees_weaken split: if_splits)
  then show ?case by simp
next
  case (Skip n a)
  then show ?case by simp
next
  case (Notify cb er a)
  then have c: "c = None" "u = user m" "\<forall>cb. marks m cb = None" by (simp_all add: stands_for_None)
  show ?case
  proof (cases "notify_of cb st")
    case None
    have "agrees st data (data ! at m) s' a m (run_action st data a m)
        (ref_action st (data ! at m) a (parser m) u None)"
      using Notify.prems c by (intro Notify.IH) auto
    then show ?thesis using None c by (auto elim!: agrees_weaken)
  next
    case (Some f)
    obtain r u1 where r: "f (parser m) (user m) = (r, u1)" by fastforce
    let ?m = "m\<lparr>user := u1\<rparr>"
    show ?thesis
    proof (cases "r = 0")
      case True
      have "agrees st data (data ! at ?m) s' a ?m (run_action st data a ?m)
          (ref_action st (data ! at ?m) a (parser ?m) u1 None)"
        using Notify.prems c by (intro Notify.IH) (auto simp: stands_for_None)
      then show ?thesis using True Some r c Notify.prems by (auto elim!: agrees_weaken)
    next
      case False
      then show ?thesis using Some r c by (cases cb) (auto simp: agrees_def Let_def)
    qed
  qed
next
  case (Data cb l er a)
  then have c: "c = Some cb" and l: "l = 0" by auto
  have mk: "marks_ok m" and col: "collecting (marks m) (Some cb)"
    and u: "u = put st (parser m) cb (pending data m cb) (user m)"
    using Data.prems c by (simp_all add: stands_for_def)
  show ?case
  proof (cases "marks m cb")
    case None
    then have "\<forall>cb. marks m cb = None" using col by (auto simp: collecting_def)
    then have sf: "stands_for st data None m u"
      using u None by (simp add: stands_for_None pending_def put_Nil [OF acc])
    have "agrees st data (data ! at m) s' a m (run_action st data a m)
        (ref_action st (data ! at m) a (parser m) u None)"
      using Data.prems sf by (intro Data.IH) auto
    then show ?thesis using None l by (auto elim!: agrees_weaken)
  next
    case (Some k)
    then have k: "k \<le> at m" using mk by (auto simp: marks_ok_def)
    let ?m = "m\<lparr>user := u, marks := (marks m)(cb := None)\<rparr>"
    have run: "run_action st data (Data cb l er a) m = run_action st data a ?m"
    proof (cases "data_of cb st")
      case None
      then show ?thesis using Some u by (simp add: put_def)
    next
      case f: (Some f)
      have "mem_read data k (at m - k) = Some (pending data m cb)"
        using Some k Data.prems(4) by (simp add: pending_def)
      moreover have "f (parser m) (pending data m cb) (user m) = (0, u)"
        using acc f u unfolding accumulates_def put_def by (metis option.simps(5) prod.collapse)
      ultimately show ?thesis using Some f k l Data.prems(5) by (simp add: Let_def)
    qed
    have "stands_for st data None ?m u"
      using col by (auto simp: stands_for_None collecting_def)
    then have "agrees st data (data ! at ?m) s' a ?m (run_action st data a ?m)
        (ref_action st (data ! at ?m) a (parser ?m) u None)"
      using Data.prems by (intro Data.IH) auto
    then show ?thesis unfolding run using l by (auto elim!: agrees_weaken)
  qed
next
  case (On_Headers_Complete a)
  then have c: "c = None" "u = user m" "\<forall>cb. marks m cb = None" by (simp_all add: stands_for_None)
  show ?case
  proof (cases "on_headers_complete st")
    case None
    have "agrees st data (data ! at m) s' a m (run_action st data a m)
        (ref_action st (data ! at m) a (parser m) u None)"
      using On_Headers_Complete.prems c by (intro On_Headers_Complete.IH) auto
    then show ?thesis using None c On_Headers_Complete.prems by (auto elim!: agrees_weaken simp: Let_def)
  next
    case (Some f)
    obtain r u1 where r: "f (parser m) (user m) = (r, u1)" by fastforce
    let ?p = "if r = 0 then parser m else (parser m)\<lparr>p_flags := p_flags (parser m) OR F_SKIPBODY\<rparr>"
    let ?m = "m\<lparr>user := u1, parser := ?p\<rparr>"
    show ?thesis
    proof (cases "r = 0 \<or> r = 1")
      case True
      have "agrees st data (data ! at ?m) s' a ?m (run_action st data a ?m)
          (ref_action st (data ! at ?m) a (parser ?m) u1 None)"
        using On_Headers_Complete.prems c by (intro On_Headers_Complete.IH) (auto simp: stands_for_None)
      then have "agrees st data (data ! at m) s' (On_Headers_Complete a) m (run_action st data a ?m)
          (ref_action st (data ! at m) a ?p u1 None)"
        by (auto elim!: agrees_weaken)
      then show ?thesis using True Some r c On_Headers_Complete.prems by (auto simp: Let_def)
    next
      case False
      then show ?thesis using Some r c by (auto simp: agrees_def Let_def)
    qed
  qed
qed

end
