(* ===== verification/Http_Equiv.thy ===== *)
theory Http_Equiv
  imports Http_Reference
begin

text \<open>
  \<^verbatim>\<open>http_parser_execute\<close> does on a whole input what the reference does byte by byte.
\<close>

section \<open>The cases without a jump\<close>

lemma response_no_jump:
  assumes "s \<in> {s_dead, s_start_req_or_res, s_res_or_resp_H, s_start_res, s_res_H, s_res_HT,
              s_res_HTT, s_res_HTTP, s_res_first_http_major, s_res_http_major,
              s_res_first_http_minor, s_res_http_minor, s_res_first_status_code,
              s_res_status_code, s_res_status, s_res_line_almost_done}"
  shows "no_jump (snd (exec_state s p ch rest))"
  using assms
  by (elim insertE emptyE;
      simp add: fail_def STRICT_CHECK_def Let_def
        at_s_dead_def at_s_start_req_or_res_def at_s_res_or_resp_H_def
        at_s_start_res_def at_s_res_H_def at_s_res_HT_def at_s_res_HTT_def at_s_res_HTTP_def
        at_s_res_first_http_major_def at_s_res_http_major_def at_s_res_first_http_minor_def
        at_s_res_http_minor_def at_s_res_first_status_code_def at_s_res_status_code_def
        at_s_res_status_def at_s_res_line_almost_done_def)

lemma request_no_jump:
  assumes "s \<in> {s_req_http_start, s_req_http_H, s_req_http_HT, s_req_http_HTT, s_req_http_HTTP,
              s_req_first_http_major, s_req_http_major, s_req_first_http_minor, s_req_http_minor,
              s_req_line_almost_done, s_start_req, s_req_method, s_req_spaces_before_url} \<union> url_states"
  shows "no_jump (snd (exec_state s p ch rest))"
  using assms unfolding url_states_def
  by (elim insertE emptyE UnE;
      simp add: fail_def STRICT_CHECK_def Let_def split_beta url_step_def
        at_s_req_http_start_def at_s_req_http_H_def at_s_req_http_HT_def
        at_s_req_http_HTT_def at_s_req_http_HTTP_def at_s_req_first_http_major_def
        at_s_req_http_major_def at_s_req_first_http_minor_def at_s_req_http_minor_def
        at_s_req_line_almost_done_def at_s_start_req_def at_s_req_method_def
        at_s_req_spaces_before_url_def at_url_schema_def at_url_rest_def
        split: option.splits)

lemma header_no_jump:
  assumes "s \<in> {s_header_field_start, s_header_field, s_header_almost_done, s_header_value_lws,
      s_header_value_start, s_header_value, s_headers_almost_done, s_headers_done, s_message_done,
      s_chunk_data_almost_done, s_chunk_data_done, s_chunk_size_start, s_chunk_size,
      s_chunk_parameters, s_chunk_size_almost_done}"
  shows "no_jump (snd (exec_state s p ch rest))"
  using assms
  by (elim insertE emptyE;
      simp add: fail_def STRICT_CHECK_def Let_def split_beta
        at_s_header_field_start_def at_s_header_field_def
        at_s_header_almost_done_def at_s_header_value_lws_def
        at_s_header_value_start_def header_value_first_def
        at_s_header_value_def header_value_char_def content_length_char_def
        at_s_headers_almost_done_def at_s_headers_done_def at_s_message_done_def
        at_s_chunk_data_almost_done_def at_s_chunk_data_done_def at_s_chunk_size_start_def
        at_s_chunk_size_def at_s_chunk_parameters_def at_s_chunk_size_almost_done_def
        split: hstate.splits)

lemma exec_state_no_jump:
  assumes "s \<notin> body_states"
  shows "no_jump (snd (exec_state s p ch rest))"
  using assms response_no_jump [of s p ch rest] request_no_jump [of s p ch rest]
    header_no_jump [of s p ch rest]
  by (cases s) (simp_all add: body_states_def url_states_def)

lemma exec_state_rest:
  assumes "s \<notin> body_states"
  shows "exec_state s p ch rest = exec_state s p ch 1"
  using assms by (cases s) (simp_all add: body_states_def)

lemma exec_state_body_mark:
  assumes "s \<notin> body_states" and "collects s = Some Body"
  shows "snd (exec_state s p ch rest) = Error \<or> (\<exists>er a'. snd (exec_state s p ch rest) = Data Body 0 er a')"
proof -
  have "s = s_chunk_data_almost_done"
    using assms by (auto simp: body_states_def collects_def split: if_splits)
  then show ?thesis by (simp add: at_s_chunk_data_almost_done_def STRICT_CHECK_def fail_def)
qed

section \<open>One byte\<close>

lemma stands_for_collects:
  assumes "accumulates st" and "collected c s" and "stands_for st data c m u"
  shows "stands_for st data (collects s) m u"
  using assms
  by (auto simp: collected_def stands_for_def collecting_def pending_def)

text \<open>What the concrete parser must do with a byte when the reference answers \<open>ref\<close>.\<close>

definition byte_agrees :: "'u http_parser_settings \<Rightarrow> byte list \<Rightarrow> 'u exec_st \<Rightarrow>
    (outcome \<times> 'u exec_st) option \<Rightarrow> 'u ref_st option \<Rightarrow> bool" where
  "byte_agrees st data m conc ref \<longleftrightarrow>
     (case ref of
        None \<Rightarrow> (\<exists>out m1. conc = Some (out, m1) \<and>
          (out = Goto_Error
           \<or> (\<exists>r. out = Stop r \<and> (http_errno (parser m1) \<noteq> HPE_OK \<or> upgrade (parser m1)))))
      | Some (p2, u2) \<Rightarrow>
          (\<exists>m1 c. conc = Some (Next_Byte, m1) \<and> at m1 = at m \<and> parser m1 = p2
             \<and> http_errno p2 = HPE_OK \<and> hp_wf p2 \<and> \<not> upgrade p2 \<and> collected c (p_state p2)
             \<and> stands_for st data c (m1\<lparr>at := at m + 1\<rparr>) u2))"

lemma exec_byte_agrees:
  assumes acc: "accumulates st" and "hp_wf (parser m)" and "http_errno (parser m) = HPE_OK"
    and "upgrade_ok (parser m)" and "stands_for st data c m u" and "collected c (p_state (parser m))"
    and "p_state (parser m) \<notin> body_states" and "at m < length data" and "length data < 2 ^ 32"
    and "reexec_rank (p_state (parser m)) < k"
  shows "byte_agrees st data m (exec_byte k st data (data ! at m) m) (ref_exec k st (data ! at m) (parser m, u))"
  using assms(2-)
proof (induction k arbitrary: m u c)
  case 0
  then show ?case by simp
next
  case (Suc k)
  let ?p = "parser m" and ?ch = "data ! at m"
  obtain p1 a where pa: "exec_state (p_state ?p) ?p ?ch 1 = (p1, a)" by fastforce
  then have pa': "exec_state (p_state ?p) ?p ?ch (length data - at m) = (p1, a)"
    using exec_state_rest [OF Suc.prems(6)] by metis
  have ok: "case_ok 1 ?p (p1, a)"
    using exec_state_ok [of ?p 1 ?ch] Suc.prems pa by auto
  let ?m = "m\<lparr>parser := p1\<rparr>"
  have nj: "no_jump a" using exec_state_no_jump [OF Suc.prems(6), of ?p ?ch 1] pa by simp
  have sf: "stands_for st data (collects (p_state ?p)) ?m u"
    using stands_for_collects [OF acc Suc.prems(5,4)] put_any [OF acc, of p1 _ _ _ ?p]
    by (auto simp: stands_for_def pending_def marks_ok_def split: option.splits)
  show ?case
  proof (cases "ending a = Error")
    case True
    then have "a = Error \<or> a = Mark Url Error \<or> a = Mark Header_Value Error"
      using ok by (simp add: case_ok_def)
    then show ?thesis using pa pa' by (auto simp: byte_agrees_def)
  next
    case False
    then have e: "http_errno p1 = HPE_OK" "hp_wf p1"
      using ok Suc.prems(2) by (simp_all add: case_ok_def)
    have ag: "agrees st data ?ch (p_state p1) a ?m (run_action st data a ?m)
        (ref_action st ?ch a p1 u (collects (p_state ?p)))"
      using ref_action_agrees [OF acc nj _ sf, of "p_state p1"] ok Suc.prems(7) e
        exec_state_body_mark [OF Suc.prems(6), of ?p ?ch 1] pa
      by (auto simp: case_ok_def)
    have ref: "ref_exec (Suc k) st ?ch (?p, u) = (case ref_action st ?ch a p1 u (collects (p_state ?p)) of
        None \<Rightarrow> None
      | Some (again, p2, u2) \<Rightarrow> if again then ref_exec k st ?ch (p2, u2) else Some (p2, u2))"
      using pa by (simp split: option.splits prod.splits)
    show ?thesis
    proof (cases "ref_action st ?ch a p1 u (collects (p_state ?p))")
      case None
      then obtain out m1 where "run_action st data a ?m = Some (out, m1)"
        "out = Goto_Error \<or> (\<exists>r. out = Stop r \<and> (http_errno (parser m1) \<noteq> HPE_OK
            \<or> ending a = Return_Next \<and> upgrade (parser m1) = upgrade p1))"
        using ag by (auto simp: agrees_def)
      moreover have "ending a = Return_Next \<Longrightarrow> upgrade p1" using ok by (simp add: case_ok_def)
      ultimately show ?thesis
        unfolding ref using None pa' by (auto simp: byte_agrees_def)
    next
      case (Some t)
      obtain again p2 u2 where t: "t = (again, p2, u2)" by (cases t)
      obtain m1 c' where run: "run_action st data a ?m = Some (if again then Again else Next_Byte, m1)"
        and m1: "at m1 = at m" "parser m1 = p2" "http_errno p2 = HPE_OK" "collected c' (p_state p1)"
          "p_state p2 = p_state p1" "upgrade p2 = upgrade p1"
        and sf1: "if again then stands_for st data c' m1 u2
            else stands_for st data c' (m1\<lparr>at := at m + 1\<rparr>) u2"
        using ag Some t by (auto simp: agrees_def split: if_splits)
      have "marks_ok ?m" using Suc.prems(4) by (simp add: stands_for_def marks_ok_def)
      then have res: "action_result data a ?m (if again then Again else Next_Byte) m1"
        using run_action_ok [of "length data - at m" a ?m data st] run Suc.prems(7)
          exec_state_ok [of ?p "length data - at m" ?ch] Suc.prems(1,8) pa'
        by (auto simp: case_ok_def)
      have wf: "hp_wf p2"
        using res e(2) m1(2) by (auto simp: action_result_def hp_wf_flags_errno)
      show ?thesis
      proof (cases again)
        case True
        then have en: "ending a = Reexecute" using res by (simp add: action_result_def outcome_of_def)
        then have "reexec_rank (p_state p2) < k" "p_state p2 \<notin> body_states" "upgrade_ok p2"
          using ok m1 Suc.prems(3,9) by (auto simp: case_ok_def upgrade_ok_def)
        then have "byte_agrees st data m1 (exec_byte k st data (data ! at m1) m1)
            (ref_exec k st (data ! at m1) (parser m1, u2))"
          using m1 wf sf1 True Suc.prems(7,8) by (intro Suc.IH [of _ c']) auto
        then show ?thesis
          unfolding ref using True run Some t pa' m1
          by (auto simp: byte_agrees_def split: option.splits)
      next
        case False
        then have "ending a = Break" using res by (simp add: action_result_def outcome_of_def)
        then have "\<not> upgrade p2" using ok m1 Suc.prems(3) by (simp add: case_ok_def)
        then show ?thesis
          unfolding ref using False run Some t pa' m1 sf1 wf by (auto simp: byte_agrees_def)
      qed
    qed
  qed
qed


section \<open>Bodies\<close>

lemma not_up_to_body: "s \<in> body_states \<Longrightarrow> \<not> up_to_headers_done s"
  by (auto simp: body_states_def up_to_headers_done_def)

lemma count_byte_body: "p_state p \<in> body_states \<Longrightarrow> count_byte p = p \<and> \<not> header_overflow p"
  using not_up_to_body [of "p_state p"] by (simp add: count_byte_def header_overflow_def)

text \<open>The reference when the last byte of a body has been taken.\<close>

definition ref_body_end :: "'u http_parser_settings \<Rightarrow> http_parser \<Rightarrow> 'u \<Rightarrow> 'u ref_st option" where
  "ref_body_end st p u =
     (case p_state p of
        s_body_identity \<Rightarrow> ref_exec 3 st NUL (p\<lparr>content_length := 0, p_state := s_message_done\<rparr>, u)
      | _ \<Rightarrow> Some (p\<lparr>content_length := 0, p_state := s_chunk_data_almost_done\<rparr>, u))"

lemma ref_exec_message_done:
  "p_state p = s_message_done \<Longrightarrow> ref_exec (Suc k) st ch (p, u) = ref_exec (Suc k) st ch' (p, u)"
proof -
  assume s: "p_state p = s_message_done"
  have "collects s_message_done = None" by (simp add: collects_def url_states_def)
  with s show ?thesis
    by (auto simp: at_s_message_done_def put_opt_def Let_def split_beta split: option.splits)
qed

lemma ref_exec_4:
  "ref_exec 4 st ch (p, u) = (let (p1, a) = exec_state (p_state p) p ch 1 in
     (case ref_action st ch a p1 u (collects (p_state p)) of
        None \<Rightarrow> None
      | Some (again, p2, u2) \<Rightarrow> if again then ref_exec 3 st ch (p2, u2) else Some (p2, u2)))"
proof -
  have "(4 :: nat) = Suc 3" by simp
  then show ?thesis
    by (simp only: ref_exec.simps) (simp add: split_beta Let_def split: option.splits)
qed

lemma min_1: "(c :: u32) \<noteq> 0 \<Longrightarrow> min c 1 = 1"
  by (simp add: min_def) (metis word_le_less_eq word_less_1)

lemma exec_body_identity_one:
  assumes "content_length p \<noteq> 0"
  shows "exec_state s_body_identity p ch 1 =
      (if content_length p = 1
       then (p\<lparr>content_length := 0, p_state := s_message_done\<rparr>, Mark Body (Skip 1 (Data Body 1 0 Reexecute)))
       else (p\<lparr>content_length := content_length p - 1\<rparr>, Mark Body (Skip 1 Break)))"
  by (simp only: exec_state.simps at_s_body_identity_def Let_def of_nat_1 min_1 [OF assms] unat_1)
    (cases "content_length p = 1"; simp)

lemma exec_chunk_data_one:
  assumes "content_length p \<noteq> 0"
  shows "exec_state s_chunk_data p ch 1 =
      (if content_length p = 1
       then (p\<lparr>content_length := 0, p_state := s_chunk_data_almost_done\<rparr>, Mark Body (Skip 1 Break))
       else (p\<lparr>content_length := content_length p - 1\<rparr>, Mark Body (Skip 1 Break)))"
  by (simp only: exec_state.simps at_s_chunk_data_def Let_def of_nat_1 min_1 [OF assms] unat_1)
    (cases "content_length p = 1"; simp)

lemmas exec_body_one = exec_body_identity_one exec_chunk_data_one

lemma ref_byte_body:
  assumes acc: "accumulates st"
    and s: "p_state p = s_body_identity \<or> p_state p = s_chunk_data" and c: "content_length p \<noteq> 0"
  shows "ref_byte st ch (p, u) =
     (if content_length p = 1 then ref_body_end st p (put st q Body [ch] u)
      else Some (p\<lparr>content_length := content_length p - 1\<rparr>, put st q Body [ch] u))"
proof -
  have b: "p_state p \<in> body_states" using s by (auto simp: body_states_def)
  have "count_byte p = p" "\<not> header_overflow p" using count_byte_body [OF b] by simp_all
  then have rb: "ref_byte st ch (p, u) = ref_exec 4 st ch (p, u)" by (simp add: ref_byte_def)
  define v where "v = put st q Body [ch] u"
  have pq: "put st r Body [ch] u = v" for r unfolding v_def by (rule put_any [OF acc])
  have k3: "(3 :: nat) = Suc 2" by simp
  show ?thesis
  proof (cases "p_state p = s_body_identity")
    case True
    have "ref_exec 3 st ch (r, w) = ref_exec 3 st NUL (r, w)" if "p_state r = s_message_done" for r w
      unfolding k3 using that by (rule ref_exec_message_done)
    with True show ?thesis
      unfolding rb ref_exec_4 by (simp add: exec_body_one [OF c] ref_body_end_def put_opt_def pq
          del: exec_state.simps ref_exec.simps One_nat_def)
  next
    case False
    with s show ?thesis
      unfolding rb ref_exec_4 by (simp add: exec_body_one [OF c] ref_body_end_def put_opt_def pq
          del: exec_state.simps ref_exec.simps One_nat_def)
  qed
qed

text \<open>The reference on several bytes of a body.\<close>

lemma ref_run_body:
  assumes acc: "accumulates st"
    and "p_state p = s_body_identity \<or> p_state p = s_chunk_data"
    and "bs \<noteq> []" "length bs \<le> unat (content_length p)"
  shows "ref_run st bs (p, u) =
     (if length bs = unat (content_length p) then ref_body_end st p (put st q Body bs u)
      else Some (p\<lparr>content_length := content_length p - word_of_nat (length bs)\<rparr>, put st q Body bs u))"
  using assms(2-)
proof (induction bs arbitrary: p u)
  case Nil
  then show ?case by simp
next
  case (Cons ch bs)
  let ?c = "content_length p"
  have c: "?c \<noteq> 0" using Cons.prems(3) by auto
  have one: "?c = 1 \<longleftrightarrow> unat ?c = 1" by (metis unat_1 word_unat_eq_iff)
  have app: "put st q Body bs (put st q Body [ch] u) = put st q Body (ch # bs) u"
    using put_append [OF acc, of q Body "[ch]" bs u] by simp
  show ?case
  proof (cases "bs = []")
    case True
    then show ?thesis
      using ref_byte_body [OF acc Cons.prems(1) c, of ch u q] one
      by (cases "ref_body_end st p (put st q Body [ch] u)") auto
  next
    case False
    then have n1: "?c \<noteq> 1" using Cons.prems(3) one by (cases bs) auto
    let ?p = "p\<lparr>content_length := ?c - 1\<rparr>"
    have u1: "unat (?c - 1) = unat ?c - 1" using c by (simp add: unat_minus_one)
    have "ref_run st bs (?p, put st q Body [ch] u) =
       (if length bs = unat (content_length ?p) then ref_body_end st ?p (put st q Body bs (put st q Body [ch] u))
        else Some (?p\<lparr>content_length := content_length ?p - word_of_nat (length bs)\<rparr>,
                   put st q Body bs (put st q Body [ch] u)))"
      using Cons.prems False u1 by (intro Cons.IH) auto
    moreover have "ref_body_end st ?p v = ref_body_end st p v" for v
      using Cons.prems(1) by (auto simp: ref_body_end_def)
    ultimately show ?thesis
      using ref_byte_body [OF acc Cons.prems(1) c, of ch u q] n1 u1 app c Cons.prems(3)
      by (auto simp: diff_diff_add)
  qed
qed

lemma ref_run_body_eof:
  assumes acc: "accumulates st" and "p_state p = s_body_identity_eof"
  shows "ref_run st bs (p, u) = Some (p, put st q Body bs u)"
  using assms(2)
proof (induction bs arbitrary: u)
  case (Cons ch bs)
  have b: "p_state p \<in> body_states" using assms(2) by (simp add: body_states_def)
  have "count_byte p = p" "\<not> header_overflow p" using count_byte_body [OF b] by simp_all
  then have "ref_byte st ch (p, u) = Some (p, put st p Body [ch] u)"
    using assms(2) by (simp add: ref_byte_def ref_exec_4 at_s_body_identity_eof_def put_opt_def
        del: ref_exec.simps)
  then show ?case
    using Cons put_append [OF acc, of q Body "[ch]" bs u] put_any [OF acc, of p Body "[ch]" u q] by simp
qed (simp add: acc)


section \<open>The jumps over bodies\<close>

lemma mark_body:
  assumes acc: "accumulates st" and sf: "stands_for st data c m u" and "collected c s" and "s \<in> body_states"
  shows "\<exists>k mk. k \<le> at m \<and> mk = (\<lambda>_. None)(Body := Some k)
      \<and> (if marks m Body = None then m\<lparr>marks := (marks m)(Body := Some (at m))\<rparr> else m) = m\<lparr>marks := mk\<rparr>
      \<and> u = put st q Body (seg data k (at m - k)) (user m)"
proof -
  have "collects s = Some Body" using assms(4) by (auto simp: body_states_def collects_def url_states_def)
  then have "stands_for st data (Some Body) m u" using stands_for_collects [OF acc assms(3) sf] by simp
  then have col: "collecting (marks m) (Some Body)" and ok: "marks_ok m"
    and u: "u = put st (parser m) Body (pending data m Body) (user m)"
    by (simp_all add: stands_for_def)
  have others: "marks m cb = None" if "cb \<noteq> Body" for cb
    using col that by (auto simp: collecting_def)
  show ?thesis
  proof (cases "marks m Body")
    case None
    have "marks m = (\<lambda>_. None)" using others None by (metis (mono_tags))
    then show ?thesis using None u acc by (auto simp: pending_def seg_def)
  next
    case (Some k)
    have mk: "marks m = (\<lambda>_. None)(Body := Some k)" using others Some by auto
    have "m = m\<lparr>marks := marks m\<rparr>" by simp
    then show ?thesis
      using Some u ok mk put_any [OF acc, of "parser m" Body _ _ q]
      by (intro exI [of _ k] exI [of _ "(\<lambda>_. None)(Body := Some k)"])
        (auto simp: pending_def marks_ok_def)
  qed
qed

lemma stands_for_jump:
  assumes acc: "accumulates st" and "k \<le> i" and "u = put st q Body (seg data k (i - k)) v"
  shows "stands_for st data (Some Body)
      \<lparr>parser = p, at = i + n, marks = (\<lambda>_. None)(Body := Some k), user = v\<rparr>
      (put st q Body (seg data i n) u)"
proof -
  have "seg data k (i - k) @ seg data i n = seg data k (i + n - k)"
    using seg_append_seg [of data k "i - k" n] assms(2) by simp
  then have "put st q Body (seg data i n) u = put st q Body (seg data k (i + n - k)) v"
    using put_append [OF acc, of q Body "seg data k (i - k)" "seg data i n" v] assms(3) by simp
  then show ?thesis
    using assms(2) put_any [OF acc, of q Body _ _ p]
    by (simp add: stands_for_def collecting_def marks_ok_def pending_def)
qed

lemma exec_byte_4:
  assumes "exec_state (p_state (parser m)) (parser m) ch (length data - at m) = (p1, a)"
    and "run_action st data a (m\<lparr>parser := p1\<rparr>) = Some (out, m1)"
  shows "exec_byte 4 st data ch m = (if out = Again then exec_byte 3 st data ch m1 else Some (out, m1))"
proof -
  have "(4 :: nat) = Suc 3" by simp
  then show ?thesis using assms by (simp only: exec_byte.simps) simp
qed

text \<open>
  One round of the loop on the bytes of a body that are at hand: they are all taken, and the
  message is done if it was all of it.
\<close>

lemma exec_body_jump:
  assumes acc: "accumulates st" and sf: "stands_for st data c m u" and col: "collected c (p_state p)"
    and p: "parser m = p" and s: "p_state p = s_body_identity \<or> p_state p = s_chunk_data"
    and c: "content_length p \<noteq> 0" and len: "at m < length data" "length data < 2 ^ 32"
    and n: "n = min (unat (content_length p)) (length data - at m)"
    and e: "http_errno p = HPE_OK"
  shows "\<exists>m1. at m1 + 1 = at m + n \<and>
     (if n < unat (content_length p)
      then exec_byte 4 st data ch m = Some (Next_Byte, m1)
         \<and> parser m1 = p\<lparr>content_length := content_length p - word_of_nat n\<rparr>
         \<and> stands_for st data (Some Body) (m1\<lparr>at := at m1 + 1\<rparr>) (put st q Body (seg data (at m) n) u)
      else if p_state p = s_chunk_data
      then exec_byte 4 st data ch m = Some (Next_Byte, m1)
         \<and> parser m1 = p\<lparr>content_length := 0, p_state := s_chunk_data_almost_done\<rparr>
         \<and> stands_for st data (Some Body) (m1\<lparr>at := at m1 + 1\<rparr>) (put st q Body (seg data (at m) n) u)
      else exec_byte 4 st data ch m = exec_byte 3 st data ch m1
         \<and> parser m1 = p\<lparr>content_length := 0, p_state := s_message_done\<rparr>
         \<and> stands_for st data None m1 (put st q Body (seg data (at m) n) u))"
proof -
  let ?c = "content_length p" and ?rest = "length data - at m"
  let ?r = "min ?c (word_of_nat ?rest)"
  have tr: "unat ?r = n" "unat (?c - ?r) = unat ?c - ?rest"
    using to_read [OF c, of ?rest] len n by auto
  have r: "?r = word_of_nat n" using tr(1) by (metis unat_u32_of_nat unat_u32_less word_unat_eq_iff)
  have n0: "0 < n" using n c len by (auto simp: unat_gt_0)
  have b: "p_state p \<in> body_states" using s by (auto simp: body_states_def)
  obtain k mk where k: "k \<le> at m" "mk = (\<lambda>_. None)(Body := Some k)"
    and mm: "(if marks m Body = None then m\<lparr>marks := (marks m)(Body := Some (at m))\<rparr> else m) = m\<lparr>marks := mk\<rparr>"
    and u: "u = put st q Body (seg data k (at m - k)) (user m)"
    using mark_body [OF acc sf col b, of q] by blast
  have mm': "(if marks m Body = None then m\<lparr>parser := p1, marks := (marks m)(Body := Some (at m))\<rparr>
      else m\<lparr>parser := p1\<rparr>) = m\<lparr>parser := p1, marks := mk\<rparr>" for p1
    using mm by (cases m) (auto split: if_splits)
  let ?m = "\<lambda>p1. \<lparr>parser = p1, at = at m + n - 1, marks = mk, user = user m\<rparr>"
  have jump: "run_action st data (Mark Body (Skip n a)) (m\<lparr>parser := p1\<rparr>) = run_action st data a (?m p1)" for p1 a
    using mm' [of p1] n0 by (cases m) (auto split: if_splits)
  have sfj: "stands_for st data (Some Body) ((?m p1)\<lparr>at := at (?m p1) + 1\<rparr>) (put st q Body (seg data (at m) n) u)" for p1
    using stands_for_jump [OF acc k(1) u, of p1 n] n0 k(2) by simp
  have z: "?c - ?r = 0 \<longleftrightarrow> n = unat ?c"
    using tr n by (metis diff_is_0_eq min.cobounded1 min.absorb_iff1 min_def unat_0 unat_eq_zero word_unat_eq_iff)
  show ?thesis
  proof (cases "n < unat ?c")
    case True
    let ?p1 = "p\<lparr>content_length := ?c - word_of_nat n\<rparr>"
    have "exec_state (p_state p) p ch ?rest = (?p1, Mark Body (Skip n Break))"
      using s z True tr(1) r
      by (auto simp: at_s_body_identity_def at_s_chunk_data_def Let_def)
    then have "exec_byte 4 st data ch m = Some (Next_Byte, ?m ?p1)"
      using exec_byte_4 [of m ch data ?p1 "Mark Body (Skip n Break)" st Next_Byte "?m ?p1"] p jump by simp
    then show ?thesis using True sfj n0 by (intro exI [of _ "?m ?p1"]) auto
  next
    case False
    then have nc: "n = unat ?c" using n by simp
    then have rc: "?c - ?r = 0" using z by simp
    show ?thesis
    proof (cases "p_state p = s_chunk_data")
      case True
      let ?p1 = "p\<lparr>content_length := 0, p_state := s_chunk_data_almost_done\<rparr>"
      have "exec_state (p_state p) p ch ?rest = (?p1, Mark Body (Skip n Break))"
        using True rc tr(1) by (simp add: at_s_chunk_data_def Let_def)
      then have "exec_byte 4 st data ch m = Some (Next_Byte, ?m ?p1)"
        using exec_byte_4 [of m ch data ?p1 "Mark Body (Skip n Break)" st Next_Byte "?m ?p1"] p jump by simp
      then show ?thesis using True False sfj n0 by (intro exI [of _ "?m ?p1"]) auto
    next
      case not_chunk: False
      let ?p1 = "p\<lparr>content_length := 0, p_state := s_message_done\<rparr>"
      let ?a = "Mark Body (Skip n (Data Body 1 0 Reexecute))"
      let ?v = "put st q Body (seg data (at m) n) u"
      let ?m1 = "\<lparr>parser = ?p1, at = at m + n - 1, marks = (\<lambda>_. None), user = ?v\<rparr>"
      have ex: "exec_state (p_state p) p ch ?rest = (?p1, ?a)"
        using not_chunk s rc tr(1) by (simp add: at_s_body_identity_def Let_def)
      have v: "?v = put st ?p1 Body (seg data k (at m + n - k)) (user m)"
        using sfj [of ?p1] n0 k(2) by (simp add: stands_for_def pending_def)
      have "run_action st data (Data Body 1 0 Reexecute) (?m ?p1) = Some (Again, ?m1)"
      proof (cases "on_body st")
        case None
        then show ?thesis using k(2) v by (simp add: put_def)
      next
        case (Some f)
        have "mem_read data k (at m + n - k) = Some (seg data k (at m + n - k))"
          using k(1) n len by (intro mem_read_Some) auto
        moreover have "f ?p1 (seg data k (at m + n - k)) (user m) = (0, ?v)"
        proof -
          have "fst (f ?p1 (seg data k (at m + n - k)) (user m)) = 0"
            using acc Some unfolding accumulates_def by (metis data_of.simps(4))
          then show ?thesis using v Some by (simp add: put_def prod_eq_iff)
        qed
        ultimately show ?thesis using Some k n0 e by (simp add: Let_def)
      qed
      then have "exec_byte 4 st data ch m = exec_byte 3 st data ch ?m1"
        using exec_byte_4 [of m ch data ?p1 ?a st Again ?m1] ex p jump by simp
      then show ?thesis
        using not_chunk False n0 by (intro exI [of _ ?m1]) (auto simp: stands_for_None)
    qed
  qed
qed

lemma exec_body_eof_jump:
  assumes acc: "accumulates st" and sf: "stands_for st data c m u" and col: "collected c (p_state p)"
    and p: "parser m = p" and s: "p_state p = s_body_identity_eof" and len: "at m < length data"
  shows "\<exists>m1. at m1 + 1 = length data \<and> exec_byte 4 st data ch m = Some (Next_Byte, m1) \<and> parser m1 = p
      \<and> stands_for st data (Some Body) (m1\<lparr>at := at m1 + 1\<rparr>) (put st q Body (drop (at m) data) u)"
proof -
  let ?n = "length data - at m"
  have b: "p_state p \<in> body_states" using s by (auto simp: body_states_def)
  obtain k mk where k: "k \<le> at m" "mk = (\<lambda>_. None)(Body := Some k)"
    and mm: "(if marks m Body = None then m\<lparr>marks := (marks m)(Body := Some (at m))\<rparr> else m) = m\<lparr>marks := mk\<rparr>"
    and u: "u = put st q Body (seg data k (at m - k)) (user m)"
    using mark_body [OF acc sf col b, of q] by blast
  let ?m = "\<lparr>parser = p, at = length data - 1, marks = mk, user = user m\<rparr>"
  have "run_action st data (Mark Body (Skip ?n Break)) (m\<lparr>parser := p\<rparr>) = Some (Next_Byte, ?m)"
    using mm p len by (cases m) (auto split: if_splits)
  then have "exec_byte 4 st data ch m = Some (Next_Byte, ?m)"
    using exec_byte_4 [of m ch data p "Mark Body (Skip ?n Break)" st Next_Byte ?m] p s
    by (simp add: at_s_body_identity_eof_def)
  moreover have "stands_for st data (Some Body) (?m\<lparr>at := at ?m + 1\<rparr>) (put st q Body (drop (at m) data) u)"
    using stands_for_jump [OF acc k(1) u, of p ?n] k(2) len
    by (simp add: seg_def Suc_diff_Suc [symmetric] Suc_pred)
  ultimately show ?thesis using len by (intro exI [of _ ?m]) auto
qed


section \<open>The whole input\<close>

lemma exec_byte_message_done:
  "p_state (parser m) = s_message_done \<Longrightarrow>
    exec_byte (Suc k) st data ch m = exec_byte (Suc k) st data ch' m"
  by (auto simp: at_s_message_done_def Let_def split_beta split: option.splits)

lemma exec_finish_flushes:
  assumes acc: "accumulates st" and at: "at m = length data" and sf: "stands_for st data c m u"
    and e: "http_errno (parser m) = HPE_OK"
  shows "\<exists>m1. exec_finish st data m = Some (length data, m1) \<and> parser m1 = parser m \<and> user m1 = u"
proof (cases "\<forall>cb. marks m cb = None")
  case True
  then have "u = user m"
    using sf by (cases c) (auto simp: stands_for_def pending_def acc)
  then show ?thesis using True by (simp add: exec_finish_def)
next
  case False
  then obtain cb k where k: "marks m cb = Some k" by auto
  have col: "collecting (marks m) c" and ok: "marks_ok m" using sf by (simp_all add: stands_for_def)
  have c: "c = Some cb" using col k unfolding collecting_def by auto
  have others: "marks m cb' = None" if "cb' \<noteq> cb" for cb'
    using col c that unfolding collecting_def by (metis option.inject)
  have le: "k \<le> at m" using ok k by (simp add: marks_ok_def)
  have u: "u = put st (parser m) cb (pending data m cb) (user m)"
    using sf c by (simp add: stands_for_def)
  have pend: "pending data m cb = seg data k (length data - k)" using k at by (simp add: pending_def)
  have "run_action st data (Data cb 0 0 a) m = run_action st data a (m\<lparr>user := u, marks := (marks m)(cb := None)\<rparr>)" for a
  proof (cases "data_of cb st")
    case None
    then show ?thesis using k u by (simp add: put_def)
  next
    case (Some f)
    have "mem_read data k (length data - k) = Some (pending data m cb)"
      using le at pend by simp
    moreover have "f (parser m) (pending data m cb) (user m) = (0, u)"
      using acc Some u unfolding accumulates_def put_def by (metis option.simps(5) prod.collapse)
    ultimately show ?thesis using Some k le at e by (simp add: Let_def)
  qed
  note run = this
  have "marks m = (\<lambda>_. None)(cb := Some k)" using others k by auto
  then show ?thesis
    using run by (cases cb) (simp_all add: exec_finish_def)
qed

definition loop_agrees :: "byte list \<Rightarrow> (nat \<times> 'u exec_st) option \<Rightarrow> 'u ref_st option \<Rightarrow> bool" where
  "loop_agrees data conc ref \<longleftrightarrow>
     (case ref of
        None \<Rightarrow> (\<exists>r m1. conc = Some (r, m1) \<and> (http_errno (parser m1) \<noteq> HPE_OK \<or> upgrade (parser m1)))
      | Some (p2, u2) \<Rightarrow>
          (\<exists>m1. conc = Some (length data, m1) \<and> parser m1 = p2 \<and> user m1 = u2
             \<and> http_errno p2 = HPE_OK \<and> \<not> upgrade p2 \<and> hp_wf p2))"

lemma loop_after_byte:
  assumes "byte_agrees st data m conc ref" and "conc = exec_byte 4 st data (data ! i) m0"
    and "at m0 = i" "i < length data" and "\<not> header_overflow (count_byte p)"
    and "m0 = m'\<lparr>parser := count_byte p\<rparr>" "parser m' = p"
    and "\<And>m1 c u2. at m1 = at m + 1 \<Longrightarrow> http_errno (parser m1) = HPE_OK \<Longrightarrow> hp_wf (parser m1) \<Longrightarrow>
       \<not> upgrade (parser m1) \<Longrightarrow> collected c (p_state (parser m1)) \<Longrightarrow> stands_for st data c m1 u2 \<Longrightarrow>
       loop_agrees data (exec_loop fuel st data m1) (ref_run st (drop (at m + 1) data) (parser m1, u2))"
  shows "loop_agrees data (exec_loop (Suc fuel) st data m')
     (do { s \<leftarrow> ref; ref_run st (drop (at m + 1) data) s })"
proof -
  have i: "at m' = i" using assms(3,6) by simp
  have loop: "exec_loop (Suc fuel) st data m' =
      (case conc of None \<Rightarrow> None
       | Some (out, m1) \<Rightarrow>
          (case out of Stop r \<Rightarrow> Some (r, m1) | Goto_Error \<Rightarrow> Some (exec_error m1)
           | _ \<Rightarrow> exec_loop fuel st data (m1\<lparr>at := at m1 + 1\<rparr>)))"
    using assms(2,4,5,6,7) i by (simp add: Let_def split: option.splits outcome.splits)
  show ?thesis
  proof (cases ref)
    case None
    then show ?thesis
      using assms(1) exec_error_errno unfolding loop
      by (auto simp: byte_agrees_def loop_agrees_def exec_error_def)
  next
    case (Some s)
    obtain p2 u2 where s: "s = (p2, u2)" by (cases s)
    obtain m1 c where m1: "conc = Some (Next_Byte, m1)" "at m1 = at m" "parser m1 = p2"
        "http_errno p2 = HPE_OK" "hp_wf p2" "\<not> upgrade p2" "collected c (p_state p2)"
        "stands_for st data c (m1\<lparr>at := at m + 1\<rparr>) u2"
      using assms(1) Some s by (auto simp: byte_agrees_def)
    have "loop_agrees data (exec_loop fuel st data (m1\<lparr>at := at m + 1\<rparr>))
        (ref_run st (drop (at m + 1) data) (parser (m1\<lparr>at := at m + 1\<rparr>), u2))"
      by (rule assms(8)) (use m1 in auto)
    then show ?thesis using loop Some s m1 by simp
  qed
qed


lemma ref_run_split_at:
  assumes "i + n \<le> length data"
  shows "ref_run st (drop i data) s = do { s1 \<leftarrow> ref_run st (seg data i n) s; ref_run st (drop (i + n) data) s1 }"
proof -
  have "drop i data = seg data i n @ drop (i + n) data"
    by (simp add: seg_def add.commute [of i] flip: drop_drop)
  then show ?thesis by (metis ref_run_append)
qed

lemma ref_run_one:
  assumes "i < length data"
  shows "ref_run st (drop i data) s = do { s1 \<leftarrow> ref_byte st (data ! i) s; ref_run st (drop (i + 1) data) s1 }"
  using assms by (simp flip: Cons_nth_drop_Suc)

text \<open>A round of the loop in a body, given the rest of the loop.\<close>

lemma loop_body_agrees:
  fixes m :: "'u exec_st" and st :: "'u http_parser_settings"
  assumes acc: "accumulates st" and wf: "hp_wf p" and e: "http_errno p = HPE_OK" and up: "\<not> upgrade p"
    and p: "parser m = p" and s: "p_state p = s_body_identity \<or> p_state p = s_chunk_data"
    and col: "collected c (p_state p)" and sf: "stands_for st data c m u"
    and lt: "at m < length data" and len: "length data < 2 ^ 32"
    and IH: "\<And>i m1 c u2. at m1 = i \<Longrightarrow> at m < i \<Longrightarrow> i \<le> length data \<Longrightarrow> http_errno (parser m1) = HPE_OK \<Longrightarrow>
      hp_wf (parser m1) \<Longrightarrow> \<not> upgrade (parser m1) \<Longrightarrow> collected c (p_state (parser m1)) \<Longrightarrow>
      stands_for st data c m1 u2 \<Longrightarrow>
      loop_agrees data (exec_loop fuel st data m1) (ref_run st (drop i data) (parser m1, u2))"
  shows "loop_agrees data (exec_loop (Suc fuel) st data m) (ref_run st (drop (at m) data) (p, u))"
proof -
  have body: "p_state p \<in> body_states" using s by (auto simp: body_states_def)
  have cb: "count_byte p = p" "\<not> header_overflow p" using count_byte_body [OF body] by simp_all
  have mp: "m\<lparr>parser := p\<rparr> = m" using p by auto
  then have m0: "m\<lparr>parser := count_byte p\<rparr> = m" using cb by simp
  have c0: "content_length p \<noteq> 0" using wf s by (auto simp: hp_wf_def)
  define n where "n = min (unat (content_length p)) (length data - at m)"
  have n: "0 < n" "at m + n \<le> length data" "n \<le> unat (content_length p)"
    using c0 lt by (auto simp: n_def unat_gt_0)
  let ?ch = "data ! at m" and ?bs = "seg data (at m) n" and ?u = "put st p Body (seg data (at m) n) u"
  have bs: "?bs \<noteq> []" "length ?bs = n" using n by (auto simp: seg_def)
  have ref: "ref_run st (drop (at m) data) (p, u) = do {
      s1 \<leftarrow> (if n = unat (content_length p) then ref_body_end st p ?u
            else Some (p\<lparr>content_length := content_length p - word_of_nat n\<rparr>, ?u));
      ref_run st (drop (at m + n) data) s1 }"
    using ref_run_split_at [OF n(2), of st "(p, u)"] ref_run_body [OF acc s bs(1), of u p] bs(2) n(3) by simp
  obtain m1 where m1: "at m1 + 1 = at m + n" and jump:
    "if n < unat (content_length p)
     then exec_byte 4 st data ?ch m = Some (Next_Byte, m1)
       \<and> parser m1 = p\<lparr>content_length := content_length p - word_of_nat n\<rparr>
       \<and> stands_for st data (Some Body) (m1\<lparr>at := at m1 + 1\<rparr>) ?u
     else if p_state p = s_chunk_data
     then exec_byte 4 st data ?ch m = Some (Next_Byte, m1)
       \<and> parser m1 = p\<lparr>content_length := 0, p_state := s_chunk_data_almost_done\<rparr>
       \<and> stands_for st data (Some Body) (m1\<lparr>at := at m1 + 1\<rparr>) ?u
     else exec_byte 4 st data ?ch m = exec_byte 3 st data ?ch m1
       \<and> parser m1 = p\<lparr>content_length := 0, p_state := s_message_done\<rparr>
       \<and> stands_for st data None m1 ?u"
    using exec_body_jump [OF acc sf col p s c0 lt len n_def e, of ?ch p] by blast
  have next_round: "loop_agrees data (exec_loop (Suc fuel) st data m)
      (ref_run st (drop (at m + n) data) (parser m1, ?u))"
    if "exec_byte 4 st data ?ch m = Some (Next_Byte, m1)"
      and "stands_for st data (Some Body) (m1\<lparr>at := at m1 + 1\<rparr>) ?u"
      and "hp_wf (parser m1)" "http_errno (parser m1) = HPE_OK" "\<not> upgrade (parser m1)"
        "collected (Some Body) (p_state (parser m1))"
  proof -
    have "loop_agrees data (exec_loop fuel st data (m1\<lparr>at := at m1 + 1\<rparr>))
        (ref_run st (drop (at m + n) data) (parser (m1\<lparr>at := at m1 + 1\<rparr>), ?u))"
      by (rule IH [where c = "Some Body"]) (use that m1 n in auto)
    then show ?thesis using that lt p cb by (simp add: Let_def mp)
  qed
  consider (more) "n < unat (content_length p)"
    | (chunk) "n = unat (content_length p)" "p_state p = s_chunk_data"
    | (complete) "n = unat (content_length p)" "p_state p = s_body_identity"
    using n(3) s by linarith
  then show ?thesis
  proof cases
    case more
    have "content_length p - word_of_nat n \<noteq> 0"
      using more by (metis eq_iff_diff_eq_0 unat_u32_of_nat less_irrefl unat_u32_less order_less_trans)
    then show ?thesis
      using jump more next_round wf e up s unfolding ref
      by (auto simp: hp_wf_def collected_def collects_def url_states_def)
  next
    case chunk
    then show ?thesis
      using jump next_round wf e up unfolding ref
      by (simp add: hp_wf_def collected_def collects_def url_states_def ref_body_end_def)
  next
    case complete
    let ?p1 = "p\<lparr>content_length := 0, p_state := s_message_done\<rparr>"
    have j: "exec_byte 4 st data ?ch m = exec_byte 3 st data ?ch m1" and m1p: "parser m1 = ?p1"
      and m1s: "stands_for st data None m1 ?u"
      using jump complete by simp_all
    have k3: "Suc 2 = 3" by simp
    have m1e: "exec_byte 4 st data ?ch m = exec_byte 3 st data (data ! at m1) m1"
      using j exec_byte_message_done [of m1 2 st data ?ch "data ! at m1", unfolded k3] m1p by simp
    have b: "byte_agrees st data m1 (exec_byte 3 st data (data ! at m1) m1)
        (ref_exec 3 st (data ! at m1) (parser m1, ?u))"
      using m1p m1s m1 n wf e up len
      by (intro exec_byte_agrees [OF acc, where c = None])
        (auto simp: hp_wf_def upgrade_ok_def collected_def collects_def url_states_def
          body_states_def reexec_rank_def)
    have r: "ref_body_end st p ?u = ref_exec 3 st (data ! at m1) (parser m1, ?u)"
      using complete m1p ref_exec_message_done [of ?p1 2 st NUL ?u "data ! at m1", unfolded k3]
      by (simp add: ref_body_end_def del: ref_exec.simps)
    have "loop_agrees data (exec_loop (Suc fuel) st data m)
        (do { s \<leftarrow> ref_exec 3 st (data ! at m1) (parser m1, ?u); ref_run st (drop (at m1 + 1) data) s })"
      by (rule loop_after_byte [OF b m1e [symmetric], where m' = m and p = p])
        (use lt cb m0 p m1 n in \<open>auto intro: IH\<close>)
    then show ?thesis unfolding ref using complete r m1 by (simp del: exec_loop.simps ref_exec.simps)
  qed
qed

text \<open>
  The loop from any byte on does what the reference does with the rest of the input.
\<close>

lemma exec_loop_agrees:
  assumes acc: "accumulates st" and "hp_wf (parser m)" and "http_errno (parser m) = HPE_OK"
    and "\<not> upgrade (parser m)" and "collected c (p_state (parser m))" and "stands_for st data c m u"
    and "at m \<le> length data" "length data < 2 ^ 32" and "length data - at m < fuel"
  shows "loop_agrees data (exec_loop fuel st data m) (ref_run st (drop (at m) data) (parser m, u))"
  using assms(2-)
proof (induction fuel arbitrary: m u c)
  case 0
  then show ?case by simp
next
  case (Suc fuel)
  define p where "p = parser m"
  have up: "upgrade_ok p" using Suc.prems(3) by (simp add: upgrade_ok_def p_def)
  have IH: "loop_agrees data (exec_loop fuel st data m1) (ref_run st (drop i data) (parser m1, u2))"
    if "at m1 = i" "at m < i" "i \<le> length data" "http_errno (parser m1) = HPE_OK" "hp_wf (parser m1)"
      "\<not> upgrade (parser m1)" "collected c (p_state (parser m1))" "stands_for st data c m1 u2" for i m1 c u2
    using Suc.IH [of m1 c u2] Suc.prems(6-8) that by simp
  consider (finish) "at m = length data"
    | (overflow) "at m < length data" "p_state p \<notin> body_states" "header_overflow (count_byte p)"
    | (byte) "at m < length data" "p_state p \<notin> body_states" "\<not> header_overflow (count_byte p)"
    | (eof) "at m < length data" "p_state p = s_body_identity_eof"
    | (body) "at m < length data" "p_state p = s_body_identity \<or> p_state p = s_chunk_data"
    using Suc.prems(6) by (cases "at m = length data") (auto simp: body_states_def)
  then show ?case
  proof cases
    case finish
    then show ?thesis
      using exec_finish_flushes [OF acc finish Suc.prems(5,2)] Suc.prems by (auto simp: loop_agrees_def)
  next
    case overflow
    then have "ref_byte st (data ! at m) (p, u) = None" by (simp add: ref_byte_def)
    then show ?thesis
      using overflow unfolding ref_run_one [OF overflow(1)]
      by (simp add: loop_agrees_def Let_def exec_error_def flip: p_def)
  next
    case byte
    let ?m0 = "m\<lparr>parser := count_byte p\<rparr>"
    have "stands_for st data c ?m0 u"
      using Suc.prems(5) put_any [OF acc, of "parser m" _ _ _ "count_byte p"]
      by (auto simp: stands_for_def pending_def marks_ok_def split: option.splits)
    then have b: "byte_agrees st data ?m0 (exec_byte 4 st data (data ! at ?m0) ?m0)
        (ref_exec 4 st (data ! at ?m0) (parser ?m0, u))"
      using Suc.prems byte up reexec_rank_le hp_wf_count_byte
      by (intro exec_byte_agrees [OF acc, where c = c]) (auto simp: p_def upgrade_ok_def)
    have "loop_agrees data (exec_loop (Suc fuel) st data m)
        (do { s \<leftarrow> ref_exec 4 st (data ! at ?m0) (parser ?m0, u); ref_run st (drop (at ?m0 + 1) data) s })"
      by (rule loop_after_byte [OF b, where m' = m and p = p and i = "at m"])
        (use byte in \<open>auto simp: p_def intro: IH\<close>)
    moreover have "ref_byte st (data ! at m) (p, u) = ref_exec 4 st (data ! at ?m0) (parser ?m0, u)"
      using byte by (simp add: ref_byte_def)
    ultimately show ?thesis
      unfolding ref_run_one [OF byte(1)] p_def [symmetric]
      by (simp del: exec_loop.simps ref_exec.simps)
  next
    case eof
    have "p_state p \<in> body_states" using eof by (simp add: body_states_def)
    then have cb: "count_byte p = p" "\<not> header_overflow p" using count_byte_body by simp_all
    have mp: "m\<lparr>parser := p\<rparr> = m" by (simp add: p_def)
    obtain m1 where m1: "at m1 + 1 = length data" "exec_byte 4 st data (data ! at m) m = Some (Next_Byte, m1)"
        "parser m1 = p" "stands_for st data (Some Body) (m1\<lparr>at := at m1 + 1\<rparr>) (put st p Body (drop (at m) data) u)"
      using exec_body_eof_jump [OF acc Suc.prems(5) _ p_def [symmetric] eof(2,1), of "data ! at m" p]
        Suc.prems(4) by (auto simp: p_def)
    have "loop_agrees data (exec_loop fuel st data (m1\<lparr>at := at m1 + 1\<rparr>))
        (ref_run st (drop (length data) data) (parser (m1\<lparr>at := at m1 + 1\<rparr>), put st p Body (drop (at m) data) u))"
      by (rule IH [where c = "Some Body"])
        (use m1 Suc.prems eof in \<open>auto simp: p_def collected_def collects_def url_states_def\<close>)
    then show ?thesis
      using ref_run_body_eof [OF acc eof(2), of "drop (at m) data" u p] m1 eof(1) cb
      by (simp add: Let_def mp flip: p_def)
  next
    case body
    then show ?thesis
      using Suc.prems p_def IH
      by (intro loop_body_agrees [OF acc, where c = c]) auto
  qed
qed

text \<open>
  The two readings of a call: it consumed all its input with no error and no upgrade, or it
  did not.
\<close>

definition clean_call :: "byte list \<Rightarrow> (nat \<times> http_parser \<times> 'u) option \<Rightarrow> 'u ref_st option" where
  "clean_call data res =
     (case res of
        None \<Rightarrow> None
      | Some (r, p, u) \<Rightarrow>
          if r = length data \<and> http_errno p = HPE_OK \<and> \<not> upgrade p then Some (p, u) else None)"

lemma execute_ref_run:
  assumes "accumulates st" and "hp_wf p" and "http_errno p = HPE_OK" and "\<not> upgrade p"
    and "data \<noteq> []" and "length data < 2 ^ 31"
  shows "clean_call data (http_parser_execute st data p u) = ref_run st data (p, u)"
proof -
  let ?m = "\<lparr>parser = p, at = 0, marks = start_marks (p_state p), user = u\<rparr>"
  have "loop_agrees data (exec_loop (length data + 1) st data ?m) (ref_run st (drop (at ?m) data) (parser ?m, u))"
  proof (rule exec_loop_agrees [OF assms(1), where c = "collects (p_state p)"])
    show "stands_for st data (collects (p_state p)) ?m u"
      using assms(1)
      by (auto simp: stands_for_def collecting_def marks_ok_def pending_def start_marks_def collects_def
          url_states_def seg_def split: option.splits if_splits)
  qed (use assms in \<open>auto simp: collected_def\<close>)
  then show ?thesis
    using assms(3,5)
    by (cases "ref_run st data (p, u)")
      (auto simp: http_parser_execute_def loop_agrees_def clean_call_def simp del: exec_loop.simps)
qed

lemma ref_run_keeps:
  assumes "accumulates st" and "hp_wf p" and "http_errno p = HPE_OK" and "\<not> upgrade p"
    and "length data < 2 ^ 31" and "ref_run st data (p, u) = Some (p', u')"
  shows "hp_wf p' \<and> http_errno p' = HPE_OK \<and> \<not> upgrade p'"
proof (cases "data = []")
  case True
  then show ?thesis using assms by simp
next
  case False
  then have "clean_call data (http_parser_execute st data p u) = Some (p', u')"
    using execute_ref_run assms by metis
  then show ?thesis
    using execute_ok [OF assms(2,5), of st u]
    by (auto simp: clean_call_def split: option.splits if_splits)
qed

end
