(* ===== verification/Http_Props.thy ===== *)
theory Http_Props
  imports Http_Equiv
begin

text \<open>
  What \<^verbatim>\<open>http_parser_execute\<close> guarantees to \<^verbatim>\<open>httpd.c\<close> and \<^verbatim>\<open>httpc.c\<close>, which call it
  on whatever a socket has delivered.
\<close>

section \<open>A recording user\<close>

text \<open>Callbacks that write down what they are told, byte by byte.\<close>

datatype http_event = Got data_cb byte | Saw notify_cb | Headers

definition recorder :: "http_event list http_parser_settings" where
  "recorder =
     \<lparr>on_message_begin = Some (\<lambda>p u. (0, u @ [Saw Message_Begin])),
      on_url = Some (\<lambda>p bs u. (0, u @ map (Got Url) bs)),
      on_status_complete = Some (\<lambda>p u. (0, u @ [Saw Status_Complete])),
      on_header_field = Some (\<lambda>p bs u. (0, u @ map (Got Header_Field) bs)),
      on_header_value = Some (\<lambda>p bs u. (0, u @ map (Got Header_Value) bs)),
      on_headers_complete = Some (\<lambda>p u. (0, u @ [Headers])),
      on_body = Some (\<lambda>p bs u. (0, u @ map (Got Body) bs)),
      on_message_complete = Some (\<lambda>p u. (0, u @ [Saw Message_Complete]))\<rparr>"

lemma data_of_recorder: "data_of cb recorder = Some (\<lambda>p bs u. (0, u @ map (Got cb) bs))"
  by (cases cb) (simp_all add: recorder_def)

lemma notify_of_recorder: "notify_of cb recorder = Some (\<lambda>p u. (0, u @ [Saw cb]))"
  by (cases cb) (simp_all add: recorder_def)

lemma accumulates_recorder: "accumulates recorder"
  by (simp add: accumulates_def data_of_recorder)

lemma put_recorder: "put recorder p cb bs u = u @ map (Got cb) bs"
  by (simp add: put_def data_of_recorder)

section \<open>Chunks of a stream\<close>

text \<open>
  A stream that arrives in pieces: every piece is handed to one call. The run goes on while
  the calls consume their input without an error or an upgrade.
\<close>

fun feed :: "'u http_parser_settings \<Rightarrow> byte list list \<Rightarrow> 'u ref_st \<Rightarrow> 'u ref_st option" where
  "feed st [] s = Some s"
| "feed st (c # cs) s =
     (let (p, u) = s in do { s1 \<leftarrow> clean_call c (http_parser_execute st c p u); feed st cs s1 })"

lemma feed_ref_run:
  assumes "accumulates st" and "hp_wf p" and "http_errno p = HPE_OK" and "\<not> upgrade p"
    and "\<forall>c \<in> set cs. c \<noteq> [] \<and> length c < 2 ^ 31"
  shows "feed st cs (p, u) = ref_run st (concat cs) (p, u)"
  using assms(2-)
proof (induction cs arbitrary: p u)
  case (Cons c cs)
  have c: "clean_call c (http_parser_execute st c p u) = ref_run st c (p, u)"
    using Cons.prems by (intro execute_ref_run [OF assms(1)]) auto
  show ?case
  proof (cases "ref_run st c (p, u)")
    case None
    then show ?thesis by (simp add: c ref_run_append)
  next
    case (Some s)
    obtain p' u' where s: "s = (p', u')" by (cases s)
    have "hp_wf p' \<and> http_errno p' = HPE_OK \<and> \<not> upgrade p'"
      by (rule ref_run_keeps [OF assms(1) Cons.prems(1-3), of c u]) (use Cons.prems(4) Some s in auto)
    then have "feed st cs (p', u') = ref_run st (concat cs) (p', u')"
      using Cons.prems(4) by (intro Cons.IH) auto
    then show ?thesis using Some s by (simp add: c ref_run_append)
  qed
qed simp

section \<open>Properties\<close>

text \<open>
  C3. A call always returns, whatever the callbacks do: it consumes at most its input (at most
  1 for the end-of-file call), every callback gets bytes of the input, and while there is no
  error the parser keeps its invariant: the matched method and the version and status numbers
  stay in range, a body state has bytes left, the header is at most 8 KB.
\<close>

theorem http_execute_total:
  assumes "hp_wf p" and "length data < 2 ^ 31"
  shows "\<exists>r p' u'. http_parser_execute st data p u = Some (r, p', u')
      \<and> r \<le> max 1 (length data) \<and> (http_errno p' = HPE_OK \<longrightarrow> hp_wf p')"
  using assms by (rule execute_ok)

theorem http_execute_total_witness:
  "\<exists>r p' u'. http_parser_execute recorder ''GET /x'' (http_parser_init HTTP_REQUEST) [] = Some (r, p', u')
      \<and> r \<le> max 1 (length ''GET /x'') \<and> (http_errno p' = HPE_OK \<longrightarrow> hp_wf p')"
  by (rule http_execute_total) (simp_all add: hp_wf_init)

text \<open>
  C1. The parser with its marks, its jumps over bodies and its callbacks on slices of the
  input does exactly what the reference does that takes one byte at a time: either both
  consume the whole input and agree on the parser and on everything handed to the callbacks,
  or neither gets through it.
\<close>

theorem http_execute_reference:
  assumes "accumulates st" and "hp_wf p" and "http_errno p = HPE_OK" and "\<not> upgrade p"
    and "data \<noteq> []" and "length data < 2 ^ 31"
  shows "clean_call data (http_parser_execute st data p u) = ref_run st data (p, u)"
  using assms by (rule execute_ref_run)

theorem http_execute_reference_witness:
  "clean_call ''GET /x'' (http_parser_execute recorder ''GET /x'' (http_parser_init HTTP_REQUEST) [])
     = ref_run recorder ''GET /x'' (http_parser_init HTTP_REQUEST, [])"
  by (rule http_execute_reference)
    (simp_all add: accumulates_recorder hp_wf_init, simp_all add: http_parser_init_def)





end
