(* ===== verification/Http_Request.thy ===== *)
theory Http_Request
  imports Http_Props
begin

text \<open>
  What the parser makes of well-formed requests: a sequence of requests with arbitrary methods,
  targets, headers and bodies is reported to the callbacks as it was rendered, however it is
  cut into reads.
\<close>

section \<open>Runs that only count\<close>

text \<open>
  Almost all states leave the counter \<^verbatim>\<open>nread\<close> alone, so that a run can be computed first
  and counted afterwards.
\<close>

definition resets :: "pstate set" where
  "resets = {s_headers_done, s_chunk_size_almost_done, s_chunk_data_done}"

definition with_nread :: "u32 \<Rightarrow> case_result \<Rightarrow> case_result" where
  "with_nread n = (\<lambda>(p, a). (p\<lparr>nread := n\<rparr>, a))"

lemma nread_commutes:
  "has_flag (p\<lparr>nread := n\<rparr>) f = has_flag p f"
  "NEW_MESSAGE (p\<lparr>nread := n\<rparr>) = NEW_MESSAGE p"
  by (simp_all add: NEW_MESSAGE_def start_state_def http_should_keep_alive_def http_message_needs_eof_def)

lemma match_char_nread: "match_char w d (p\<lparr>nread := n\<rparr>) c = (match_char w d p c)\<lparr>nread := n\<rparr>"
  by (simp add: match_char_def Let_def)

lemma header_name_char_nread:
  "header_name_char (p\<lparr>nread := n\<rparr>) ch c = (header_name_char p ch c)\<lparr>nread := n\<rparr>"
  by (simp add: header_name_char_def match_char_nread split: hstate.splits)

lemmas with_nread_defs = with_nread_def fail_def STRICT_CHECK_def Let_def split_beta nread_commutes

lemma response_nread:
  assumes "s \<in> {s_dead, s_start_req_or_res, s_res_or_resp_H, s_start_res, s_res_H, s_res_HT,
              s_res_HTT, s_res_HTTP, s_res_first_http_major, s_res_http_major,
              s_res_first_http_minor, s_res_http_minor, s_res_first_status_code,
              s_res_status_code, s_res_status, s_res_line_almost_done}"
  shows "exec_state s (p\<lparr>nread := n\<rparr>) ch r = with_nread n (exec_state s p ch r)"
  using assms
  by (elim insertE emptyE;
      simp add: with_nread_defs at_s_dead_def at_s_start_req_or_res_def at_s_res_or_resp_H_def
        at_s_start_res_def at_s_res_H_def at_s_res_HT_def at_s_res_HTT_def at_s_res_HTTP_def
        at_s_res_first_http_major_def at_s_res_http_major_def at_s_res_first_http_minor_def
        at_s_res_http_minor_def at_s_res_first_status_code_def at_s_res_status_code_def
        at_s_res_status_def at_s_res_line_almost_done_def)

lemma request_nread:
  assumes "s \<in> {s_req_http_start, s_req_http_H, s_req_http_HT, s_req_http_HTT, s_req_http_HTTP,
              s_req_first_http_major, s_req_http_major, s_req_first_http_minor, s_req_http_minor,
              s_req_line_almost_done, s_start_req, s_req_method, s_req_spaces_before_url} \<union> url_states"
  shows "exec_state s (p\<lparr>nread := n\<rparr>) ch r = with_nread n (exec_state s p ch r)"
  using assms unfolding url_states_def
  by (elim insertE emptyE UnE;
      simp add: with_nread_defs url_step_def
        at_s_req_http_start_def at_s_req_http_H_def at_s_req_http_HT_def
        at_s_req_http_HTT_def at_s_req_http_HTTP_def at_s_req_first_http_major_def
        at_s_req_http_major_def at_s_req_first_http_minor_def at_s_req_http_minor_def
        at_s_req_line_almost_done_def at_s_start_req_def at_s_req_method_def
        at_s_req_spaces_before_url_def at_url_schema_def at_url_rest_def
        split: option.splits)

lemma header_nread:
  assumes "s \<in> {s_header_field_start, s_header_field, s_header_almost_done, s_header_value_lws,
      s_header_value_start, s_header_value, s_headers_almost_done,
      s_chunk_size_start, s_chunk_size, s_chunk_parameters}"
  shows "exec_state s (p\<lparr>nread := n\<rparr>) ch r = with_nread n (exec_state s p ch r)"
  using assms
  by (elim insertE emptyE;
      simp add: with_nread_defs header_name_char_nread match_char_nread
        at_s_header_field_start_def at_s_header_field_def
        at_s_header_almost_done_def at_s_header_value_lws_def
        at_s_header_value_start_def header_value_first_def
        at_s_header_value_def header_value_char_def content_length_char_def
        at_s_headers_almost_done_def at_s_chunk_size_start_def
        at_s_chunk_size_def at_s_chunk_parameters_def
        split: hstate.splits)

definition counted :: "pstate \<Rightarrow> bool" where
  "counted s \<longleftrightarrow> up_to_headers_done s \<and> s \<notin> resets"

lemma exec_state_nread:
  assumes "counted s"
  shows "exec_state s (p\<lparr>nread := n\<rparr>) ch r = with_nread n (exec_state s p ch r)"
  using assms response_nread [where s = s and p = p and n = n and ch = ch and r = r]
    request_nread [where s = s and p = p and n = n and ch = ch and r = r]
    header_nread [where s = s and p = p and n = n and ch = ch and r = r]
  by (cases s) (simp_all add: counted_def up_to_headers_done_def resets_def url_states_def)

lemma recorder_notifies:
  "on_message_begin recorder = Some (\<lambda>p u. (0, u @ [Saw Message_Begin]))"
  "on_message_complete recorder = Some (\<lambda>p u. (0, u @ [Saw Message_Complete]))"
  "on_headers_complete recorder = Some (\<lambda>p u. (0, u @ [Headers]))"
  by (simp_all add: recorder_def)

lemmas recorder_simps = put_recorder notify_of_recorder recorder_notifies put_opt_def

lemma ref_action_nread:
  "ref_action recorder ch a (p\<lparr>nread := n\<rparr>) u c =
     map_option (\<lambda>(again, p1, u1). (again, p1\<lparr>nread := n\<rparr>, u1)) (ref_action recorder ch a p u c)"
  by (induction a arbitrary: p u c)
    (auto simp: recorder_simps Let_def split: option.splits)

text \<open>The reference without the counter.\<close>

primrec quiet_exec :: "nat \<Rightarrow> byte \<Rightarrow> http_event list ref_st \<Rightarrow> http_event list ref_st option" where
  "quiet_exec 0 ch s = None"
| "quiet_exec (Suc k) ch s =
     (let (p, u) = s; (p1, a) = exec_state (p_state p) p ch 1
      in if \<not> counted (p_state p) then None
         else do {
           (again, p2, u2) \<leftarrow> ref_action recorder ch a p1 u (collects (p_state p));
           (if again then quiet_exec k ch (p2, u2) else Some (p2, u2)) })"

fun quiet_run :: "byte list \<Rightarrow> http_event list ref_st \<Rightarrow> http_event list ref_st option" where
  "quiet_run [] s = Some s"
| "quiet_run (ch # bs) s = do { s1 \<leftarrow> quiet_exec 4 ch s; quiet_run bs s1 }"

lemma quiet_run_append: "quiet_run (a @ b) s = do { s1 \<leftarrow> quiet_run a s; quiet_run b s1 }"
proof (induction a arbitrary: s)
  case (Cons x a)
  then show ?case by (cases "quiet_exec 4 x s") simp_all
qed simp

lemma quiet_step: "quiet_exec 4 c s = Some s1 \<Longrightarrow> quiet_run b s1 = r \<Longrightarrow> quiet_run (c # b) s = r"
  by simp

lemma quiet_append: "quiet_run a s = Some s1 \<Longrightarrow> quiet_run b s1 = r \<Longrightarrow> quiet_run (a @ b) s = r"
  by (simp add: quiet_run_append)

lemma quiet_exec_ref:
  "quiet_exec k ch (p, u) = Some (p', u') \<Longrightarrow>
     ref_exec k recorder ch (p\<lparr>nread := n\<rparr>, u) = Some (p'\<lparr>nread := n\<rparr>, u')"
proof (induction k arbitrary: p u)
  case (Suc k)
  obtain p1 a where pa: "exec_state (p_state p) p ch 1 = (p1, a)" by fastforce
  then have pa': "exec_state (p_state p) (p\<lparr>nread := n\<rparr>) ch 1 = (p1\<lparr>nread := n\<rparr>, a)"
    if "counted (p_state p)" using exec_state_nread [OF that, where p = p and n = n and ch = ch and r = 1] by (simp add: with_nread_def)
  show ?case
    using Suc.prems pa pa' Suc.IH
    by (auto simp: ref_action_nread bind_eq_Some_conv split: if_splits)
qed simp

lemma quiet_run_ref:
  assumes "quiet_run bs (p, u) = Some (p', u')" and "n + length bs \<le> 8192"
  shows "ref_run recorder bs (p\<lparr>nread := word_of_nat n\<rparr>, u) =
    Some (p'\<lparr>nread := word_of_nat (n + length bs)\<rparr>, u')"
  using assms
proof (induction bs arbitrary: p u n)
  case (Cons ch bs)
  obtain p1 u1 where 1: "quiet_exec 4 ch (p, u) = Some (p1, u1)" "quiet_run bs (p1, u1) = Some (p', u')"
    using Cons.prems(1) by (auto simp: bind_eq_Some_conv)
  let ?p = "p\<lparr>nread := word_of_nat n\<rparr>" and ?n = "word_of_nat (Suc n) :: u32"
  have c: "counted (p_state p)"
    using 1(1) by (cases "counted (p_state p)") (simp_all add: eval_nat_numeral)
  then have "count_byte ?p = p\<lparr>nread := ?n\<rparr>"
    by (simp add: count_byte_def counted_def)
  moreover have "\<not> header_overflow (p\<lparr>nread := ?n\<rparr>)"
  proof -
    have "unat ?n = Suc n" using Cons.prems(2) by (intro unat_u32_of_nat) simp
    then show ?thesis
      using Cons.prems(2) by (simp add: header_overflow_def HTTP_MAX_HEADER_SIZE_def word_less_nat_alt)
  qed
  ultimately have "ref_byte recorder ch (?p, u) = Some (p1\<lparr>nread := ?n\<rparr>, u1)"
    using quiet_exec_ref [OF 1(1), of ?n] by (simp add: ref_byte_def)
  then show ?case
    using Cons.IH [OF 1(2), of "Suc n"] Cons.prems(2) by simp
qed simp


section \<open>The request line\<close>

lemma quiet_exec_4:
  "quiet_exec 4 ch (p, u) = (let (p1, a) = exec_state (p_state p) p ch 1 in
     if \<not> counted (p_state p) then None
     else (case ref_action recorder ch a p1 u (collects (p_state p)) of
        None \<Rightarrow> None
      | Some (again, p2, u2) \<Rightarrow> if again then quiet_exec 3 ch (p2, u2) else Some (p2, u2)))"
  by (simp add: eval_nat_numeral split_beta Let_def split: option.splits)

lemma counted_states:
  "counted s_start_req" "counted s_req_method" "counted s_req_spaces_before_url"
  "s \<in> url_states \<Longrightarrow> counted s"
  "counted s_req_http_start" "counted s_req_http_H" "counted s_req_http_HT" "counted s_req_http_HTT"
  "counted s_req_http_HTTP" "counted s_req_first_http_major" "counted s_req_http_major"
  "counted s_req_first_http_minor" "counted s_req_http_minor" "counted s_req_line_almost_done"
  "counted s_header_field_start" "counted s_header_field" "counted s_header_value_start"
  "counted s_header_value" "counted s_header_value_lws" "counted s_header_almost_done"
  "counted s_headers_almost_done"
  by (auto simp: counted_def up_to_headers_done_def resets_def url_states_def)

lemma collects_states:
  "collects s_start_req = None" "collects s_req_method = None" "collects s_req_spaces_before_url = None"
  "collects s_req_http_start = None" "collects s_req_http_H = None" "collects s_req_http_HT = None"
  "collects s_req_http_HTT = None"
  "collects s_req_http_HTTP = None" "collects s_req_first_http_major = None" "collects s_req_http_major = None"
  "collects s_req_first_http_minor = None" "collects s_req_http_minor = None" "collects s_req_line_almost_done = None"
  "collects s_header_field_start = None" "collects s_header_field = Some Header_Field"
  "collects s_header_value_start = None" "collects s_header_value = Some Header_Value"
  "collects s_header_value_lws = None" "collects s_header_almost_done = None"
  "collects s_headers_almost_done = None" "collects s_headers_done = None"
  by (simp_all add: collects_def url_states_def)

lemmas quiet_simps = quiet_exec_4 counted_states collects_states recorder_simps

lemma run_method:
  assumes "p_state p = s_start_req"
  shows "quiet_run (method_strings m @ '' '') (p, u) =
    Some (p\<lparr>p_flags := 0, content_length := HTTP_UINT32_MAX, p_method := m,
            p_index := word_of_nat (length (method_strings m) + 1), p_state := s_req_spaces_before_url\<rparr>,
          u @ [Saw Message_Begin])"
  using assms
  by (cases m)
    (simp_all add: quiet_simps at_s_start_req_def first_method_def IS_ALPHA_def LOWER_def of_char_def
      at_s_req_method_def next_method_def c_str_def Let_def)


text \<open>A request target: a slash and visible characters.\<close>

definition visible :: "byte \<Rightarrow> bool" where
  "visible c \<longleftrightarrow> (33 :: nat) \<le> of_char c \<and> of_char c \<le> (126 :: nat)"

definition valid_target :: "byte list \<Rightarrow> bool" where
  "valid_target t \<longleftrightarrow> (case t of [] \<Rightarrow> False | c # cs \<Rightarrow> c = CHR ''/'' \<and> list_all visible cs)"

definition path_states :: "pstate set" where
  "path_states = {s_req_path, s_req_query_string_start, s_req_query_string, s_req_fragment_start,
     s_req_fragment}"

lemma path_states_url: "s \<in> path_states \<Longrightarrow> s \<in> url_states"
  by (auto simp: path_states_def url_states_def)

lemma path_state_exec: "s \<in> path_states \<Longrightarrow> exec_state s p ch r = at_url_rest p ch"
  by (auto simp: path_states_def)

lemma visible_not_blank:
  "visible c \<Longrightarrow> c \<noteq> CHR '' '' \<and> c \<noteq> CR \<and> c \<noteq> LF \<and> c \<noteq> TAB \<and> c \<noteq> CHR 0x0C \<and> c \<noteq> NUL"
  by (auto simp: visible_def)

lemma path_states_step:
  assumes "s \<in> path_states" and "visible c"
  shows "parse_url_char s c \<in> path_states"
proof -
  have "IS_URL_CHAR c" if "c \<noteq> CHR ''?''" "c \<noteq> CHR ''#''"
    using assms(2) that by (auto simp: IS_URL_CHAR_spec url_char_spec_def visible_def)
  then show ?thesis
    using assms(1) visible_not_blank [OF assms(2)] unfolding path_states_def
    by (elim insertE emptyE; simp add: parse_url_char_def url_query_char_def)
qed

lemma run_target_char:
  assumes "p_state p \<in> path_states" and "visible c"
  shows "quiet_exec 4 c (p, u) = Some (p\<lparr>p_state := parse_url_char (p_state p) c\<rparr>, u @ [Got Url c])"
proof -
  have "parse_url_char (p_state p) c \<noteq> s_dead"
    using path_states_step [OF assms] by (auto simp: path_states_def)
  then show ?thesis
    using assms visible_not_blank [OF assms(2)] path_states_url [OF assms(1)]
      url_state_facts(1) [OF path_states_url [OF assms(1)]]
    by (simp add: quiet_simps path_state_exec at_url_rest_def url_step_def Let_def)
qed

lemma run_target_chars:
  assumes "p_state p \<in> path_states" and "list_all visible cs"
  shows "\<exists>s \<in> path_states. quiet_run cs (p, u) = Some (p\<lparr>p_state := s\<rparr>, u @ map (Got Url) cs)"
  using assms
proof (induction cs arbitrary: p u)
  case Nil
  then show ?case by (auto intro!: bexI [of _ "p_state p"])
next
  case (Cons c cs)
  let ?p = "p\<lparr>p_state := parse_url_char (p_state p) c\<rparr>"
  obtain s where "s \<in> path_states"
      "quiet_run cs (?p, u @ [Got Url c]) = Some (?p\<lparr>p_state := s\<rparr>, (u @ [Got Url c]) @ map (Got Url) cs)"
    using Cons.IH [of ?p "u @ [Got Url c]"] path_states_step Cons.prems by auto
  then show ?case
    using run_target_char [of p c u] Cons.prems by (auto intro!: bexI [of _ s])
qed

lemma run_target:
  assumes "p_state p = s_req_spaces_before_url" and "p_method p \<noteq> HTTP_CONNECT" and "valid_target t"
  shows "\<exists>s \<in> path_states. quiet_run t (p, u) = Some (p\<lparr>p_state := s\<rparr>, u @ map (Got Url) t)"
proof -
  obtain cs where t: "t = CHR ''/'' # cs" "list_all visible cs"
    using assms(3) by (auto simp: valid_target_def split: list.splits)
  let ?p = "p\<lparr>p_state := s_req_path\<rparr>"
  have "quiet_exec 4 CHR ''/'' (p, u) = Some (?p, u @ [Got Url CHR ''/''])"
    using assms by (simp add: quiet_simps at_s_req_spaces_before_url_def url_step_def parse_url_char_def Let_def)
  moreover obtain s where "s \<in> path_states"
      "quiet_run cs (?p, u @ [Got Url CHR ''/'']) = Some (?p\<lparr>p_state := s\<rparr>, (u @ [Got Url CHR ''/'']) @ map (Got Url) cs)"
    using run_target_chars [of ?p cs "u @ [Got Url CHR ''/'']"] t by (auto simp: path_states_def)
  ultimately show ?thesis using t by (auto intro!: bexI [of _ s])
qed

abbreviation crlf :: "byte list" where "crlf \<equiv> [CR, LF]"

lemma run_version:
  assumes "p_state p \<in> path_states"
  shows "quiet_run ('' HTTP/1.1'' @ crlf) (p, u) =
    Some (p\<lparr>http_major := 1, http_minor := 1, p_state := s_header_field_start\<rparr>, u)"
proof -
  let ?p = "p\<lparr>p_state := s_req_http_start\<rparr>"
  have "quiet_exec 4 CHR '' '' (p, u) = Some (?p, u)"
    using path_states_url [OF assms] url_state_facts(1) [OF path_states_url [OF assms]]
    by (simp add: quiet_simps path_state_exec [OF assms] at_url_rest_def)
  moreover have "quiet_run (''HTTP/1.1'' @ crlf) (?p, u) =
      Some (p\<lparr>http_major := 1, http_minor := 1, p_state := s_header_field_start\<rparr>, u)"
    by (simp add: quiet_simps STRICT_CHECK_def at_s_req_http_start_def at_s_req_http_H_def
        at_s_req_http_HT_def at_s_req_http_HTT_def at_s_req_http_HTTP_def at_s_req_first_http_major_def
        at_s_req_http_major_def at_s_req_first_http_minor_def at_s_req_http_minor_def
        at_s_req_line_almost_done_def IS_NUM_def digit_def of_char_def)
  ultimately show ?thesis by simp
qed

section \<open>Headers\<close>

text \<open>
  An ordinary header: a name of token characters that is none of those the parser looks for
  (which begin with \<^verbatim>\<open>c\<close>, \<^verbatim>\<open>p\<close>, \<^verbatim>\<open>t\<close> or \<^verbatim>\<open>u\<close>), and a value on one line.
\<close>

type_synonym header = "byte list \<times> byte list"

definition valid_header :: "header \<Rightarrow> bool" where
  "valid_header h \<longleftrightarrow>
     (case h of
        (n # ns, v # vs) \<Rightarrow>
          list_all (\<lambda>c. TOKEN c \<noteq> NUL) (n # ns) \<and> TOKEN n \<notin> set ''cptu''
          \<and> v \<noteq> CHR '' '' \<and> v \<noteq> TAB \<and> list_all (\<lambda>c. c \<noteq> CR \<and> c \<noteq> LF) (v # vs)
      | _ \<Rightarrow> False)"

definition header_line :: "header \<Rightarrow> byte list" where
  "header_line h = fst h @ '': '' @ snd h @ crlf"

definition header_events :: "header \<Rightarrow> http_event list" where
  "header_events h = map (Got Header_Field) (fst h) @ map (Got Header_Value) (snd h)"

lemma TOKEN_facts:
  "TOKEN CR = NUL" "TOKEN LF = NUL" "TOKEN CHR '' '' = NUL" "TOKEN TAB = NUL" "TOKEN CHR '':'' = NUL"
  by (simp_all add: TOKEN_spec token_spec_def IS_ALPHA_def IS_NUM_def LOWER_def of_char_def)

text \<open>The two states in which a header line may begin.\<close>

definition at_header :: "http_parser \<Rightarrow> bool" where
  "at_header p \<longleftrightarrow> p_state p = s_header_field_start \<or> p_state p = s_header_value_lws"

lemma quiet_exec_3:
  "quiet_exec 3 ch (p, u) = (let (p1, a) = exec_state (p_state p) p ch 1 in
     if \<not> counted (p_state p) then None
     else (case ref_action recorder ch a p1 u (collects (p_state p)) of
        None \<Rightarrow> None
      | Some (again, p2, u2) \<Rightarrow> if again then quiet_exec 2 ch (p2, u2) else Some (p2, u2)))"
  by (simp add: eval_nat_numeral split_beta Let_def split: option.splits)

lemma run_name_first:
  assumes "at_header p" and "TOKEN c \<noteq> NUL"
  shows "quiet_exec 4 c (p, u) = Some
    (p\<lparr>p_index := 0, p_state := s_header_field,
       header_state := (if TOKEN c = CHR ''c'' then h_C
                        else if TOKEN c = CHR ''p'' then h_matching_proxy_connection
                        else if TOKEN c = CHR ''t'' then h_matching_transfer_encoding
                        else if TOKEN c = CHR ''u'' then h_matching_upgrade else h_general)\<rparr>,
     u @ [Got Header_Field c])"
proof -
  have "c \<noteq> CR \<and> c \<noteq> LF \<and> c \<noteq> CHR '' '' \<and> c \<noteq> TAB" using assms(2) by (auto simp: TOKEN_facts)
  then show ?thesis
    using assms
    by (auto simp: at_header_def quiet_simps quiet_exec_3 at_s_header_field_start_def
        at_s_header_value_lws_def Let_def)
qed

lemma run_name_general:
  assumes "p_state p = s_header_field" and "header_state p = h_general" and "list_all (\<lambda>c. TOKEN c \<noteq> NUL) cs"
  shows "quiet_run cs (p, u) = Some (p, u @ map (Got Header_Field) cs)"
  using assms
proof (induction cs arbitrary: u)
  case (Cons c cs)
  have "quiet_exec 4 c (p, u) = Some (p, u @ [Got Header_Field c])"
    using Cons.prems by (simp add: quiet_simps at_s_header_field_def header_name_char_def Let_def)
  then show ?case using Cons by simp
qed simp

lemma run_colon:
  assumes "p_state p = s_header_field"
  shows "quiet_run '': '' (p, u) = Some (p\<lparr>p_state := s_header_value_start\<rparr>, u)"
  using assms
  by (simp add: quiet_simps at_s_header_field_def at_s_header_value_start_def TOKEN_facts Let_def)

lemma run_value_general:
  assumes "p_state p = s_header_value" and "header_state p = h_general"
    and "list_all (\<lambda>c. c \<noteq> CR \<and> c \<noteq> LF) cs"
  shows "quiet_run cs (p, u) = Some (p, u @ map (Got Header_Value) cs)"
  using assms
proof (induction cs arbitrary: u)
  case (Cons c cs)
  have "quiet_exec 4 c (p, u) = Some (p, u @ [Got Header_Value c])"
    using Cons.prems by (simp add: quiet_simps at_s_header_value_def header_value_char_def Let_def)
  then show ?case using Cons by simp
qed simp

lemma run_value_end:
  assumes "p_state p = s_header_value" and "header_state p = h_general \<or> header_state p = h_content_length"
  shows "quiet_run crlf (p, u) = Some (p\<lparr>p_state := s_header_value_lws\<rparr>, u)"
  using assms
  by (auto simp: quiet_simps at_s_header_value_def at_s_header_almost_done_def STRICT_CHECK_def)

lemma run_header:
  assumes "at_header p" and "valid_header h"
  shows "quiet_run (header_line h) (p, u) =
    Some (p\<lparr>p_state := s_header_value_lws, header_state := h_general, p_index := 0\<rparr>, u @ header_events h)"
proof -
  obtain n ns v vs where h: "h = (n # ns, v # vs)"
    and n: "TOKEN n \<noteq> NUL" "list_all (\<lambda>c. TOKEN c \<noteq> NUL) ns" "TOKEN n \<notin> set ''cptu''"
    and v: "v \<noteq> CHR '' ''" "v \<noteq> TAB" "v \<noteq> CR" "v \<noteq> LF" "list_all (\<lambda>c. c \<noteq> CR \<and> c \<noteq> LF) vs"
    using assms(2) by (auto simp: valid_header_def split: prod.splits list.splits)
  let ?p1 = "p\<lparr>p_index := 0, p_state := s_header_field, header_state := h_general\<rparr>"
  let ?p2 = "?p1\<lparr>p_state := s_header_value_start\<rparr>"
  let ?p3 = "?p1\<lparr>p_state := s_header_value\<rparr>"
  let ?u1 = "(u @ [Got Header_Field n]) @ map (Got Header_Field) ns"
  have 1: "quiet_exec 4 n (p, u) = Some (?p1, u @ [Got Header_Field n])"
    using run_name_first [OF assms(1) n(1), of u] n(3) by simp
  have 2: "quiet_run ns (?p1, u @ [Got Header_Field n]) = Some (?p1, ?u1)"
    by (rule run_name_general) (use n in simp_all)
  have 3: "quiet_run '': '' (?p1, ?u1) = Some (?p2, ?u1)"
    using run_colon [of ?p1 ?u1] by simp
  have 4: "quiet_exec 4 v (?p2, ?u1) = Some (?p3, ?u1 @ [Got Header_Value v])"
    using v by (simp add: quiet_simps at_s_header_value_start_def header_value_first_def Let_def)
  have 5: "quiet_run vs (?p3, ?u1 @ [Got Header_Value v])
      = Some (?p3, (?u1 @ [Got Header_Value v]) @ map (Got Header_Value) vs)"
    by (rule run_value_general) (use v in simp_all)
  have 6: "quiet_run crlf (?p3, w) = Some (?p3\<lparr>p_state := s_header_value_lws\<rparr>, w)" for w
    by (rule run_value_end) simp_all
  have "quiet_run (n # ns @ '': '' @ v # vs @ crlf) (p, u) =
      Some (?p3\<lparr>p_state := s_header_value_lws\<rparr>, (?u1 @ [Got Header_Value v]) @ map (Got Header_Value) vs)"
    by (rule quiet_step [OF 1], rule quiet_append [OF 2], rule quiet_append [OF 3],
        rule quiet_step [OF 4], rule quiet_append [OF 5], rule 6)
  then show ?thesis by (simp add: h header_line_def header_events_def)
qed


text \<open>Decimal numbers, and the header that announces a body.\<close>

definition digit_char :: "nat \<Rightarrow> byte" where "digit_char d = char_of (48 + d)"

fun decimal :: "nat \<Rightarrow> byte list" where
  "decimal n = (if n < 10 then [digit_char n] else decimal (n div 10) @ [digit_char (n mod 10)])"

declare decimal.simps [simp del]

lemma digit_char_num:
  assumes "d < 10"
  shows "IS_NUM (digit_char d)" and "(digit (digit_char d) :: u32) = word_of_nat d"
    and "digit_char d \<notin> {CR, LF, CHR '' '', TAB}"
proof -
  have o: "of_char (digit_char d) = 48 + d" using assms by (simp add: digit_char_def)
  show "IS_NUM (digit_char d)" "(digit (digit_char d) :: u32) = word_of_nat d"
    using assms by (simp_all add: IS_NUM_def digit_def o)
  have "of_char (digit_char d) \<notin> {of_char CR, of_char LF, of_char CHR '' '', of_char TAB :: nat}"
    unfolding o using assms by simp
  then show "digit_char d \<notin> {CR, LF, CHR '' '', TAB}" by auto
qed

lemma content_length_step:
  assumes "10 * c + d < 2 ^ 32 - 1" and "d < 10"
  shows "(word_of_nat c :: u32) * 10 + word_of_nat d = word_of_nat (10 * c + d)"
    and "\<not> (word_of_nat (10 * c + d) < (word_of_nat c :: u32))"
    and "(word_of_nat (10 * c + d) :: u32) \<noteq> HTTP_UINT32_MAX"
proof -
  show "(word_of_nat c :: u32) * 10 + word_of_nat d = word_of_nat (10 * c + d)" by simp
  have u: "unat (word_of_nat (10 * c + d) :: u32) = 10 * c + d" "unat (word_of_nat c :: u32) = c"
    using assms by (intro unat_u32_of_nat; simp)+
  then show "\<not> (word_of_nat (10 * c + d) < (word_of_nat c :: u32))"
    by (simp add: word_less_nat_alt)
  have "unat HTTP_UINT32_MAX = 2 ^ 32 - 1"
    by (simp add: HTTP_UINT32_MAX_def unsigned_minus_1_eq_mask mask_eq_exp_minus_1)
  then show "(word_of_nat (10 * c + d) :: u32) \<noteq> HTTP_UINT32_MAX"
    using u assms(1) by (metis less_irrefl)
qed

lemma run_decimal:
  assumes "n < 2 ^ 32 - 1" and "p_state p = s_header_value_start" and "header_state p = h_content_length"
  shows "quiet_run (decimal n) (p, u) =
    Some (p\<lparr>p_state := s_header_value, p_index := 0, content_length := word_of_nat n\<rparr>,
          u @ map (Got Header_Value) (decimal n))"
  using assms
proof (induction n rule: decimal.induct)
  case (1 n)
  show ?case
  proof (cases "n < 10")
    case True
    then show ?thesis
      using digit_char_num [OF True] 1(3,4)
      by (simp add: decimal.simps [of n] quiet_simps at_s_header_value_start_def header_value_first_def Let_def)
  next
    case False
    let ?q = "p\<lparr>p_state := s_header_value, p_index := 0, content_length := word_of_nat (n div 10)\<rparr>"
    let ?w = "u @ map (Got Header_Value) (decimal (n div 10))"
    have IH: "quiet_run (decimal (n div 10)) (p, u) = Some (?q, ?w)"
      using 1 False by simp
    have n: "10 * (n div 10) + n mod 10 < 2 ^ 32 - 1" "n mod 10 < 10" using 1(2) by simp_all
    have "quiet_exec 4 (digit_char (n mod 10)) (?q, ?w) =
        Some (?q\<lparr>content_length := word_of_nat n\<rparr>, ?w @ [Got Header_Value (digit_char (n mod 10))])"
      using digit_char_num [OF n(2)] content_length_step [OF n] 1(4)
      by (simp add: quiet_simps at_s_header_value_def header_value_char_def content_length_char_def Let_def)
    then have "quiet_run [digit_char (n mod 10)] (?q, ?w) =
        Some (?q\<lparr>content_length := word_of_nat n\<rparr>, ?w @ [Got Header_Value (digit_char (n mod 10))])"
      by simp
    then have "quiet_run (decimal (n div 10) @ [digit_char (n mod 10)]) (p, u) =
        Some (?q\<lparr>content_length := word_of_nat n\<rparr>, ?w @ [Got Header_Value (digit_char (n mod 10))])"
      by (rule quiet_append [OF IH])
    then show ?thesis using False by (simp add: decimal.simps [of n])
  qed
qed

definition length_header :: "nat \<Rightarrow> header" where
  "length_header n = (''Content-Length'', decimal n)"

lemma TOKEN_letters:
  "TOKEN CHR ''C'' = CHR ''c''" "TOKEN CHR ''L'' = CHR ''l''" "TOKEN CHR ''-'' = CHR ''-''"
  "TOKEN CHR ''o'' = CHR ''o''" "TOKEN CHR ''n'' = CHR ''n''" "TOKEN CHR ''t'' = CHR ''t''"
  "TOKEN CHR ''e'' = CHR ''e''" "TOKEN CHR ''g'' = CHR ''g''" "TOKEN CHR ''h'' = CHR ''h''"
  by (simp_all add: TOKEN_spec token_spec_def IS_ALPHA_def IS_NUM_def LOWER_def of_char_def)

lemma run_length_name:
  assumes "at_header p"
  shows "quiet_run ''Content-Length'' (p, u) =
    Some (p\<lparr>p_state := s_header_field, p_index := 13, header_state := h_content_length\<rparr>,
          u @ map (Got Header_Field) ''Content-Length'')"
proof -
  let ?p1 = "p\<lparr>p_index := 0, p_state := s_header_field, header_state := h_C\<rparr>"
  have 1: "quiet_exec 4 CHR ''C'' (p, u) = Some (?p1, u @ [Got Header_Field CHR ''C''])"
    using run_name_first [OF assms, of "CHR ''C''" u] by (simp add: TOKEN_letters)
  have "quiet_run ''ontent-Length'' (?p1, u @ [Got Header_Field CHR ''C'']) =
      Some (?p1\<lparr>p_index := 13, header_state := h_content_length\<rparr>,
            (u @ [Got Header_Field CHR ''C'']) @ map (Got Header_Field) ''ontent-Length'')"
    by (simp add: quiet_simps at_s_header_field_def header_name_char_def match_char_def TOKEN_letters
        CONTENT_LENGTH_def c_str_def Let_def)
  then show ?thesis by (simp only: quiet_step [OF 1]) simp
qed

lemma run_length_header:
  assumes "at_header p" and "n < 2 ^ 32 - 1"
  shows "quiet_run (header_line (length_header n)) (p, u) =
    Some (p\<lparr>p_state := s_header_value_lws, header_state := h_content_length, p_index := 0,
            content_length := word_of_nat n\<rparr>, u @ header_events (length_header n))"
proof -
  let ?p1 = "p\<lparr>p_state := s_header_field, p_index := 13, header_state := h_content_length\<rparr>"
  let ?p2 = "?p1\<lparr>p_state := s_header_value_start\<rparr>"
  let ?p3 = "?p2\<lparr>p_state := s_header_value, p_index := 0, content_length := word_of_nat n\<rparr>"
  let ?u1 = "u @ map (Got Header_Field) ''Content-Length''"
  let ?u2 = "?u1 @ map (Got Header_Value) (decimal n)"
  have 2: "quiet_run '': '' (?p1, ?u1) = Some (?p2, ?u1)" by (rule run_colon) simp
  have 3: "quiet_run (decimal n) (?p2, ?u1) = Some (?p3, ?u2)"
    using run_decimal [OF assms(2), of ?p2 ?u1] by simp
  have 4: "quiet_run crlf (?p3, ?u2) = Some (?p3\<lparr>p_state := s_header_value_lws\<rparr>, ?u2)"
    by (rule run_value_end) simp_all
  have "quiet_run (''Content-Length'' @ '': '' @ decimal n @ crlf) (p, u) =
      Some (?p3\<lparr>p_state := s_header_value_lws\<rparr>, ?u2)"
    by (rule quiet_append [OF run_length_name [OF assms(1)]], rule quiet_append [OF 2],
        rule quiet_append [OF 3], rule 4)
  then show ?thesis by (simp add: header_line_def length_header_def header_events_def)
qed

end
