(* ===== verification/Http_Roundtrip.thy ===== *)
theory Http_Roundtrip
  imports Http_Request
begin

text \<open>
  Requests as wholes: rendering a sequence of requests and parsing it back, however the bytes
  are cut into reads.
\<close>

section \<open>Rendering\<close>

record http_request =
  req_method :: http_method
  req_target :: "byte list"
  req_headers :: "header list"
  req_body :: "byte list"

text \<open>A request with a body announces it in a last header.\<close>

definition all_headers :: "http_request \<Rightarrow> header list" where
  "all_headers r = req_headers r @ (if req_body r = [] then [] else [length_header (length (req_body r))])"

definition request_head :: "http_request \<Rightarrow> byte list" where
  "request_head r = method_strings (req_method r) @ '' '' @ req_target r @ '' HTTP/1.1'' @ crlf
     @ concat (map header_line (all_headers r)) @ crlf"

definition render_request :: "http_request \<Rightarrow> byte list" where
  "render_request r = request_head r @ req_body r"

definition request_events :: "http_request \<Rightarrow> http_event list" where
  "request_events r = [Saw Message_Begin] @ map (Got Url) (req_target r)
     @ concat (map header_events (all_headers r)) @ [Headers]
     @ map (Got Body) (req_body r) @ [Saw Message_Complete]"

text \<open>
  \<^verbatim>\<open>CONNECT\<close> switches the protocol and is left out; the head must fit the 8 KB that the parser
  allows, the body length the 32-bit counter.
\<close>

definition valid_request :: "http_request \<Rightarrow> bool" where
  "valid_request r \<longleftrightarrow> req_method r \<noteq> HTTP_CONNECT \<and> valid_target (req_target r)
     \<and> list_all valid_header (req_headers r)
     \<and> length (request_head r) \<le> 8192 \<and> length (req_body r) < 2 ^ 32 - 1"

text \<open>A parser between two requests.\<close>

definition ready :: "http_parser \<Rightarrow> bool" where
  "ready p \<longleftrightarrow> p_state p = s_start_req \<and> p_type p = HTTP_REQUEST \<and> nread p = 0
     \<and> http_errno p = HPE_OK \<and> \<not> upgrade p"

section \<open>Parsing the head\<close>

lemma run_headers:
  assumes "at_header p" and "list_all valid_header hs"
  shows "\<exists>s h i. quiet_run (concat (map header_line hs)) (p, u) =
      Some (p\<lparr>p_state := s, header_state := h, p_index := i\<rparr>, u @ concat (map header_events hs))
    \<and> (s = s_header_field_start \<or> s = s_header_value_lws)"
  using assms
proof (induction hs arbitrary: p u)
  case Nil
  then show ?case
    by (auto simp: at_header_def intro!: exI [of _ "p_state p"] exI [of _ "header_state p"] exI [of _ "p_index p"])
next
  case (Cons h hs)
  let ?p = "p\<lparr>p_state := s_header_value_lws, header_state := h_general, p_index := 0\<rparr>"
  have 1: "quiet_run (header_line h) (p, u) = Some (?p, u @ header_events h)"
    using Cons.prems by (intro run_header) auto
  have "at_header ?p" by (simp add: at_header_def)
  then obtain s k i where 2: "quiet_run (concat (map header_line hs)) (?p, u @ header_events h) =
      Some (?p\<lparr>p_state := s, header_state := k, p_index := i\<rparr>,
            (u @ header_events h) @ concat (map header_events hs))"
    and s: "s = s_header_field_start \<or> s = s_header_value_lws"
    using Cons.IH [of ?p "u @ header_events h"] Cons.prems by auto
  have "quiet_run (header_line h @ concat (map header_line hs)) (p, u) =
      Some (?p\<lparr>p_state := s, header_state := k, p_index := i\<rparr>,
            (u @ header_events h) @ concat (map header_events hs))"
    by (rule quiet_append [OF 1 2])
  then show ?case using s by (intro exI conjI) auto
qed

lemma run_head_cr:
  assumes "at_header p"
  shows "quiet_run [CR] (p, u) = Some (p\<lparr>p_state := s_headers_almost_done\<rparr>, u)"
  using assms
  by (auto simp: at_header_def quiet_simps quiet_exec_3 at_s_header_field_start_def
      at_s_header_value_lws_def)

text \<open>The head up to its last byte leaves the parser before the end of the headers.\<close>

lemma run_head:
  assumes "valid_request r" and "ready p"
  shows "\<exists>h i. quiet_run (butlast (request_head r)) (p, u) =
    Some (p\<lparr>p_flags := 0, p_method := req_method r, http_major := 1, http_minor := 1,
            content_length := (if req_body r = [] then HTTP_UINT32_MAX else word_of_nat (length (req_body r))),
            p_state := s_headers_almost_done, header_state := h, p_index := i\<rparr>,
          u @ [Saw Message_Begin] @ map (Got Url) (req_target r) @ concat (map header_events (all_headers r)))"
proof -
  let ?m = "method_strings (req_method r) @ '' ''"
  let ?p1 = "p\<lparr>p_flags := 0, content_length := HTTP_UINT32_MAX, p_method := req_method r,
      p_index := word_of_nat (length (method_strings (req_method r)) + 1), p_state := s_req_spaces_before_url\<rparr>"
  let ?u1 = "u @ [Saw Message_Begin]"
  have 1: "quiet_run ?m (p, u) = Some (?p1, ?u1)"
    using assms(2) by (intro run_method) (simp add: ready_def)
  let ?u2 = "?u1 @ map (Got Url) (req_target r)"
  obtain s where s: "s \<in> path_states"
    and 2: "quiet_run (req_target r) (?p1, ?u1) = Some (?p1\<lparr>p_state := s\<rparr>, ?u2)"
    using run_target [of ?p1 "req_target r" ?u1] assms(1) by (auto simp: valid_request_def)
  let ?p3 = "?p1\<lparr>p_state := s, http_major := 1, http_minor := 1, p_state := s_header_field_start\<rparr>"
  have 3: "quiet_run ('' HTTP/1.1'' @ crlf) (?p1\<lparr>p_state := s\<rparr>, ?u2) = Some (?p3, ?u2)"
    by (rule run_version) (use s in simp)
  let ?u4 = "?u2 @ concat (map header_events (req_headers r))"
  have "at_header ?p3" by (simp add: at_header_def)
  then obtain s4 h i where 4: "quiet_run (concat (map header_line (req_headers r))) (?p3, ?u2) =
      Some (?p3\<lparr>p_state := s4, header_state := h, p_index := i\<rparr>, ?u4)"
    and s4: "s4 = s_header_field_start \<or> s4 = s_header_value_lws"
    using run_headers [of ?p3 "req_headers r" ?u2] assms(1) by (auto simp: valid_request_def)
  let ?p4 = "?p3\<lparr>p_state := s4, header_state := h, p_index := i\<rparr>"
  have at4: "at_header ?p4" using s4 by (auto simp: at_header_def)
  have bl: "butlast (request_head r) = ?m @ req_target r @ ('' HTTP/1.1'' @ crlf)
      @ concat (map header_line (all_headers r)) @ [CR]"
    by (simp add: request_head_def butlast_append)
  show ?thesis
  proof (cases "req_body r = []")
    case True
    have "quiet_run (butlast (request_head r)) (p, u) = Some (?p4\<lparr>p_state := s_headers_almost_done\<rparr>, ?u4)"
      unfolding bl
      by (rule quiet_append [OF 1], rule quiet_append [OF 2], rule quiet_append [OF 3],
          rule quiet_append [where ?s1.0 = "(?p4, ?u4)"])
        (use 4 True run_head_cr [OF at4] in \<open>simp_all add: all_headers_def del: quiet_run.simps\<close>)
    then show ?thesis
      using True assms(2) by (intro exI [of _ h] exI [of _ i]) (simp add: all_headers_def)
  next
    case False
    let ?n = "length (req_body r)"
    let ?p5 = "?p4\<lparr>p_state := s_header_value_lws, header_state := h_content_length, p_index := 0,
        content_length := word_of_nat ?n\<rparr>"
    let ?u5 = "?u4 @ header_events (length_header ?n)"
    have n: "?n < 2 ^ 32 - 1" using assms(1) by (simp add: valid_request_def)
    have 5: "quiet_run (header_line (length_header ?n)) (?p4, ?u4) = Some (?p5, ?u5)"
      by (rule run_length_header [OF at4 n])
    have 6: "quiet_run [CR] (?p5, ?u5) = Some (?p5\<lparr>p_state := s_headers_almost_done\<rparr>, ?u5)"
      by (rule run_head_cr) (simp add: at_header_def)
    have hs: "concat (map header_line (all_headers r)) @ [CR] =
        concat (map header_line (req_headers r)) @ header_line (length_header ?n) @ [CR]"
      using False by (simp add: all_headers_def)
    have "quiet_run (butlast (request_head r)) (p, u) = Some (?p5\<lparr>p_state := s_headers_almost_done\<rparr>, ?u5)"
      unfolding bl hs
      by (rule quiet_append [OF 1], rule quiet_append [OF 2], rule quiet_append [OF 3],
          rule quiet_append [OF 4], rule quiet_append [OF 5], rule 6)
    then show ?thesis
      using False assms(2) by (intro exI [of _ h_content_length] exI [of _ 0]) (simp add: all_headers_def)
  qed
qed

section \<open>The end of the head and the body\<close>

lemma ref_end_of_head:
  assumes "p_state p = s_headers_almost_done" and "p_flags p = 0" and "p_method p \<noteq> HTTP_CONNECT"
    and "p_type p = HTTP_REQUEST" and "http_major p = 1" "http_minor p = 1" and "unat (nread p) < 8192"
  shows "ref_byte recorder LF (p, u) = Some
    (if content_length p = HTTP_UINT32_MAX \<or> content_length p = 0
     then (p\<lparr>p_state := s_start_req, upgrade := False, nread := 0\<rparr>, u @ [Headers, Saw Message_Complete])
     else (p\<lparr>p_state := s_body_identity, upgrade := False, nread := 0\<rparr>, u @ [Headers]))"
proof -
  have inc: "unat (nread p + 1) = unat (nread p) + 1"
    using assms(7) by (subst unat_add_small) simp_all
  have c: "count_byte p = p\<lparr>nread := nread p + 1\<rparr>"
    using assms(1) by (simp add: count_byte_def up_to_headers_done_def)
  have o: "\<not> header_overflow (p\<lparr>nread := nread p + 1\<rparr>)"
    using assms(7) inc by (simp add: header_overflow_def HTTP_MAX_HEADER_SIZE_def word_less_nat_alt)
  have ka: "NEW_MESSAGE (p\<lparr>p_state := s, upgrade := False, nread := 0\<rparr>) = s_start_req" for s
    using assms
    by (simp add: NEW_MESSAGE_def start_state_def http_should_keep_alive_def http_message_needs_eof_def)
  have 3: "ref_exec 3 recorder LF (q, w) = (let (p1, a) = exec_state (p_state q) q LF 1 in
     (case ref_action recorder LF a p1 w (collects (p_state q)) of
        None \<Rightarrow> None
      | Some (again, p2, u2) \<Rightarrow> if again then ref_exec 2 recorder LF (p2, u2) else Some (p2, u2)))" for q w
    by (simp add: eval_nat_numeral split_beta Let_def split: option.splits)
  show ?thesis
    using assms ka
    by (simp add: ref_byte_def c o ref_exec_4 3 collects_states at_s_headers_almost_done_def
        at_s_headers_done_def STRICT_CHECK_def recorder_simps Let_def del: ref_exec.simps)
qed

lemma ref_run_single: "ref_run st [x] s = ref_byte st x s"
  by (cases "ref_byte st x s") simp_all

lemma ref_request_body:
  assumes "p_state p = s_body_identity" and "p_type p = HTTP_REQUEST" and "p_flags p = 0"
    and "http_major p = 1" "http_minor p = 1" and "bs \<noteq> []" "unat (content_length p) = length bs"
  shows "ref_run recorder bs (p, u) =
    Some (p\<lparr>content_length := 0, p_state := s_start_req\<rparr>, u @ map (Got Body) bs @ [Saw Message_Complete])"
proof -
  have ka: "NEW_MESSAGE (p\<lparr>content_length := 0, p_state := s_message_done\<rparr>) = s_start_req"
    using assms
    by (simp add: NEW_MESSAGE_def start_state_def http_should_keep_alive_def http_message_needs_eof_def)
  have "collects s_message_done = None" by (simp add: collects_def url_states_def)
  then have "ref_body_end recorder p w =
      Some (p\<lparr>content_length := 0, p_state := s_start_req\<rparr>, w @ [Saw Message_Complete])" for w
    using assms(1) ka
    by (simp add: ref_body_end_def eval_nat_numeral at_s_message_done_def recorder_simps Let_def)
  then show ?thesis
    using ref_run_body [OF accumulates_recorder _ assms(6), of p u p] assms(1,7)
    by (simp add: put_recorder)
qed

text \<open>A head that has been parsed up to its last byte, its end, and a body of the announced length.\<close>

lemma ref_head_and_body:
  assumes q: "quiet_run pre (p, u) = Some (p\<lparr>p_flags := 0, p_method := m, http_major := 1, http_minor := 1,
      content_length := c, p_state := s_headers_almost_done, header_state := h, p_index := i\<rparr>, u1)"
    and n: "length pre < 8192" and p: "ready p" and m: "m \<noteq> HTTP_CONNECT" and len: "length bs < 2 ^ 32 - 1"
    and c: "if bs = [] then c = HTTP_UINT32_MAX \<or> c = 0 else c = word_of_nat (length bs)"
  shows "\<exists>p'. ref_run recorder (pre @ [LF] @ bs) (p, u) =
      Some (p', u1 @ [Headers] @ map (Got Body) bs @ [Saw Message_Complete]) \<and> ready p' \<and> p_method p' = m"
proof -
  let ?p1 = "p\<lparr>p_flags := 0, p_method := m, http_major := 1, http_minor := 1,
      content_length := c, p_state := s_headers_almost_done, header_state := h, p_index := i\<rparr>"
  let ?p2 = "?p1\<lparr>nread := word_of_nat (length pre)\<rparr>"
  have "p\<lparr>nread := word_of_nat 0\<rparr> = p" using p by (simp add: ready_def)
  then have 1: "ref_run recorder pre (p, u) = Some (?p2, u1)"
    using quiet_run_ref [OF q, of 0] n by simp
  have un: "unat (word_of_nat (length pre) :: u32) < 8192" using n by (subst unat_u32_of_nat) simp_all
  have 2: "ref_byte recorder LF (?p2, u1) = Some
    (if c = HTTP_UINT32_MAX \<or> c = 0
     then (?p2\<lparr>p_state := s_start_req, upgrade := False, nread := 0\<rparr>, u1 @ [Headers, Saw Message_Complete])
     else (?p2\<lparr>p_state := s_body_identity, upgrade := False, nread := 0\<rparr>, u1 @ [Headers]))"
    using ref_end_of_head [of ?p2 u1] un p m by (simp add: ready_def)
  have head: "ref_run recorder (pre @ [LF]) (p, u) = ref_byte recorder LF (?p2, u1)"
    by (simp add: ref_run_append 1 ref_run_single del: ref_run.simps(2))
  show ?thesis
  proof (cases "bs = []")
    case True
    then show ?thesis using head 2 c p by (auto simp: ready_def)
  next
    case False
    have uc: "unat c = length bs" using c False len by simp
    moreover have "unat HTTP_UINT32_MAX = 2 ^ 32 - 1"
      by (simp add: HTTP_UINT32_MAX_def unsigned_minus_1_eq_mask mask_eq_exp_minus_1)
    ultimately have c0: "c \<noteq> HTTP_UINT32_MAX" "c \<noteq> 0" using len False by auto
    let ?p3 = "?p2\<lparr>p_state := s_body_identity, upgrade := False, nread := 0\<rparr>"
    have "ref_run recorder bs (?p3, u1 @ [Headers]) = Some (?p3\<lparr>content_length := 0,
        p_state := s_start_req\<rparr>, (u1 @ [Headers]) @ map (Got Body) bs @ [Saw Message_Complete])"
      by (rule ref_request_body) (use uc p False in \<open>simp_all add: ready_def\<close>)
    moreover have "ref_run recorder ((pre @ [LF]) @ bs) (p, u) = ref_run recorder bs (?p3, u1 @ [Headers])"
      using head 2 c0 by (simp only: ref_run_append) simp
    ultimately show ?thesis using p by (auto simp: ready_def)
  qed
qed

lemma ref_request:
  assumes "valid_request r" and "ready p"
  shows "\<exists>p'. ref_run recorder (render_request r) (p, u) = Some (p', u @ request_events r)
    \<and> ready p' \<and> p_method p' = req_method r"
proof -
  have last: "render_request r = butlast (request_head r) @ [LF] @ req_body r"
    by (simp add: render_request_def request_head_def butlast_append)
  have len: "length (butlast (request_head r)) < 8192"
    using assms(1) by (simp add: valid_request_def request_head_def)
  obtain h i where q: "quiet_run (butlast (request_head r)) (p, u) =
      Some (p\<lparr>p_flags := 0, p_method := req_method r, http_major := 1, http_minor := 1,
            content_length := (if req_body r = [] then HTTP_UINT32_MAX else word_of_nat (length (req_body r))),
            p_state := s_headers_almost_done, header_state := h, p_index := i\<rparr>,
          u @ [Saw Message_Begin] @ map (Got Url) (req_target r) @ concat (map header_events (all_headers r)))"
    using run_head [OF assms, of u] by blast
  show ?thesis
    using ref_head_and_body [OF q len assms(2), of "req_body r"] assms(1)
    by (auto simp: last request_events_def valid_request_def)
qed

lemma ref_requests:
  assumes "list_all valid_request rs" and "ready p"
  shows "\<exists>p'. ref_run recorder (concat (map render_request rs)) (p, u) =
    Some (p', u @ concat (map request_events rs)) \<and> ready p'"
  using assms
proof (induction rs arbitrary: p u)
  case (Cons r rs)
  obtain p1 where 1: "ref_run recorder (render_request r) (p, u) = Some (p1, u @ request_events r)" "ready p1"
    using ref_request [of r p u] Cons.prems by auto
  then show ?case
    using Cons.IH [OF _ 1(2), of "u @ request_events r"] Cons.prems by (auto simp: ref_run_append)
qed simp

lemma ready_init: "ready (http_parser_init HTTP_REQUEST)"
  by (simp add: ready_def http_parser_init_def)

section \<open>Properties\<close>

text \<open>
  C15. A sequence of rendered requests, cut into reads in any way, is reported request by
  request: each begins, hands over its target, its header names and values and its body
  exactly, and completes; afterwards the parser is ready for the next one.
\<close>

theorem http_requests_roundtrip:
  assumes "list_all valid_request rs" and "ready p" and "hp_wf p"
    and "concat cs = concat (map render_request rs)" and "\<forall>c \<in> set cs. c \<noteq> [] \<and> length c < 2 ^ 31"
  shows "\<exists>p'. feed recorder cs (p, u) = Some (p', u @ concat (map request_events rs)) \<and> ready p'"
  using feed_ref_run [OF accumulates_recorder, of p cs u] ref_requests [OF assms(1,2), of u] assms
  by (simp add: ready_def)

definition request_example :: http_request where
  "request_example = \<lparr>req_method = HTTP_POST, req_target = ''/a?b#c'',
     req_headers = [(''Host'', ''x'')], req_body = ''hi''\<rparr>"

lemma valid_request_example: "valid_request request_example"
  by (simp add: valid_request_def request_example_def valid_target_def visible_def valid_header_def
      TOKEN_spec token_spec_def IS_ALPHA_def IS_NUM_def LOWER_def of_char_def request_head_def
      all_headers_def header_line_def length_header_def decimal.simps)

theorem http_requests_roundtrip_witness:
  "\<exists>p'. feed recorder [render_request request_example] (http_parser_init HTTP_REQUEST, []) =
    Some (p', [] @ concat (map request_events [request_example])) \<and> ready p'"
proof (rule http_requests_roundtrip)
  show "list_all valid_request [request_example]" using valid_request_example by simp
  have "length (request_head request_example) \<le> 8192" "length (req_body request_example) = 2"
    using valid_request_example by (simp_all add: valid_request_def request_example_def)
  then show "\<forall>c \<in> set [render_request request_example]. c \<noteq> [] \<and> length c < 2 ^ 31"
    by (auto simp: render_request_def)
qed (simp_all add: ready_init hp_wf_init)

end
