(* ===== verification/Http_Chunked.thy ===== *)
theory Http_Chunked
  imports Http_Roundtrip
begin

text \<open>
  Chunked bodies: rendering and parsing back. And some inputs on which the parser does not do
  what it means to.
\<close>

section \<open>Hexadecimal sizes\<close>

definition hex_char :: "nat \<Rightarrow> byte" where
  "hex_char d = ''0123456789abcdef'' ! d"

fun hexadecimal :: "nat \<Rightarrow> byte list" where
  "hexadecimal n = (if n < 16 then [hex_char n] else hexadecimal (n div 16) @ [hex_char (n mod 16)])"

declare hexadecimal.simps [simp del]

lemma hex_char_value:
  assumes "d < 16"
  shows "unhex_val (hex_char d) = int d" and "hex_char d \<noteq> CR"
proof -
  have "d \<in> set [0..<16]" using assms by simp
  then have "d = 0 \<or> d = 1 \<or> d = 2 \<or> d = 3 \<or> d = 4 \<or> d = 5 \<or> d = 6 \<or> d = 7 \<or> d = 8 \<or> d = 9
      \<or> d = 10 \<or> d = 11 \<or> d = 12 \<or> d = 13 \<or> d = 14 \<or> d = 15"
    using assms by presburger
  then have "unhex_val (hex_char d) = int d \<and> hex_char d \<noteq> CR"
    by (elim disjE; simp add: unhex_spec hex_spec_def hex_char_def IS_NUM_def IS_ALPHA_def LOWER_def
        of_char_def eval_nat_numeral)
  then show "unhex_val (hex_char d) = int d" and "hex_char d \<noteq> CR" by simp_all
qed

lemma chunk_size_step:
  assumes "16 * c + d < 2 ^ 32 - 1" and "d < 16"
  shows "(word_of_nat c :: u32) * 16 + word_of_nat d = word_of_nat (16 * c + d)"
    and "\<not> (word_of_nat (16 * c + d) < (word_of_nat c :: u32))"
    and "(word_of_nat (16 * c + d) :: u32) \<noteq> HTTP_UINT32_MAX"
proof -
  show "(word_of_nat c :: u32) * 16 + word_of_nat d = word_of_nat (16 * c + d)" by simp
  have u: "unat (word_of_nat (16 * c + d) :: u32) = 16 * c + d" "unat (word_of_nat c :: u32) = c"
    using assms by (intro unat_u32_of_nat; simp)+
  then show "\<not> (word_of_nat (16 * c + d) < (word_of_nat c :: u32))"
    by (simp add: word_less_nat_alt)
  have "unat HTTP_UINT32_MAX = 2 ^ 32 - 1"
    by (simp add: HTTP_UINT32_MAX_def unsigned_minus_1_eq_mask mask_eq_exp_minus_1)
  then show "(word_of_nat (16 * c + d) :: u32) \<noteq> HTTP_UINT32_MAX"
    using u assms(1) by (metis less_irrefl)
qed

lemma chunk_states:
  "counted s_chunk_size_start" "counted s_chunk_size"
  "collects s_chunk_size_start = None" "collects s_chunk_size = None"
  "collects s_chunk_size_almost_done = None" "collects s_chunk_data_done = None"
  "collects s_chunk_data_almost_done = Some Body"
  by (simp_all add: counted_def up_to_headers_done_def resets_def collects_def url_states_def)

lemma run_hexadecimal:
  assumes "n < 2 ^ 32 - 1" and "p_state p = s_chunk_size_start"
  shows "quiet_run (hexadecimal n) (p, u) =
    Some (p\<lparr>content_length := word_of_nat n, p_state := s_chunk_size\<rparr>, u)"
  using assms
proof (induction n rule: hexadecimal.induct)
  case (1 n)
  show ?case
  proof (cases "n < 16")
    case True
    then show ?thesis
      using hex_char_value [OF True] 1(3)
      by (simp add: hexadecimal.simps [of n] quiet_simps chunk_states at_s_chunk_size_start_def)
  next
    case False
    let ?q = "p\<lparr>content_length := word_of_nat (n div 16), p_state := s_chunk_size\<rparr>"
    have IH: "quiet_run (hexadecimal (n div 16)) (p, u) = Some (?q, u)"
      using 1 False by simp
    have n: "16 * (n div 16) + n mod 16 < 2 ^ 32 - 1" "n mod 16 < 16" using 1(2) by simp_all
    have "quiet_exec 4 (hex_char (n mod 16)) (?q, u) = Some (?q\<lparr>content_length := word_of_nat n\<rparr>, u)"
      using hex_char_value [OF n(2)] chunk_size_step [OF n]
      by (simp add: quiet_simps chunk_states at_s_chunk_size_def Let_def)
    then have "quiet_run [hex_char (n mod 16)] (?q, u) = Some (?q\<lparr>content_length := word_of_nat n\<rparr>, u)"
      by simp
    then have "quiet_run (hexadecimal (n div 16) @ [hex_char (n mod 16)]) (p, u) =
        Some (?q\<lparr>content_length := word_of_nat n\<rparr>, u)"
      by (rule quiet_append [OF IH])
    then show ?thesis using False by (simp add: hexadecimal.simps [of n])
  qed
qed

lemma length_hexadecimal: "n < 16 ^ k \<Longrightarrow> 0 < k \<Longrightarrow> length (hexadecimal n) \<le> k"
proof (induction k arbitrary: n)
  case (Suc k)
  show ?case
  proof (cases "n < 16")
    case True
    then show ?thesis by (simp add: hexadecimal.simps [of n])
  next
    case False
    then have "0 < k" using Suc.prems by (cases k) auto
    moreover have "n div 16 < 16 ^ k" using Suc.prems by auto
    ultimately show ?thesis using Suc.IH [of "n div 16"] False by (simp add: hexadecimal.simps [of n])
  qed
qed simp

section \<open>Chunks\<close>

definition render_chunk :: "byte list \<Rightarrow> byte list" where
  "render_chunk d = hexadecimal (length d) @ crlf @ d @ crlf"

definition last_chunk :: "byte list" where "last_chunk = ''0'' @ crlf @ crlf"

text \<open>The parser where a chunk begins.\<close>

definition at_chunk :: "http_parser \<Rightarrow> bool" where
  "at_chunk p \<longleftrightarrow> p_state p = s_chunk_size_start \<and> nread p = 0 \<and> http_errno p = HPE_OK \<and> \<not> upgrade p"

lemma ref_size_line:
  assumes "at_chunk p" and "n < 2 ^ 32 - 1"
  shows "ref_run recorder (hexadecimal n @ crlf) (p, u) =
    Some (if n = 0
          then p\<lparr>content_length := 0, p_state := s_header_field_start, p_flags := p_flags p OR F_TRAILING\<rparr>
          else p\<lparr>content_length := word_of_nat n, p_state := s_chunk_data\<rparr>, u)"
proof -
  let ?k = "length (hexadecimal n) + 1"
  have k: "?k \<le> 9" using length_hexadecimal [of n 8] assms(2) by simp
  let ?q = "p\<lparr>content_length := word_of_nat n, p_state := s_chunk_size_almost_done\<rparr>"
  have "quiet_run (hexadecimal n @ [CR]) (p, u) = Some (?q, u)"
    by (rule quiet_append [OF run_hexadecimal])
      (use assms in \<open>simp_all add: at_chunk_def quiet_simps chunk_states at_s_chunk_size_def\<close>)
  moreover have "p\<lparr>nread := word_of_nat 0\<rparr> = p" using assms(1) by (simp add: at_chunk_def)
  ultimately have 1: "ref_run recorder (hexadecimal n @ [CR]) (p, u) = Some (?q\<lparr>nread := word_of_nat ?k\<rparr>, u)"
    using quiet_run_ref [of "hexadecimal n @ [CR]" p u ?q u 0] k by simp
  have "unat (word_of_nat ?k + 1 :: u32) \<le> 10"
  proof -
    have "word_of_nat ?k + 1 = (word_of_nat (?k + 1) :: u32)" by simp
    moreover have "unat (word_of_nat (?k + 1) :: u32) = ?k + 1" using k by (intro unat_u32_of_nat) simp
    ultimately show ?thesis using k by (simp only:)
  qed
  then have no: "\<not> header_overflow (?q\<lparr>nread := word_of_nat ?k + 1\<rparr>)"
    by (simp add: header_overflow_def HTTP_MAX_HEADER_SIZE_def word_less_nat_alt)
  have z: "word_of_nat n = (0 :: u32) \<longleftrightarrow> n = 0"
  proof -
    have "unat (word_of_nat n :: u32) = n" using assms(2) by (intro unat_u32_of_nat) simp
    then show ?thesis by (auto simp: word_unat_eq_iff)
  qed
  define c r :: u32 where "c = word_of_nat n" and "r = word_of_nat ?k"
  have "ref_byte recorder LF (p\<lparr>content_length := c, p_state := s_chunk_size_almost_done, nread := r\<rparr>, u) =
    Some (if n = 0
          then p\<lparr>content_length := 0, p_state := s_header_field_start, p_flags := p_flags p OR F_TRAILING\<rparr>
          else p\<lparr>content_length := c, p_state := s_chunk_data\<rparr>, u)"
    using no [folded c_def r_def] z [folded c_def] assms(1)
    by (simp add: ref_byte_def count_byte_def up_to_headers_done_def ref_exec_4 chunk_states collects_states
        at_s_chunk_size_almost_done_def
        STRICT_CHECK_def recorder_simps Let_def at_chunk_def add.commute del: ref_exec.simps)
  note this [unfolded c_def r_def]
  then show ?thesis
    using 1 ref_run_append [of recorder "hexadecimal n @ [CR]" "[LF]" "(p, u)"]
    by (simp add: ref_run_single del: ref_run.simps(2))
qed

lemma ref_append: "ref_run st a s = Some s1 \<Longrightarrow> ref_run st b s1 = r \<Longrightarrow> ref_run st (a @ b) s = r"
  by (simp add: ref_run_append)

lemma ref_chunk_end_cr:
  assumes "p_state p = s_chunk_data_almost_done" and "nread p = 0"
  shows "ref_byte recorder CR (p, u) = Some (p\<lparr>p_state := s_chunk_data_done\<rparr>, u)"
  using assms
  by (simp add: ref_byte_def count_byte_def header_overflow_def HTTP_MAX_HEADER_SIZE_def up_to_headers_done_def
      ref_exec_4 chunk_states
      at_s_chunk_data_almost_done_def STRICT_CHECK_def recorder_simps Let_def del: ref_exec.simps)

lemma ref_chunk_end_lf:
  assumes "p_state p = s_chunk_data_done" and "nread p = 0"
  shows "ref_byte recorder LF (p, u) = Some (p\<lparr>p_state := s_chunk_size_start\<rparr>, u)"
  using assms
  by (simp add: ref_byte_def count_byte_def header_overflow_def HTTP_MAX_HEADER_SIZE_def up_to_headers_done_def
      ref_exec_4 chunk_states
      at_s_chunk_data_done_def STRICT_CHECK_def recorder_simps Let_def del: ref_exec.simps)

lemma ref_chunk_end:
  assumes "p_state p = s_chunk_data_almost_done" and "nread p = 0"
  shows "ref_run recorder crlf (p, u) = Some (p\<lparr>p_state := s_chunk_size_start\<rparr>, u)"
  using ref_chunk_end_cr [OF assms, of u] ref_chunk_end_lf [of "p\<lparr>p_state := s_chunk_data_done\<rparr>" u] assms(2)
  by simp

lemma ref_chunk:
  assumes "at_chunk p" and "d \<noteq> []" and "length d < 2 ^ 32 - 1"
  shows "ref_run recorder (render_chunk d) (p, u) =
    Some (p\<lparr>content_length := 0, p_state := s_chunk_size_start\<rparr>, u @ map (Got Body) d)"
proof -
  let ?q = "p\<lparr>content_length := word_of_nat (length d), p_state := s_chunk_data\<rparr>"
  let ?r = "p\<lparr>content_length := 0, p_state := s_chunk_data_almost_done\<rparr>"
  have 1: "ref_run recorder (hexadecimal (length d) @ crlf) (p, u) = Some (?q, u)"
    using ref_size_line [OF assms(1,3)] assms(2) by simp
  have "unat (word_of_nat (length d) :: u32) = length d" using assms(3) by (intro unat_u32_of_nat) simp
  then have 2: "ref_run recorder d (?q, u) = Some (?r, u @ map (Got Body) d)"
    using ref_run_body [OF accumulates_recorder _ assms(2), of ?q u p]
    by (simp add: put_recorder ref_body_end_def)
  have 3: "ref_run recorder crlf (?r, w) = Some (?r\<lparr>p_state := s_chunk_size_start\<rparr>, w)" for w
    by (rule ref_chunk_end) (use assms(1) in \<open>simp_all add: at_chunk_def\<close>)
  have "ref_run recorder ((hexadecimal (length d) @ crlf) @ d @ crlf) (p, u) =
      Some (?r\<lparr>p_state := s_chunk_size_start\<rparr>, u @ map (Got Body) d)"
    by (rule ref_append [OF 1], rule ref_append [OF 2], rule 3)
  then show ?thesis by (simp add: render_chunk_def)
qed

lemma ref_chunks:
  assumes "at_chunk p" and "list_all (\<lambda>d. d \<noteq> [] \<and> length d < 2 ^ 32 - 1) ds"
  shows "\<exists>c. ref_run recorder (concat (map render_chunk ds)) (p, u) =
    Some (p\<lparr>content_length := c\<rparr>, u @ map (Got Body) (concat ds))"
  using assms
proof (induction ds arbitrary: p u)
  case Nil
  then show ?case by (auto intro: exI [of _ "content_length p"])
next
  case (Cons d ds)
  let ?p = "p\<lparr>content_length := 0\<rparr>"
  have "p\<lparr>content_length := 0, p_state := s_chunk_size_start\<rparr> = ?p"
    using Cons.prems(1) by (simp add: at_chunk_def)
  then have 1: "ref_run recorder (render_chunk d) (p, u) = Some (?p, u @ map (Got Body) d)"
    using ref_chunk [OF Cons.prems(1), of d u] Cons.prems(2) by simp
  have "at_chunk ?p" using Cons.prems(1) by (simp add: at_chunk_def)
  then obtain c where "ref_run recorder (concat (map render_chunk ds)) (?p, u @ map (Got Body) d) =
      Some (?p\<lparr>content_length := c\<rparr>, (u @ map (Got Body) d) @ map (Got Body) (concat ds))"
    using Cons.IH [of ?p "u @ map (Got Body) d"] Cons.prems(2) by auto
  then show ?case using 1 by (auto simp: ref_run_append)
qed

lemma ref_last_chunk:
  assumes "at_chunk p"
  shows "\<exists>p'. ref_run recorder last_chunk (p, u) = Some (p', u @ [Saw Message_Complete])
    \<and> p_state p' \<in> {s_dead, s_start_req, s_start_res}"
proof -
  let ?q = "p\<lparr>content_length := 0, p_state := s_header_field_start, p_flags := p_flags p OR F_TRAILING\<rparr>"
  have "hexadecimal 0 = ''0''" by (simp add: hexadecimal.simps hex_char_def)
  then have 1: "ref_run recorder (''0'' @ crlf) (p, u) = Some (?q, u)"
    using ref_size_line [OF assms, of 0 u] by simp
  let ?r = "?q\<lparr>nread := 1, p_state := s_headers_almost_done\<rparr>"
  have n0: "nread p = 0" using assms by (simp add: at_chunk_def)
  have cr: "ref_byte recorder CR (?q, u) = Some (?r, u)"
    using n0 by (simp add: ref_byte_def count_byte_def header_overflow_def up_to_headers_done_def ref_exec_4
        collects_states at_s_header_field_start_def HTTP_MAX_HEADER_SIZE_def recorder_simps Let_def
        del: ref_exec.simps)
  have tr: "(p_flags p OR F_TRAILING) AND F_TRAILING \<noteq> 0"
    by (simp add: F_TRAILING_def word_ao_absorbs)
  have lf: "ref_byte recorder LF (?r, u) =
      Some (?r\<lparr>nread := 2, p_state := NEW_MESSAGE (?r\<lparr>nread := 2\<rparr>)\<rparr>, u @ [Saw Message_Complete])"
    using tr by (simp add: ref_byte_def count_byte_def header_overflow_def up_to_headers_done_def ref_exec_4
        collects_states at_s_headers_almost_done_def STRICT_CHECK_def HTTP_MAX_HEADER_SIZE_def
        recorder_simps Let_def del: ref_exec.simps)
  note cr' = cr [folded ref_run_single] and lf' = lf [folded ref_run_single]
  have "last_chunk = (''0'' @ crlf) @ [CR] @ [LF]" by (simp add: last_chunk_def)
  then have "ref_run recorder last_chunk (p, u) =
      Some (?r\<lparr>nread := 2, p_state := NEW_MESSAGE (?r\<lparr>nread := 2\<rparr>)\<rparr>, u @ [Saw Message_Complete])"
    using ref_append [OF 1 ref_append [OF cr' lf']] by (simp only: append_assoc)
  then show ?thesis using NEW_MESSAGE_cases [of "?r\<lparr>nread := 2\<rparr>"] by (intro exI conjI) auto
qed

section \<open>Properties\<close>

text \<open>
  C16. A chunked body, of any nonempty chunks and cut into reads in any way, is handed over as
  exactly the concatenation of its chunks, and then the message is complete.
\<close>

theorem http_chunked_roundtrip:
  assumes "at_chunk p" and "hp_wf p" and "list_all (\<lambda>d. d \<noteq> [] \<and> length d < 2 ^ 32 - 1) ds"
    and "concat cs = concat (map render_chunk ds) @ last_chunk"
    and "\<forall>c \<in> set cs. c \<noteq> [] \<and> length c < 2 ^ 31"
  shows "\<exists>p'. feed recorder cs (p, u) = Some (p', u @ map (Got Body) (concat ds) @ [Saw Message_Complete])
    \<and> p_state p' \<in> {s_dead, s_start_req, s_start_res}"
proof -
  obtain c where 1: "ref_run recorder (concat (map render_chunk ds)) (p, u) =
      Some (p\<lparr>content_length := c\<rparr>, u @ map (Got Body) (concat ds))"
    using ref_chunks [OF assms(1,3)] by blast
  have "at_chunk (p\<lparr>content_length := c\<rparr>)" using assms(1) by (simp add: at_chunk_def)
  then obtain p' where 2: "ref_run recorder last_chunk (p\<lparr>content_length := c\<rparr>, u @ map (Got Body) (concat ds)) =
      Some (p', (u @ map (Got Body) (concat ds)) @ [Saw Message_Complete])"
    "p_state p' \<in> {s_dead, s_start_req, s_start_res}"
    using ref_last_chunk by blast
  show ?thesis
    using feed_ref_run [OF accumulates_recorder assms(2) _ _ assms(5), of u] assms(1,4) 1 2
    by (simp add: at_chunk_def ref_run_append)
qed

definition chunk_example :: http_parser where
  "chunk_example = (http_parser_init HTTP_RESPONSE)\<lparr>p_state := s_chunk_size_start, p_flags := F_CHUNKED\<rparr>"

theorem http_chunked_roundtrip_witness:
  "\<exists>p'. feed recorder [render_chunk ''hello'' @ last_chunk] (chunk_example, []) =
      Some (p', [] @ map (Got Body) (concat [''hello'']) @ [Saw Message_Complete])
    \<and> p_state p' \<in> {s_dead, s_start_req, s_start_res}"
  by (rule http_chunked_roundtrip)
    (simp_all add: chunk_example_def at_chunk_def http_parser_init_def hp_wf_def render_chunk_def
      hexadecimal.simps last_chunk_def)

text \<open>
  C17. Half of the table \<^verbatim>\<open>unhex\<close> is not initialized: every byte from 128 on starts a chunk
  size as if it were the digit 0, where a byte that is no hexadecimal digit should be refused.
\<close>

theorem http_high_bytes_are_hex_zero:
  assumes "(128 :: nat) \<le> of_char ch"
  shows "at_s_chunk_size_start p ch = (p\<lparr>content_length := 0, p_state := s_chunk_size\<rparr>, Break)"
proof -
  have "\<not> IS_NUM ch" using assms by (auto simp: IS_NUM_def)
  moreover have "\<not> IS_ALPHA ch"
  proof -
    have "list_all (\<lambda>c. IS_ALPHA c \<longrightarrow> (of_char c :: nat) < 128) (enum_class.enum :: byte list)"
      by (simp add: enum_char_def IS_ALPHA_def LOWER_def of_char_def)
    then have "IS_ALPHA ch \<longrightarrow> (of_char ch :: nat) < 128" by (simp add: list_all_iff enum_UNIV)
    then show ?thesis using assms by auto
  qed
  ultimately show ?thesis
    using assms by (simp add: at_s_chunk_size_start_def unhex_spec hex_spec_def)
qed

theorem http_high_bytes_are_hex_zero_witness:
  "at_s_chunk_size_start chunk_example CHR 0x80 =
     (chunk_example\<lparr>content_length := 0, p_state := s_chunk_size\<rparr>, Break)"
  by (rule http_high_bytes_are_hex_zero) (simp add: of_char_def)


end
