(* ===== verification/Multipart.thy ===== *)
theory Multipart
  imports Evnet_Prelude
begin

text \<open>
  The multipart parser (\<^verbatim>\<open>muparser.h\<close>, \<^verbatim>\<open>muparser.c\<close>): its states, the parser with the memory
  that holds the boundary string and the look-behind buffer, the callbacks, one definition per
  \<^verbatim>\<open>case\<close> of \<^verbatim>\<open>multipart_parser_execute\<close>, and the loop.

  The struct is allocated with room for the boundary, its terminator and \<open>boundary_length + 9\<close>
  bytes of look-behind; \<open>area\<close> is this memory from \<^verbatim>\<open>multipart_boundary\<close> on. Reading or writing
  outside it, or reading outside the input, yields \<open>None\<close>. A \<^verbatim>\<open>size_t\<close> is a \<open>nat\<close>: each one
  indexes an object in memory.
\<close>

section \<open>States, parser, callbacks\<close>

datatype mp_state =
    mp_s_uninitialized | mp_s_start | mp_s_start_boundary | mp_s_header_field_start
  | mp_s_header_field | mp_s_headers_almost_done | mp_s_header_value_start
  | mp_s_header_value | mp_s_header_value_almost_done | mp_s_part_data_start
  | mp_s_part_data | mp_s_part_data_almost_boundary | mp_s_part_data_boundary
  | mp_s_part_data_almost_end | mp_s_part_data_end | mp_s_part_data_final_hyphen
  | mp_s_end

record multipart_parser =
  mp_index :: nat
  boundary_length :: nat
  mp_state :: mp_state
  area :: "byte list"

text \<open>
  The parser is opaque outside \<^verbatim>\<open>muparser.c\<close>: a callback can only change what the \<^verbatim>\<open>data\<close> pointer
  leads to, the user state \<open>'u\<close>. It returns its C result beside the new user state.
\<close>

type_synonym 'u multipart_data_cb = "(byte list \<Rightarrow> 'u \<Rightarrow> int \<times> 'u) option"
type_synonym 'u multipart_notify_cb = "('u \<Rightarrow> int \<times> 'u) option"

record 'u multipart_parser_settings =
  mp_on_header_field :: "'u multipart_data_cb"
  mp_on_header_value :: "'u multipart_data_cb"
  mp_on_part_data :: "'u multipart_data_cb"
  mp_on_part_data_begin :: "'u multipart_notify_cb"
  mp_on_headers_complete :: "'u multipart_notify_cb"
  mp_on_part_data_end :: "'u multipart_notify_cb"
  mp_on_body_end :: "'u multipart_notify_cb"

text \<open>
  \<^verbatim>\<open>multipart_parser_init\<close> gets a C string; \<open>junk\<close> is what \<^verbatim>\<open>malloc\<close> left in the memory after
  the string.
\<close>

definition multipart_parser_init :: "byte list \<Rightarrow> byte list \<Rightarrow> multipart_parser" where
  "multipart_parser_init boundary junk =
     \<lparr>mp_index = 0, boundary_length = length boundary, mp_state = mp_s_start,
      area = boundary @ [NUL] @ take (length boundary + 9) junk\<rparr>"

definition lookbehind_at :: "multipart_parser \<Rightarrow> nat" where
  "lookbehind_at p = boundary_length p + 1"

definition set_lookbehind :: "multipart_parser \<Rightarrow> nat \<Rightarrow> byte \<Rightarrow> multipart_parser option" where
  "set_lookbehind p i c = do {
     mem \<leftarrow> mem_write (area p) (lookbehind_at p + i) [c];
     Some (p\<lparr>area := mem\<rparr>)
   }"

definition boundary_char :: "multipart_parser \<Rightarrow> byte option" where
  "boundary_char p = (if mp_index p < length (area p) then Some (area p ! mp_index p) else None)"

section \<open>The cases of the switch\<close>

text \<open>
  How a case is left: by \<^verbatim>\<open>break\<close> to the next byte, with the mark; by \<^verbatim>\<open>mark = i --\<close>, which runs
  the same byte again; by \<^verbatim>\<open>return\<close> of a value.
\<close>

datatype 'u mp_step =
    MNext multipart_parser nat 'u
  | MAgain multipart_parser 'u
  | MReturn nat multipart_parser 'u

definition MP_NOTIFY_CB :: "'u multipart_notify_cb \<Rightarrow> nat \<Rightarrow> multipart_parser \<Rightarrow> 'u
    \<Rightarrow> ('u \<Rightarrow> 'u mp_step option) \<Rightarrow> 'u mp_step option" where
  "MP_NOTIFY_CB cb i p u k = (case cb of
       None \<Rightarrow> k u
     | Some f \<Rightarrow> (case f u of (r, u') \<Rightarrow> if r \<noteq> 0 then Some (MReturn i p u') else k u'))"

definition EMIT_DATA_CB :: "'u multipart_data_cb \<Rightarrow> byte list \<Rightarrow> nat \<Rightarrow> nat \<Rightarrow> nat
    \<Rightarrow> multipart_parser \<Rightarrow> 'u \<Rightarrow> ('u \<Rightarrow> 'u mp_step option) \<Rightarrow> 'u mp_step option" where
  "EMIT_DATA_CB cb mem ptr len i p u k = (case cb of
       None \<Rightarrow> k u
     | Some f \<Rightarrow> do {
         d \<leftarrow> mem_read mem ptr len;
         (case f d u of (r, u') \<Rightarrow> if r \<noteq> 0 then Some (MReturn i p u') else k u')
       })"

definition at_mp_start_boundary :: "'u multipart_parser_settings \<Rightarrow> byte \<Rightarrow> nat \<Rightarrow> nat
    \<Rightarrow> multipart_parser \<Rightarrow> 'u \<Rightarrow> 'u mp_step option" where
  "at_mp_start_boundary st c i mark p u =
     (if mp_index p = boundary_length p then
        if c \<noteq> CR then Some (MReturn i p u)
        else Some (MNext (p\<lparr>mp_index := mp_index p + 1\<rparr>) mark u)
      else if mp_index p = boundary_length p + 1 then
        if c \<noteq> LF then Some (MReturn i p u)
        else let p1 = p\<lparr>mp_index := 0\<rparr>
             in MP_NOTIFY_CB (mp_on_part_data_begin st) i p1 u
                  (\<lambda>u1. Some (MNext (p1\<lparr>mp_state := mp_s_header_field_start\<rparr>) mark u1))
      else do {
        b \<leftarrow> boundary_char p;
        if c \<noteq> b then Some (MReturn i p u)
        else Some (MNext (p\<lparr>mp_index := mp_index p + 1\<rparr>) mark u)
      })"

definition at_mp_start :: "'u multipart_parser_settings \<Rightarrow> byte \<Rightarrow> nat \<Rightarrow> nat
    \<Rightarrow> multipart_parser \<Rightarrow> 'u \<Rightarrow> 'u mp_step option" where
  "at_mp_start st c i mark p u =
     at_mp_start_boundary st c i mark (p\<lparr>mp_index := 0, mp_state := mp_s_start_boundary\<rparr>) u"

definition is_letter :: "byte \<Rightarrow> bool" where
  "is_letter c \<longleftrightarrow> (of_char c :: nat) \<in> {65..90} \<or> (of_char c :: nat) \<in> {97..122}"

definition at_mp_header_field :: "'u multipart_parser_settings \<Rightarrow> byte list \<Rightarrow> byte \<Rightarrow> bool \<Rightarrow> nat \<Rightarrow> nat
    \<Rightarrow> multipart_parser \<Rightarrow> 'u \<Rightarrow> 'u mp_step option" where
  "at_mp_header_field st buf c is_last i mark p u =
     (if c = CR then Some (MNext (p\<lparr>mp_state := mp_s_headers_almost_done\<rparr>) mark u)
      else if c = CHR ''-'' then Some (MNext p mark u)
      else if c = CHR '':'' then
        EMIT_DATA_CB (mp_on_header_field st) buf mark (i - mark) i p u
          (\<lambda>u1. Some (MNext (p\<lparr>mp_state := mp_s_header_value_start\<rparr>) mark u1))
      else if \<not> is_letter c then Some (MReturn i p u)
      else if is_last then
        EMIT_DATA_CB (mp_on_header_field st) buf mark (i - mark + 1) i p u (\<lambda>u1. Some (MNext p mark u1))
      else Some (MNext p mark u))"

definition at_mp_header_field_start :: "'u multipart_parser_settings \<Rightarrow> byte list \<Rightarrow> byte \<Rightarrow> bool \<Rightarrow> nat
    \<Rightarrow> multipart_parser \<Rightarrow> 'u \<Rightarrow> 'u mp_step option" where
  "at_mp_header_field_start st buf c is_last i p u =
     at_mp_header_field st buf c is_last i i (p\<lparr>mp_state := mp_s_header_field\<rparr>) u"

definition at_mp_headers_almost_done :: "byte \<Rightarrow> nat \<Rightarrow> nat \<Rightarrow> multipart_parser \<Rightarrow> 'u \<Rightarrow> 'u mp_step option" where
  "at_mp_headers_almost_done c i mark p u =
     (if c \<noteq> LF then Some (MReturn i p u)
      else Some (MNext (p\<lparr>mp_state := mp_s_part_data_start\<rparr>) mark u))"

text \<open>After the \<^verbatim>\<open>CR\<close> of a value there is no \<^verbatim>\<open>break\<close>: the test of \<^verbatim>\<open>is_last\<close> follows.\<close>

definition at_mp_header_value :: "'u multipart_parser_settings \<Rightarrow> byte list \<Rightarrow> byte \<Rightarrow> bool \<Rightarrow> nat \<Rightarrow> nat
    \<Rightarrow> multipart_parser \<Rightarrow> 'u \<Rightarrow> 'u mp_step option" where
  "at_mp_header_value st buf c is_last i mark p u =
     (let rest = (\<lambda>p1 u1.
        if is_last then
          EMIT_DATA_CB (mp_on_header_value st) buf mark (i - mark + 1) i p1 u1 (\<lambda>u2. Some (MNext p1 mark u2))
        else Some (MNext p1 mark u1))
      in if c = CR then
           EMIT_DATA_CB (mp_on_header_value st) buf mark (i - mark) i p u
             (\<lambda>u1. rest (p\<lparr>mp_state := mp_s_header_value_almost_done\<rparr>) u1)
         else rest p u)"

definition at_mp_header_value_start :: "'u multipart_parser_settings \<Rightarrow> byte list \<Rightarrow> byte \<Rightarrow> bool \<Rightarrow> nat \<Rightarrow> nat
    \<Rightarrow> multipart_parser \<Rightarrow> 'u \<Rightarrow> 'u mp_step option" where
  "at_mp_header_value_start st buf c is_last i mark p u =
     (if c = CHR '' '' then Some (MNext p mark u)
      else at_mp_header_value st buf c is_last i i (p\<lparr>mp_state := mp_s_header_value\<rparr>) u)"

definition at_mp_header_value_almost_done :: "byte \<Rightarrow> nat \<Rightarrow> nat \<Rightarrow> multipart_parser \<Rightarrow> 'u \<Rightarrow> 'u mp_step option" where
  "at_mp_header_value_almost_done c i mark p u =
     (if c \<noteq> LF then Some (MReturn i p u)
      else Some (MNext (p\<lparr>mp_state := mp_s_header_field_start\<rparr>) mark u))"

definition at_mp_part_data :: "'u multipart_parser_settings \<Rightarrow> byte list \<Rightarrow> byte \<Rightarrow> bool \<Rightarrow> nat \<Rightarrow> nat
    \<Rightarrow> multipart_parser \<Rightarrow> 'u \<Rightarrow> 'u mp_step option" where
  "at_mp_part_data st buf c is_last i mark p u =
     (if c = CR then
        EMIT_DATA_CB (mp_on_part_data st) buf mark (i - mark) i p u (\<lambda>u1. do {
          p1 \<leftarrow> set_lookbehind (p\<lparr>mp_state := mp_s_part_data_almost_boundary\<rparr>) 0 CR;
          Some (MNext p1 i u1)
        })
      else if is_last then
        EMIT_DATA_CB (mp_on_part_data st) buf mark (i - mark + 1) i p u (\<lambda>u1. Some (MNext p mark u1))
      else Some (MNext p mark u))"

definition at_mp_part_data_start :: "'u multipart_parser_settings \<Rightarrow> byte list \<Rightarrow> byte \<Rightarrow> bool \<Rightarrow> nat
    \<Rightarrow> multipart_parser \<Rightarrow> 'u \<Rightarrow> 'u mp_step option" where
  "at_mp_part_data_start st buf c is_last i p u =
     MP_NOTIFY_CB (mp_on_headers_complete st) i p u
       (\<lambda>u1. at_mp_part_data st buf c is_last i i (p\<lparr>mp_state := mp_s_part_data\<rparr>) u1)"

definition at_mp_part_data_almost_boundary :: "'u multipart_parser_settings \<Rightarrow> byte \<Rightarrow> nat \<Rightarrow> nat
    \<Rightarrow> multipart_parser \<Rightarrow> 'u \<Rightarrow> 'u mp_step option" where
  "at_mp_part_data_almost_boundary st c i mark p u =
     (if c = LF then do {
        p1 \<leftarrow> set_lookbehind (p\<lparr>mp_state := mp_s_part_data_boundary\<rparr>) 1 LF;
        Some (MNext (p1\<lparr>mp_index := 0\<rparr>) mark u)
      }
      else EMIT_DATA_CB (mp_on_part_data st) (area p) (lookbehind_at p) 1 i p u
             (\<lambda>u1. Some (MAgain (p\<lparr>mp_state := mp_s_part_data\<rparr>) u1)))"

definition at_mp_part_data_boundary :: "'u multipart_parser_settings \<Rightarrow> byte \<Rightarrow> nat \<Rightarrow> nat
    \<Rightarrow> multipart_parser \<Rightarrow> 'u \<Rightarrow> 'u mp_step option" where
  "at_mp_part_data_boundary st c i mark p u = do {
     b \<leftarrow> boundary_char p;
     if b \<noteq> c then
       EMIT_DATA_CB (mp_on_part_data st) (area p) (lookbehind_at p) (2 + mp_index p) i p u
         (\<lambda>u1. Some (MAgain (p\<lparr>mp_state := mp_s_part_data\<rparr>) u1))
     else do {
       p1 \<leftarrow> set_lookbehind p (2 + mp_index p) c;
       let p2 = p1\<lparr>mp_index := mp_index p + 1\<rparr> in
       if mp_index p2 = boundary_length p2 then
         MP_NOTIFY_CB (mp_on_part_data_end st) i p2 u
           (\<lambda>u1. Some (MNext (p2\<lparr>mp_state := mp_s_part_data_almost_end\<rparr>) mark u1))
       else Some (MNext p2 mark u)
     }
   }"

definition at_mp_part_data_almost_end :: "byte \<Rightarrow> nat \<Rightarrow> nat \<Rightarrow> multipart_parser \<Rightarrow> 'u \<Rightarrow> 'u mp_step option" where
  "at_mp_part_data_almost_end c i mark p u =
     (if c = CHR ''-'' then Some (MNext (p\<lparr>mp_state := mp_s_part_data_final_hyphen\<rparr>) mark u)
      else if c = CR then Some (MNext (p\<lparr>mp_state := mp_s_part_data_end\<rparr>) mark u)
      else Some (MReturn i p u))"

definition at_mp_part_data_final_hyphen :: "'u multipart_parser_settings \<Rightarrow> byte \<Rightarrow> nat \<Rightarrow> nat
    \<Rightarrow> multipart_parser \<Rightarrow> 'u \<Rightarrow> 'u mp_step option" where
  "at_mp_part_data_final_hyphen st c i mark p u =
     (if c = CHR ''-'' then
        MP_NOTIFY_CB (mp_on_body_end st) i p u (\<lambda>u1. Some (MNext (p\<lparr>mp_state := mp_s_end\<rparr>) mark u1))
      else Some (MReturn i p u))"

definition at_mp_part_data_end :: "'u multipart_parser_settings \<Rightarrow> byte \<Rightarrow> nat \<Rightarrow> nat
    \<Rightarrow> multipart_parser \<Rightarrow> 'u \<Rightarrow> 'u mp_step option" where
  "at_mp_part_data_end st c i mark p u =
     (if c = LF then
        let p1 = p\<lparr>mp_state := mp_s_header_field_start\<rparr>
        in MP_NOTIFY_CB (mp_on_part_data_begin st) i p1 u (\<lambda>u1. Some (MNext p1 mark u1))
      else Some (MReturn i p u))"

section \<open>The loop\<close>

definition mp_byte :: "'u multipart_parser_settings \<Rightarrow> byte list \<Rightarrow> nat \<Rightarrow> nat
    \<Rightarrow> multipart_parser \<Rightarrow> 'u \<Rightarrow> 'u mp_step option" where
  "mp_byte st buf i mark p u =
     (let c = buf ! i; is_last = (i = length buf - 1)
      in case mp_state p of
        mp_s_start \<Rightarrow> at_mp_start st c i mark p u
      | mp_s_start_boundary \<Rightarrow> at_mp_start_boundary st c i mark p u
      | mp_s_header_field_start \<Rightarrow> at_mp_header_field_start st buf c is_last i p u
      | mp_s_header_field \<Rightarrow> at_mp_header_field st buf c is_last i mark p u
      | mp_s_headers_almost_done \<Rightarrow> at_mp_headers_almost_done c i mark p u
      | mp_s_header_value_start \<Rightarrow> at_mp_header_value_start st buf c is_last i mark p u
      | mp_s_header_value \<Rightarrow> at_mp_header_value st buf c is_last i mark p u
      | mp_s_header_value_almost_done \<Rightarrow> at_mp_header_value_almost_done c i mark p u
      | mp_s_part_data_start \<Rightarrow> at_mp_part_data_start st buf c is_last i p u
      | mp_s_part_data \<Rightarrow> at_mp_part_data st buf c is_last i mark p u
      | mp_s_part_data_almost_boundary \<Rightarrow> at_mp_part_data_almost_boundary st c i mark p u
      | mp_s_part_data_boundary \<Rightarrow> at_mp_part_data_boundary st c i mark p u
      | mp_s_part_data_almost_end \<Rightarrow> at_mp_part_data_almost_end c i mark p u
      | mp_s_part_data_final_hyphen \<Rightarrow> at_mp_part_data_final_hyphen st c i mark p u
      | mp_s_part_data_end \<Rightarrow> at_mp_part_data_end st c i mark p u
      | mp_s_end \<Rightarrow> Some (MNext p mark u)
      | mp_s_uninitialized \<Rightarrow> Some (MReturn 0 p u))"

text \<open>
  A byte is looked at twice at most, so twice the length of the input is enough fuel.
\<close>

fun mp_loop :: "'u multipart_parser_settings \<Rightarrow> byte list \<Rightarrow> nat \<Rightarrow> multipart_parser \<Rightarrow> nat \<Rightarrow> nat \<Rightarrow> 'u
    \<Rightarrow> (nat \<times> multipart_parser \<times> 'u) option" where
  "mp_loop st buf fuel p i mark u =
     (if i < length buf then
        case fuel of
          0 \<Rightarrow> None
        | Suc f \<Rightarrow> (case mp_byte st buf i mark p u of
              None \<Rightarrow> None
            | Some (MNext p1 mark1 u1) \<Rightarrow> mp_loop st buf f p1 (i + 1) mark1 u1
            | Some (MAgain p1 u1) \<Rightarrow> mp_loop st buf f p1 i i u1
            | Some (MReturn n p1 u1) \<Rightarrow> Some (n, p1, u1))
      else Some (length buf, p, u))"

declare mp_loop.simps [simp del]

definition multipart_parser_execute :: "'u multipart_parser_settings \<Rightarrow> multipart_parser \<Rightarrow> byte list \<Rightarrow> 'u
    \<Rightarrow> (nat \<times> multipart_parser \<times> 'u) option" where
  "multipart_parser_execute st p buf u = mp_loop st buf (2 * length buf) p 0 0 u"

end
