(* ===== verification/Multipart_Spec.thy ===== *)
theory Multipart_Spec
  imports Multipart
begin

text \<open>
  What the multipart parser promises: an automaton that looks at one byte at a time and knows
  neither marks nor a look-behind buffer. The lemmas show that every operation stays inside the
  parser's memory, keeps its invariant, and does what the automaton does.
\<close>

section \<open>The invariant\<close>

definition mp_boundary :: "multipart_parser \<Rightarrow> byte list" where
  "mp_boundary p = take (boundary_length p) (area p)"

definition lookbehind :: "multipart_parser \<Rightarrow> byte list" where
  "lookbehind p = drop (lookbehind_at p) (area p)"

text \<open>
  While a delimiter may be arriving, the look-behind buffer holds exactly the bytes of it that
  have been seen.
\<close>

definition mp_wf :: "multipart_parser \<Rightarrow> bool" where
  "mp_wf p \<longleftrightarrow> 0 < boundary_length p \<and> length (area p) = 2 * boundary_length p + 10
     \<and> (mp_state p = mp_s_start_boundary \<longrightarrow> mp_index p \<le> boundary_length p + 1)
     \<and> (mp_state p = mp_s_part_data_almost_boundary \<longrightarrow> take 1 (lookbehind p) = [CR])
     \<and> (mp_state p = mp_s_part_data_boundary \<longrightarrow> mp_index p < boundary_length p
          \<and> take (2 + mp_index p) (lookbehind p) = CR # LF # take (mp_index p) (mp_boundary p))"

definition same_boundary :: "multipart_parser \<Rightarrow> multipart_parser \<Rightarrow> bool" where
  "same_boundary p q \<longleftrightarrow> boundary_length p = boundary_length q \<and> mp_boundary p = mp_boundary q"

lemma same_boundary_refl [simp]: "same_boundary p p"
  by (simp add: same_boundary_def)

lemma same_boundary_trans: "same_boundary p q \<Longrightarrow> same_boundary q r \<Longrightarrow> same_boundary p r"
  by (simp add: same_boundary_def)

lemma area_update_simps [simp]:
  "mp_boundary (p\<lparr>mp_state := s\<rparr>) = mp_boundary p" "mp_boundary (p\<lparr>mp_index := k\<rparr>) = mp_boundary p"
  "lookbehind (p\<lparr>mp_state := s\<rparr>) = lookbehind p" "lookbehind (p\<lparr>mp_index := k\<rparr>) = lookbehind p"
  "lookbehind_at (p\<lparr>mp_state := s\<rparr>) = lookbehind_at p" "lookbehind_at (p\<lparr>mp_index := k\<rparr>) = lookbehind_at p"
  by (simp_all add: mp_boundary_def lookbehind_def lookbehind_at_def)

lemma length_mp_boundary: "mp_wf p \<Longrightarrow> length (mp_boundary p) = boundary_length p"
  by (simp add: mp_wf_def mp_boundary_def)

lemma length_lookbehind: "mp_wf p \<Longrightarrow> length (lookbehind p) = boundary_length p + 9"
  by (simp add: mp_wf_def lookbehind_def lookbehind_at_def)

lemma boundary_char_Some:
  "mp_wf p \<Longrightarrow> mp_index p < boundary_length p \<Longrightarrow> boundary_char p = Some (mp_boundary p ! mp_index p)"
  by (simp add: boundary_char_def mp_boundary_def mp_wf_def)

lemma drop_store:
  assumes "Suc (m + i) \<le> length xs"
  shows "drop m (take (m + i) xs @ [c] @ drop (Suc (m + i)) xs) = take i (drop m xs) @ [c] @ drop (Suc i) (drop m xs)"
  using assms by (simp add: drop_take add.commute)

lemma set_lookbehind_Some:
  assumes "length (area p) = 2 * boundary_length p + 10" and "i < boundary_length p + 9"
  shows "\<exists>mem. set_lookbehind p i c = Some (p\<lparr>area := mem\<rparr>) \<and> length mem = length (area p)
    \<and> mp_boundary (p\<lparr>area := mem\<rparr>) = mp_boundary p
    \<and> lookbehind (p\<lparr>area := mem\<rparr>) = take i (lookbehind p) @ [c] @ drop (Suc i) (lookbehind p)"
proof (intro exI conjI)
  let ?n = "boundary_length p + 1 + i"
  let ?mem = "take ?n (area p) @ [c] @ drop (Suc ?n) (area p)"
  have n: "Suc ?n \<le> length (area p)" using assms by simp
  show "set_lookbehind p i c = Some (p\<lparr>area := ?mem\<rparr>)"
    using n by (simp add: set_lookbehind_def mem_write_def lookbehind_at_def)
  show "length ?mem = length (area p)" using n by simp
  show "mp_boundary (p\<lparr>area := ?mem\<rparr>) = mp_boundary p"
    using n by (simp add: mp_boundary_def)
  have fields: "boundary_length (p\<lparr>area := ?mem\<rparr>) = boundary_length p" "area (p\<lparr>area := ?mem\<rparr>) = ?mem"
    by simp_all
  show "lookbehind (p\<lparr>area := ?mem\<rparr>) = take i (lookbehind p) @ [c] @ drop (Suc i) (lookbehind p)"
    using drop_store [OF n, of c] fields by (simp only: lookbehind_def lookbehind_at_def)
qed

text \<open>Reading the look-behind buffer.\<close>

lemma mem_read_lookbehind:
  assumes "mp_wf p" and "n \<le> boundary_length p + 9"
  shows "mem_read (area p) (lookbehind_at p) n = Some (take n (lookbehind p))"
  using assms by (simp add: mem_read_def mp_wf_def seg_def lookbehind_def lookbehind_at_def)

section \<open>Memory safety and termination of a step\<close>

text \<open>What a step may do to the parser.\<close>

definition step_ok :: "nat \<Rightarrow> multipart_parser \<Rightarrow> 'u mp_step option \<Rightarrow> bool" where
  "step_ok i p r = (case r of
       None \<Rightarrow> False
     | Some (MNext p1 mark1 u1) \<Rightarrow> mp_wf p1 \<and> same_boundary p p1 \<and> mark1 \<le> i
     | Some (MAgain p1 u1) \<Rightarrow> mp_wf p1 \<and> same_boundary p p1 \<and> mp_state p1 = mp_s_part_data
         \<and> mp_state p \<noteq> mp_s_part_data
     | Some (MReturn n p1 u1) \<Rightarrow> n \<le> i)"

lemma step_ok_simps [simp]:
  "step_ok i p (Some (MNext p1 mark1 u1)) \<longleftrightarrow> mp_wf p1 \<and> same_boundary p p1 \<and> mark1 \<le> i"
  "step_ok i p (Some (MAgain p1 u1)) \<longleftrightarrow> mp_wf p1 \<and> same_boundary p p1 \<and> mp_state p1 = mp_s_part_data
     \<and> mp_state p \<noteq> mp_s_part_data"
  "step_ok i p (Some (MReturn n p1 u1)) \<longleftrightarrow> n \<le> i"
  by (simp_all add: step_ok_def)

lemma step_ok_Some: "step_ok i p r \<Longrightarrow> \<exists>s. r = Some s"
  by (cases r) (simp_all add: step_ok_def)

lemma step_ok_notify:
  "(\<And>u1. step_ok i p (k u1)) \<Longrightarrow> step_ok i p (MP_NOTIFY_CB cb i q u k)"
  by (auto simp: MP_NOTIFY_CB_def split: option.splits prod.splits)

lemma step_ok_emit:
  "ptr + len \<le> length mem \<Longrightarrow> (\<And>u1. step_ok i p (k u1)) \<Longrightarrow> step_ok i p (EMIT_DATA_CB cb mem ptr len i q u k)"
  by (auto simp: EMIT_DATA_CB_def split: option.splits prod.splits)

lemma mp_wf_leave:
  assumes "mp_wf p" and "mp_state q \<notin> {mp_s_start_boundary, mp_s_part_data_almost_boundary, mp_s_part_data_boundary}"
    and "boundary_length q = boundary_length p" and "area q = area p"
  shows "mp_wf q" and "same_boundary p q"
  using assms by (simp_all add: mp_wf_def same_boundary_def mp_boundary_def)

lemma take_stored:
  "length pre = i \<Longrightarrow> take i xs = pre \<Longrightarrow> i \<le> length xs \<Longrightarrow> take (Suc i) (take i xs @ [c] @ ys) = pre @ [c]"
  by (simp add: min_def)

lemma part_data_ok:
  assumes "mp_wf p" and "mark \<le> i" and "i < length buf"
    and "mp_state q = mp_s_part_data" and "boundary_length q = boundary_length p" and "area q = area p"
  shows "step_ok i p (at_mp_part_data st buf c is_last i mark q u)"
proof (cases "c = CR")
  case True
  have len: "length (area q) = 2 * boundary_length q + 10" using assms(1,5,6) by (simp add: mp_wf_def)
  let ?q = "q\<lparr>mp_state := mp_s_part_data_almost_boundary\<rparr>"
  obtain mem where m: "set_lookbehind ?q 0 CR = Some (?q\<lparr>area := mem\<rparr>)" "length mem = length (area ?q)"
    "mp_boundary (?q\<lparr>area := mem\<rparr>) = mp_boundary ?q"
    "lookbehind (?q\<lparr>area := mem\<rparr>) = take 0 (lookbehind ?q) @ [CR] @ drop (Suc 0) (lookbehind ?q)"
    using set_lookbehind_Some [of ?q 0 CR] len by auto
  have "mp_wf (?q\<lparr>area := mem\<rparr>)" using assms m len by (simp add: mp_wf_def)
  moreover have "same_boundary p (?q\<lparr>area := mem\<rparr>)"
    using assms m by (simp add: same_boundary_def mp_boundary_def)
  ultimately show ?thesis
    using True m assms(2,3) by (simp add: at_mp_part_data_def) (rule step_ok_emit; simp)
next
  case False
  have "mp_wf q" "same_boundary p q" using mp_wf_leave [OF assms(1), of q] assms(4-6) by auto
  then show ?thesis
    using False assms(2,3) by (auto simp: at_mp_part_data_def intro!: step_ok_emit)
qed

lemma almost_boundary_ok:
  assumes wf: "mp_wf p" and "i < length buf" and "mark \<le> i" and s: "mp_state p = mp_s_part_data_almost_boundary"
  shows "step_ok i p (at_mp_part_data_almost_boundary st c i mark p u)"
proof (cases "c = LF")
  case True
  let ?q = "p\<lparr>mp_state := mp_s_part_data_boundary\<rparr>"
  have len: "length (area ?q) = 2 * boundary_length ?q + 10" using wf by (simp add: mp_wf_def)
  obtain mem where m: "set_lookbehind ?q 1 LF = Some (?q\<lparr>area := mem\<rparr>)" "length mem = length (area ?q)"
    "mp_boundary (?q\<lparr>area := mem\<rparr>) = mp_boundary ?q"
    "lookbehind (?q\<lparr>area := mem\<rparr>) = take 1 (lookbehind ?q) @ [LF] @ drop (Suc 1) (lookbehind ?q)"
    using set_lookbehind_Some [OF len, of 1 LF] by auto
  have "take 1 (lookbehind p) = [CR]" using wf s by (simp add: mp_wf_def)
  then have "mp_wf (?q\<lparr>area := mem, mp_index := 0\<rparr>)" using wf m len by (simp add: mp_wf_def)
  moreover have "same_boundary p (?q\<lparr>area := mem, mp_index := 0\<rparr>)"
    using m(3) by (simp add: same_boundary_def)
  ultimately show ?thesis
    using True m(1) assms(3) by (simp add: at_mp_part_data_almost_boundary_def)
next
  case False
  have "lookbehind_at p + 1 \<le> length (area p)" using wf by (simp add: mp_wf_def lookbehind_at_def)
  moreover have "mp_wf (p\<lparr>mp_state := mp_s_part_data\<rparr>)" "same_boundary p (p\<lparr>mp_state := mp_s_part_data\<rparr>)"
    using mp_wf_leave [OF wf, of "p\<lparr>mp_state := mp_s_part_data\<rparr>"] by simp_all
  ultimately show ?thesis
    using False s by (simp add: at_mp_part_data_almost_boundary_def step_ok_emit)
qed

lemma take_extend:
  assumes "k < length bs" and "lb = take (2 + k) lb0 @ [bs ! k] @ ys" and "take (2 + k) lb0 = x # y # take k bs"
  shows "take (2 + Suc k) lb = x # y # take (Suc k) bs"
proof -
  have "length (x # y # take k bs) = 2 + k" using assms(1) by simp
  then show ?thesis using assms by (simp add: take_Suc_conv_app_nth)
qed

lemma boundary_ok:
  assumes wf: "mp_wf p" and "i < length buf" and "mark \<le> i" and s: "mp_state p = mp_s_part_data_boundary"
  shows "step_ok i p (at_mp_part_data_boundary st c i mark p u)"
proof -
  have k: "mp_index p < boundary_length p" using wf s by (simp add: mp_wf_def)
  have bc: "boundary_char p = Some (mp_boundary p ! mp_index p)" using wf k by (rule boundary_char_Some)
  show ?thesis
  proof (cases "mp_boundary p ! mp_index p = c")
    case True
    have len: "length (area p) = 2 * boundary_length p + 10" using wf by (simp add: mp_wf_def)
    obtain mem where m: "set_lookbehind p (2 + mp_index p) c = Some (p\<lparr>area := mem\<rparr>)"
      "length mem = length (area p)" "mp_boundary (p\<lparr>area := mem\<rparr>) = mp_boundary p"
      "lookbehind (p\<lparr>area := mem\<rparr>) =
        take (2 + mp_index p) (lookbehind p) @ [c] @ drop (Suc (2 + mp_index p)) (lookbehind p)"
      using set_lookbehind_Some [OF len, of "2 + mp_index p" c] k by auto
    let ?p2 = "p\<lparr>area := mem, mp_index := mp_index p + 1\<rparr>"
    have same: "same_boundary p ?p2" using m(3) by (simp add: same_boundary_def)
    have "take (2 + Suc (mp_index p)) (lookbehind ?p2) = CR # LF # take (Suc (mp_index p)) (mp_boundary p)"
      using take_extend [OF _ m(4) [folded True]] k length_mp_boundary [OF wf] wf s
      by (simp only: area_update_simps mp_wf_def)
    then have "mp_wf ?p2" if "mp_index p + 1 \<noteq> boundary_length p"
      using wf s m(2,3) that k by (simp add: mp_wf_def)
    moreover have "mp_wf (?p2\<lparr>mp_state := mp_s_part_data_almost_end\<rparr>)"
      using wf m by (simp add: mp_wf_def)
    moreover have "same_boundary p (?p2\<lparr>mp_state := mp_s_part_data_almost_end\<rparr>)"
      using same by (simp add: same_boundary_def)
    ultimately show ?thesis
      using True bc m(1) same assms(3)
      by (simp add: at_mp_part_data_boundary_def Let_def) (auto intro!: step_ok_notify)
  next
    case False
    have "lookbehind_at p + (2 + mp_index p) \<le> length (area p)" using wf k by (simp add: mp_wf_def lookbehind_at_def)
    moreover have "mp_wf (p\<lparr>mp_state := mp_s_part_data\<rparr>)" "same_boundary p (p\<lparr>mp_state := mp_s_part_data\<rparr>)"
      using mp_wf_leave [OF wf, of "p\<lparr>mp_state := mp_s_part_data\<rparr>"] by simp_all
    ultimately show ?thesis
      using False s bc by (simp add: at_mp_part_data_boundary_def step_ok_emit)
  qed
qed

lemma start_boundary_ok:
  assumes wf: "mp_wf p" and "mark \<le> i" and s: "mp_state p = mp_s_start_boundary"
  shows "step_ok i p (at_mp_start_boundary st c i mark p u)"
proof -
  let ?p1 = "p\<lparr>mp_index := mp_index p + 1\<rparr>"
  have k: "mp_index p \<le> boundary_length p + 1" using wf s by (simp add: mp_wf_def)
  have 1: "mp_wf ?p1" "same_boundary p ?p1" if "mp_index p \<le> boundary_length p"
    using that wf s by (simp_all add: mp_wf_def same_boundary_def)
  have 2: "mp_wf (p\<lparr>mp_index := 0, mp_state := mp_s_header_field_start\<rparr>)"
    "same_boundary p (p\<lparr>mp_index := 0, mp_state := mp_s_header_field_start\<rparr>)"
    using wf by (simp_all add: mp_wf_def same_boundary_def)
  show ?thesis
    using k 1 2 assms(2) boundary_char_Some [OF wf]
    by (auto simp: at_mp_start_boundary_def Let_def intro!: step_ok_notify)
qed

lemma mp_byte_ok:
  assumes wf: "mp_wf p" and i: "i < length buf" and mark: "mark \<le> i"
  shows "step_ok i p (mp_byte st buf i mark p u)"
proof -
  note leave = mp_wf_leave [OF wf]
  have go: "mp_wf (p\<lparr>mp_state := s\<rparr>)" "same_boundary p (p\<lparr>mp_state := s\<rparr>)"
    if "s \<notin> {mp_s_start_boundary, mp_s_part_data_almost_boundary, mp_s_part_data_boundary}" for s
    using leave [of "p\<lparr>mp_state := s\<rparr>"] that by simp_all
  let ?c = "buf ! i" and ?l = "i = length buf - 1"
  have field: "step_ok i p (at_mp_header_field st buf ?c ?l i m q u)"
    if "q = p\<lparr>mp_state := mp_s_header_field\<rparr>" "m \<le> i" for q m
    using that i go by (auto simp: at_mp_header_field_def intro!: step_ok_emit)
  have "value": "step_ok i p (at_mp_header_value st buf ?c ?l i m q u)"
    if "q = p\<lparr>mp_state := mp_s_header_value\<rparr>" "m \<le> i" for q m
    using that i go by (auto simp: at_mp_header_value_def Let_def intro!: step_ok_emit)
  have data: "step_ok i p (at_mp_part_data st buf ?c ?l i m q v)"
    if "q = p\<lparr>mp_state := mp_s_part_data\<rparr>" "m \<le> i" for q m v
    by (rule part_data_ok [OF wf that(2) i]) (simp_all add: that(1))
  have start: "step_ok i p (at_mp_start_boundary st ?c i mark q u)"
    if "q = p\<lparr>mp_index := 0, mp_state := mp_s_start_boundary\<rparr>" "mp_state p = mp_s_start" for q
  proof -
    have "mp_wf q" "same_boundary p q" using wf that(1) by (simp_all add: mp_wf_def same_boundary_def)
    then show ?thesis using start_boundary_ok [of q mark i st ?c u] mark that
      by (auto simp: step_ok_def same_boundary_def split: option.splits mp_step.splits)
  qed
  show ?thesis
  proof (cases "mp_state p")
    case mp_s_header_field
    then show ?thesis using field [of p mark] mark by (simp add: mp_byte_def Let_def)
  next
    case mp_s_header_value
    then show ?thesis using "value" [of p mark] mark by (simp add: mp_byte_def Let_def)
  next
    case mp_s_part_data
    then show ?thesis using data [of p mark] mark by (simp add: mp_byte_def Let_def)
  next
    case mp_s_start_boundary
    then show ?thesis using start_boundary_ok [OF wf mark] by (simp add: mp_byte_def Let_def)
  next
    case mp_s_part_data_almost_boundary
    then show ?thesis using almost_boundary_ok [OF wf i mark] by (simp add: mp_byte_def Let_def)
  next
    case mp_s_part_data_boundary
    then show ?thesis using boundary_ok [OF wf i mark] by (simp add: mp_byte_def Let_def)
  qed (use wf mark go field "value" data start in \<open>simp_all add: mp_byte_def Let_def at_mp_start_def
      at_mp_header_field_start_def at_mp_headers_almost_done_def at_mp_header_value_start_def
      at_mp_header_value_almost_done_def at_mp_part_data_start_def at_mp_part_data_almost_end_def
      at_mp_part_data_end_def at_mp_part_data_final_hyphen_def step_ok_notify\<close>)
qed

text \<open>Data is never looked at twice.\<close>

lemma part_data_not_again:
  "mp_state p = mp_s_part_data \<Longrightarrow> mp_byte st buf i mark p u \<noteq> Some (MAgain q v)"
  by (auto simp: mp_byte_def Let_def at_mp_part_data_def EMIT_DATA_CB_def Option.bind_eq_Some_conv
      split: option.splits prod.splits if_splits)

lemma mp_loop_end: "\<not> i < length buf \<Longrightarrow> mp_loop st buf f p i mark u = Some (length buf, p, u)"
  by (subst mp_loop.simps) simp

lemma mp_loop_next:
  "i < length buf \<Longrightarrow> mp_byte st buf i mark p u = Some (MNext q m v) \<Longrightarrow>
   mp_loop st buf (Suc f) p i mark u = mp_loop st buf f q (i + 1) m v"
  by (subst mp_loop.simps) simp

lemma mp_loop_again:
  "i < length buf \<Longrightarrow> mp_byte st buf i mark p u = Some (MAgain q v) \<Longrightarrow>
   mp_loop st buf (Suc f) p i mark u = mp_loop st buf f q i i v"
  by (subst mp_loop.simps) simp

lemma mp_loop_return:
  "i < length buf \<Longrightarrow> mp_byte st buf i mark p u = Some (MReturn n q v) \<Longrightarrow>
   mp_loop st buf (Suc f) p i mark u = Some (n, q, v)"
  by (subst mp_loop.simps) simp

lemma mp_loop_total:
  assumes "mp_wf p" and "i \<le> length buf" and "mark \<le> i"
    and "2 * (length buf - i) \<le> fuel \<or> mp_state p = mp_s_part_data \<and> 2 * (length buf - i) - 1 \<le> fuel"
  shows "\<exists>n q v. mp_loop st buf fuel p i mark u = Some (n, q, v) \<and> n \<le> length buf
    \<and> (n = length buf \<longrightarrow> mp_wf q \<and> same_boundary p q)"
  using assms
proof (induction fuel arbitrary: p i mark u)
  case 0
  then have "i = length buf" by auto
  then show ?case using 0 by (simp add: mp_loop_end)
next
  case (Suc f)
  show ?case
  proof (cases "i < length buf")
    case False
    then show ?thesis using Suc.prems by (simp add: mp_loop_end)
  next
    case True
    have ok: "step_ok i p (mp_byte st buf i mark p u)" by (rule mp_byte_ok [OF Suc.prems(1) True Suc.prems(3)])
    then obtain r where r: "mp_byte st buf i mark p u = Some r" by (rule step_ok_Some [THEN exE])
    show ?thesis
    proof (cases r)
      case (MNext q m v)
      then have q: "mp_wf q" "same_boundary p q" "m \<le> i" using ok r by simp_all
      have "2 * (length buf - (i + 1)) \<le> f" using Suc.prems(4) True by linarith
      then obtain n q1 v1 where "mp_loop st buf f q (i + 1) m v = Some (n, q1, v1)" "n \<le> length buf"
        "n = length buf \<longrightarrow> mp_wf q1 \<and> same_boundary q q1"
        using Suc.IH [of q "i + 1" m v] q True by auto
      moreover have "mp_loop st buf (Suc f) p i mark u = mp_loop st buf f q (i + 1) m v"
        using r MNext True by (simp add: mp_loop_next)
      ultimately show ?thesis using q(2) by (auto intro: same_boundary_trans)
    next
      case (MAgain q v)
      then have q: "mp_wf q" "same_boundary p q" "mp_state q = mp_s_part_data" "mp_state p \<noteq> mp_s_part_data"
        using ok r by simp_all
      have "2 * (length buf - i) - 1 \<le> f" using Suc.prems(4) q(4) by auto
      then obtain n q1 v1 where "mp_loop st buf f q i i v = Some (n, q1, v1)" "n \<le> length buf"
        "n = length buf \<longrightarrow> mp_wf q1 \<and> same_boundary q q1"
        using Suc.IH [of q i i v] q True by auto
      moreover have "mp_loop st buf (Suc f) p i mark u = mp_loop st buf f q i i v"
        using r MAgain True by (simp add: mp_loop_again)
      ultimately show ?thesis using q(2) by (auto intro: same_boundary_trans)
    next
      case (MReturn n q v)
      then show ?thesis using ok r True by (simp add: mp_loop_return)
    qed
  qed
qed

end
