(* ===== verification/Multipart_Automaton.thy ===== *)
theory Multipart_Automaton
  imports Multipart_Spec
begin

text \<open>
  The multipart format as an automaton that eats one byte at a time, without marks and without a
  look-behind buffer, and the proof that the parser implements it.
\<close>

section \<open>The automaton\<close>

datatype mp_event =
    Part_Begin | Field byte | Value byte | Headers_Complete | Data byte | Part_End | Body_End

type_synonym mp_abs = "mp_state \<times> nat"

text \<open>The bytes that are withheld because they may belong to a delimiter.\<close>

definition held :: "byte list \<Rightarrow> mp_abs \<Rightarrow> byte list" where
  "held b s = (case fst s of
       mp_s_part_data_almost_boundary \<Rightarrow> [CR]
     | mp_s_part_data_boundary \<Rightarrow> CR # LF # take (snd s) b
     | _ \<Rightarrow> [])"

definition auto_data :: "byte \<Rightarrow> nat \<Rightarrow> mp_event list \<Rightarrow> (mp_abs \<times> mp_event list) option" where
  "auto_data c k pre =
     Some (if c = CR then ((mp_s_part_data_almost_boundary, k), pre) else ((mp_s_part_data, k), pre @ [Data c]))"

text \<open>
  A line without a colon is no header; the parser would drop what it has seen of it, the
  automaton does not accept it.
\<close>

definition auto_field :: "byte \<Rightarrow> nat \<Rightarrow> (mp_abs \<times> mp_event list) option" where
  "auto_field c k =
     (if c = CHR '':'' then Some ((mp_s_header_value_start, k), [])
      else if c = CHR ''-'' \<or> is_letter c then Some ((mp_s_header_field, k), [Field c])
      else None)"

definition auto_value :: "byte \<Rightarrow> nat \<Rightarrow> (mp_abs \<times> mp_event list) option" where
  "auto_value c k =
     Some (if c = CR then ((mp_s_header_value_almost_done, k), []) else ((mp_s_header_value, k), [Value c]))"

definition auto_start :: "byte list \<Rightarrow> byte \<Rightarrow> nat \<Rightarrow> (mp_abs \<times> mp_event list) option" where
  "auto_start b c k =
     (if k = length b then
        if c = CR then Some ((mp_s_start_boundary, k + 1), []) else None
      else if k = length b + 1 then
        if c = LF then Some ((mp_s_header_field_start, 0), [Part_Begin]) else None
      else if c = b ! k then Some ((mp_s_start_boundary, k + 1), []) else None)"

definition auto_step :: "byte list \<Rightarrow> byte \<Rightarrow> mp_abs \<Rightarrow> (mp_abs \<times> mp_event list) option" where
  "auto_step b c s = (case s of (st, k) \<Rightarrow> (case st of
       mp_s_uninitialized \<Rightarrow> None
     | mp_s_start \<Rightarrow> auto_start b c 0
     | mp_s_start_boundary \<Rightarrow> auto_start b c k
     | mp_s_header_field_start \<Rightarrow>
         if c = CR then Some ((mp_s_headers_almost_done, k), []) else auto_field c k
     | mp_s_header_field \<Rightarrow> auto_field c k
     | mp_s_headers_almost_done \<Rightarrow> if c = LF then Some ((mp_s_part_data_start, k), []) else None
     | mp_s_header_value_start \<Rightarrow>
         if c = CHR '' '' then Some ((mp_s_header_value_start, k), []) else auto_value c k
     | mp_s_header_value \<Rightarrow> auto_value c k
     | mp_s_header_value_almost_done \<Rightarrow> if c = LF then Some ((mp_s_header_field_start, k), []) else None
     | mp_s_part_data_start \<Rightarrow> auto_data c k [Headers_Complete]
     | mp_s_part_data \<Rightarrow> auto_data c k []
     | mp_s_part_data_almost_boundary \<Rightarrow>
         if c = LF then Some ((mp_s_part_data_boundary, 0), []) else auto_data c k [Data CR]
     | mp_s_part_data_boundary \<Rightarrow>
         if c = b ! k then
           if k + 1 = length b then Some ((mp_s_part_data_almost_end, k + 1), [Part_End])
           else Some ((mp_s_part_data_boundary, k + 1), [])
         else auto_data c k (map Data (CR # LF # take k b))
     | mp_s_part_data_almost_end \<Rightarrow>
         if c = CHR ''-'' then Some ((mp_s_part_data_final_hyphen, k), [])
         else if c = CR then Some ((mp_s_part_data_end, k), []) else None
     | mp_s_part_data_final_hyphen \<Rightarrow> if c = CHR ''-'' then Some ((mp_s_end, k), [Body_End]) else None
     | mp_s_part_data_end \<Rightarrow> if c = LF then Some ((mp_s_header_field_start, k), [Part_Begin]) else None
     | mp_s_end \<Rightarrow> Some ((mp_s_end, k), [])))"

fun auto_run :: "byte list \<Rightarrow> byte list \<Rightarrow> mp_abs \<Rightarrow> (mp_abs \<times> mp_event list) option" where
  "auto_run b [] s = Some (s, [])"
| "auto_run b (c # cs) s = do {
     (s1, e1) \<leftarrow> auto_step b c s;
     (s2, e2) \<leftarrow> auto_run b cs s1;
     Some (s2, e1 @ e2)
   }"

lemma auto_append:
  "auto_run b xs s = Some (s1, e1) \<Longrightarrow> auto_run b ys s1 = Some (s2, e2) \<Longrightarrow>
   auto_run b (xs @ ys) s = Some (s2, e1 @ e2)"
  by (cases s2, induction xs arbitrary: s e1) (auto simp: Option.bind_eq_Some_conv)

section \<open>The parser with a recorder\<close>

definition tells :: "mp_event \<Rightarrow> mp_event list multipart_notify_cb" where
  "tells e = Some (\<lambda>u. (0, u @ [e]))"

definition gets :: "(byte \<Rightarrow> mp_event) \<Rightarrow> mp_event list multipart_data_cb" where
  "gets e = Some (\<lambda>d u. (0, u @ map e d))"

definition mp_recorder :: "mp_event list multipart_parser_settings" where
  "mp_recorder = \<lparr>mp_on_header_field = gets Field, mp_on_header_value = gets Value, mp_on_part_data = gets Data,
     mp_on_part_data_begin = tells Part_Begin, mp_on_headers_complete = tells Headers_Complete,
     mp_on_part_data_end = tells Part_End, mp_on_body_end = tells Body_End\<rparr>"

lemma notify_recorder [simp]: "MP_NOTIFY_CB (tells e) i p u k = k (u @ [e])"
  by (simp add: MP_NOTIFY_CB_def tells_def)

lemma emit_recorder: "EMIT_DATA_CB (gets e) mem ptr len i p u k = mem_read mem ptr len \<bind> (\<lambda>d. k (u @ map e d))"
  by (simp add: EMIT_DATA_CB_def gets_def)

lemma recorder_fields [simp]:
  "mp_on_header_field mp_recorder = gets Field" "mp_on_header_value mp_recorder = gets Value"
  "mp_on_part_data mp_recorder = gets Data" "mp_on_part_data_begin mp_recorder = tells Part_Begin"
  "mp_on_headers_complete mp_recorder = tells Headers_Complete"
  "mp_on_part_data_end mp_recorder = tells Part_End" "mp_on_body_end mp_recorder = tells Body_End"
  by (simp_all add: mp_recorder_def)

definition mp_abs :: "multipart_parser \<Rightarrow> mp_abs" where
  "mp_abs p = (mp_state p, mp_index p)"

text \<open>The bytes between the mark and the current position, which are still to be handed over.\<close>

definition owed :: "mp_state \<Rightarrow> byte list \<Rightarrow> mp_event list" where
  "owed s bs = (case s of
       mp_s_header_field \<Rightarrow> map Field bs
     | mp_s_header_value \<Rightarrow> map Value bs
     | mp_s_part_data \<Rightarrow> map Data bs
     | _ \<Rightarrow> [])"

text \<open>
  Where a read may end: not at the \<^verbatim>\<open>CR\<close> of a header value, which would be handed over a second
  time, and not at a \<^verbatim>\<open>-\<close> in a header name, which would be lost.
\<close>

definition clean_cut :: "mp_abs \<Rightarrow> byte list \<Rightarrow> bool" where
  "clean_cut s bs \<longleftrightarrow> fst s \<noteq> mp_s_header_value_almost_done
     \<and> \<not> (fst s = mp_s_header_field \<and> bs \<noteq> [] \<and> last bs = CHR ''-'')"

section \<open>The steps agree\<close>

text \<open>One byte, looked at once or twice.\<close>

definition mp_byte2 :: "'u multipart_parser_settings \<Rightarrow> byte list \<Rightarrow> nat \<Rightarrow> nat
    \<Rightarrow> multipart_parser \<Rightarrow> 'u \<Rightarrow> 'u mp_step option" where
  "mp_byte2 st buf i mark p u = (case mp_byte st buf i mark p u of
       Some (MAgain q v) \<Rightarrow> mp_byte st buf i i q v
     | r \<Rightarrow> r)"

definition step_agrees :: "byte list \<Rightarrow> bool \<Rightarrow> nat \<Rightarrow> mp_abs \<Rightarrow> mp_event list
    \<Rightarrow> mp_event list mp_step option \<Rightarrow> bool" where
  "step_agrees buf is_last i s es r \<longleftrightarrow> (\<exists>p1 m v. r = Some (MNext p1 m v) \<and> mp_abs p1 = s \<and> m \<le> i
     \<and> (if is_last then clean_cut s [buf ! i] \<longrightarrow> v = es
        else v @ owed (fst s) (seg buf m (Suc i - m)) = es))"

lemma step_agreesI:
  assumes "r = Some (MNext p1 m v)" and "mp_abs p1 = s" and "m \<le> i"
    and "is_last \<Longrightarrow> clean_cut s [buf ! i] \<Longrightarrow> v = es"
    and "\<not> is_last \<Longrightarrow> v @ owed (fst s) (seg buf m (Suc i - m)) = es"
  shows "step_agrees buf is_last i s es r"
  using assms by (auto simp: step_agrees_def)

lemma seg_snoc: "m \<le> i \<Longrightarrow> i < length xs \<Longrightarrow> seg xs m (Suc i - m) = seg xs m (i - m) @ [xs ! i]"
  by (simp add: seg_def Suc_diff_le take_Suc_conv_app_nth)

lemma seg_one: "i < length xs \<Longrightarrow> seg xs i (Suc 0) = [xs ! i]"
  using seg_snoc [of i i xs] by simp

lemma owed_simps [simp]:
  "owed mp_s_header_field bs = map Field bs" "owed mp_s_header_value bs = map Value bs"
  "owed mp_s_part_data bs = map Data bs"
  by (simp_all add: owed_def)

lemma owed_Nil [simp]: "owed s [] = []"
  by (simp add: owed_def split: mp_state.splits)

lemma owed_other: "s \<notin> {mp_s_header_field, mp_s_header_value, mp_s_part_data} \<Longrightarrow> owed s bs = []"
  by (simp add: owed_def split: mp_state.splits)

lemma data_agrees:
  assumes "mark \<le> i" and "i < length buf" and "length (area q) = 2 * boundary_length q + 10"
    and "mp_state q = mp_s_part_data" and "auto_data (buf ! i) (mp_index q) pre = Some (s, ev)"
  shows "step_agrees buf l i s (u @ map Data (seg buf mark (i - mark)) @ drop (length pre) ev)
    (at_mp_part_data mp_recorder buf (buf ! i) l i mark q u)"
proof (cases "buf ! i = CR")
  case True
  let ?q = "q\<lparr>mp_state := mp_s_part_data_almost_boundary\<rparr>"
  obtain mem where m: "set_lookbehind ?q 0 CR = Some (?q\<lparr>area := mem\<rparr>)"
    using set_lookbehind_Some [of ?q 0 CR] assms(3) by auto
  show ?thesis
    by (rule step_agreesI [of _ "?q\<lparr>area := mem\<rparr>" i])
      (use assms True m in \<open>auto simp: at_mp_part_data_def emit_recorder auto_data_def mp_abs_def owed_other\<close>)
next
  case False
  then have s: "s = (mp_s_part_data, mp_index q)" "drop (length pre) ev = [Data (buf ! i)]"
    using assms(5) by (auto simp: auto_data_def)
  show ?thesis
    by (rule step_agreesI [of _ q mark "if l then u @ map Data (seg buf mark (Suc i - mark)) else u"])
      (use assms(1-4) False s seg_snoc [OF assms(1,2)] in
        \<open>auto simp: at_mp_part_data_def emit_recorder mp_abs_def Suc_diff_le\<close>)
qed

lemma field_agrees:
  assumes "mark \<le> i" and "i < length buf" and "mp_state q = mp_s_header_field"
    and "auto_field (buf ! i) (mp_index q) = Some (s, ev)"
  shows "step_agrees buf l i s (u @ map Field (seg buf mark (i - mark)) @ ev)
    (at_mp_header_field mp_recorder buf (buf ! i) l i mark q u)"
proof -
  have nocr: "buf ! i \<noteq> CR" using assms(4) by (auto simp: auto_field_def is_letter_def split: if_splits)
  consider (colon) "buf ! i = CHR '':''" | (dash) "buf ! i = CHR ''-''"
    | (letter) "is_letter (buf ! i)" "buf ! i \<noteq> CHR '':''" "buf ! i \<noteq> CHR ''-''"
    using assms(4) by (auto simp: auto_field_def split: if_splits)
  then show ?thesis
  proof cases
    case colon
    show ?thesis
      by (rule step_agreesI [of _ "q\<lparr>mp_state := mp_s_header_value_start\<rparr>" mark])
        (use assms colon in \<open>auto simp: at_mp_header_field_def emit_recorder auto_field_def mp_abs_def owed_other\<close>)
  next
    case dash
    show ?thesis
      by (rule step_agreesI [of _ q mark u])
        (use assms dash seg_snoc [OF assms(1,2)] in
          \<open>auto simp: at_mp_header_field_def auto_field_def mp_abs_def clean_cut_def\<close>)
  next
    case letter
    show ?thesis
      by (rule step_agreesI [of _ q mark "if l then u @ map Field (seg buf mark (Suc i - mark)) else u"])
        (use assms letter nocr seg_snoc [OF assms(1,2)] in
          \<open>auto simp: at_mp_header_field_def emit_recorder auto_field_def mp_abs_def Suc_diff_le\<close>)
  qed
qed

lemma value_agrees:
  assumes "mark \<le> i" and "i < length buf" and "mp_state q = mp_s_header_value"
    and "auto_value (buf ! i) (mp_index q) = Some (s, ev)"
  shows "step_agrees buf l i s (u @ map Value (seg buf mark (i - mark)) @ ev)
    (at_mp_header_value mp_recorder buf (buf ! i) l i mark q u)"
proof (cases "buf ! i = CR")
  case True
  let ?q = "q\<lparr>mp_state := mp_s_header_value_almost_done\<rparr>"
  let ?v = "u @ map Value (seg buf mark (i - mark))"
  show ?thesis
    by (rule step_agreesI [of _ ?q mark "if l then ?v @ map Value (seg buf mark (Suc i - mark)) else ?v"])
      (use assms True seg_snoc [OF assms(1,2)] in
        \<open>auto simp: at_mp_header_value_def emit_recorder auto_value_def mp_abs_def clean_cut_def owed_other
          Suc_diff_le Let_def\<close>)
next
  case False
  show ?thesis
    by (rule step_agreesI [of _ q mark "if l then u @ map Value (seg buf mark (Suc i - mark)) else u"])
      (use assms False seg_snoc [OF assms(1,2)] in
        \<open>auto simp: at_mp_header_value_def emit_recorder auto_value_def mp_abs_def Suc_diff_le Let_def\<close>)
qed

lemma quiet_agrees:
  assumes "mp_abs p1 = s" and "mark \<le> i" and "fst s \<notin> {mp_s_header_field, mp_s_header_value, mp_s_part_data}"
  shows "step_agrees buf l i s u (Some (MNext p1 mark u))"
  using assms by (auto simp: step_agrees_def owed_other)

lemma start_agrees:
  assumes "mark \<le> i" and "i < length buf" and "mp_wf q" and "mp_state q = mp_s_start_boundary"
    and "auto_start (mp_boundary q) (buf ! i) (mp_index q) = Some (s, ev)"
  shows "step_agrees buf l i s (u @ ev) (at_mp_start_boundary mp_recorder (buf ! i) i mark q u)"
proof -
  have k: "mp_index q \<le> boundary_length q + 1" using assms(3,4) by (simp add: mp_wf_def)
  have len: "length (mp_boundary q) = boundary_length q" using assms(3) by (rule length_mp_boundary)
  consider "mp_index q = boundary_length q" | "mp_index q = boundary_length q + 1" | "mp_index q < boundary_length q"
    using k by linarith
  then show ?thesis
  proof cases
    case 1
    then have "buf ! i = CR" "s = (mp_s_start_boundary, mp_index q + 1)" "ev = []"
      using assms(5) len by (simp_all add: auto_start_def split: if_splits)
    then show ?thesis using 1 assms(1,4)
      by (auto simp: at_mp_start_boundary_def mp_abs_def intro!: quiet_agrees)
  next
    case 2
    then have "buf ! i = LF" "s = (mp_s_header_field_start, 0)" "ev = [Part_Begin]"
      using assms(5) len by (simp_all add: auto_start_def split: if_splits)
    then show ?thesis using 2 assms(1)
      by (auto simp: at_mp_start_boundary_def mp_abs_def intro!: quiet_agrees)
  next
    case 3
    then have "buf ! i = mp_boundary q ! mp_index q" "s = (mp_s_start_boundary, mp_index q + 1)" "ev = []"
      using assms(5) len by (simp_all add: auto_start_def split: if_splits)
    then show ?thesis using 3 assms(1,4) boundary_char_Some [OF assms(3) 3]
      by (auto simp: at_mp_start_boundary_def mp_abs_def intro!: quiet_agrees)
  qed
qed

lemma mp_byte2_same: "mp_byte st buf i mark p u = r \<Longrightarrow> (\<forall>q v. r \<noteq> Some (MAgain q v)) \<Longrightarrow> mp_byte2 st buf i mark p u = r"
  by (auto simp: mp_byte2_def split: option.splits mp_step.splits)

lemma step_agrees_not_again: "step_agrees buf l i s es r \<Longrightarrow> \<forall>q v. r \<noteq> Some (MAgain q v)"
  by (auto simp: step_agrees_def)

lemma mp_byte2_agrees:
  "step_agrees buf l i s es (mp_byte st buf i mark p u) \<Longrightarrow> step_agrees buf l i s es (mp_byte2 st buf i mark p u)"
  using step_agrees_not_again mp_byte2_same by metis

text \<open>A byte that ends a possible delimiter: what was withheld is handed over, the byte is data.\<close>

lemma again_agrees:
  assumes "mp_wf p" and "i < length buf" and "auto_data (buf ! i) (mp_index p) pre = Some (s, ev)"
    and "mp_byte mp_recorder buf i mark p u = Some (MAgain (p\<lparr>mp_state := mp_s_part_data\<rparr>) (u @ pre))"
  shows "step_agrees buf (i = length buf - 1) i s (u @ ev) (mp_byte2 mp_recorder buf i mark p u)"
proof -
  let ?q = "p\<lparr>mp_state := mp_s_part_data\<rparr>"
  have "step_agrees buf (i = length buf - 1) i s ((u @ pre) @ map Data (seg buf i (i - i)) @ drop (length pre) ev)
      (at_mp_part_data mp_recorder buf (buf ! i) (i = length buf - 1) i i ?q (u @ pre))"
    by (rule data_agrees) (use assms in \<open>simp_all add: mp_wf_def\<close>)
  moreover have "pre @ drop (length pre) ev = ev" using assms(3) by (auto simp: auto_data_def split: if_splits)
  moreover have "mp_byte2 mp_recorder buf i mark p u =
      at_mp_part_data mp_recorder buf (buf ! i) (i = length buf - 1) i i ?q (u @ pre)"
    using assms(4) by (simp add: mp_byte2_def mp_byte_def Let_def)
  ultimately show ?thesis by simp
qed

lemma almost_boundary_agrees:
  assumes "mp_wf p" and "mark \<le> i" and "i < length buf" and s: "mp_state p = mp_s_part_data_almost_boundary"
    and step: "auto_step (mp_boundary p) (buf ! i) (mp_abs p) = Some (s, ev)"
  shows "step_agrees buf (i = length buf - 1) i s (u @ ev) (mp_byte2 mp_recorder buf i mark p u)"
proof (cases "buf ! i = LF")
  case True
  let ?q = "p\<lparr>mp_state := mp_s_part_data_boundary\<rparr>"
  obtain mem where m: "set_lookbehind ?q 1 LF = Some (?q\<lparr>area := mem\<rparr>)"
    using set_lookbehind_Some [of ?q 1 LF] assms(1) by (auto simp: mp_wf_def)
  have "s = (mp_s_part_data_boundary, 0)" "ev = []"
    using True s step by (simp_all add: auto_step_def mp_abs_def)
  then have "step_agrees buf (i = length buf - 1) i s (u @ ev)
      (Some (MNext (?q\<lparr>area := mem, mp_index := 0\<rparr>) mark u))"
    using assms(2) by (auto simp: mp_abs_def intro!: quiet_agrees)
  moreover have "mp_byte mp_recorder buf i mark p u = Some (MNext (?q\<lparr>area := mem, mp_index := 0\<rparr>) mark u)"
    using True s m by (simp add: mp_byte_def at_mp_part_data_almost_boundary_def)
  ultimately show ?thesis using mp_byte2_agrees by metis
next
  case False
  show ?thesis
  proof (rule again_agrees [OF assms(1,3)])
    show "auto_data (buf ! i) (mp_index p) [Data CR] = Some (s, ev)"
      using False s step by (simp add: auto_step_def mp_abs_def)
    have "mem_read (area p) (lookbehind_at p) 1 = Some [CR]"
      using mem_read_lookbehind [OF assms(1), of 1] assms(1) s by (simp add: mp_wf_def)
    then show "mp_byte mp_recorder buf i mark p u =
        Some (MAgain (p\<lparr>mp_state := mp_s_part_data\<rparr>) (u @ [Data CR]))"
      using False s by (simp add: mp_byte_def at_mp_part_data_almost_boundary_def emit_recorder Let_def)
  qed
qed

lemma boundary_agrees:
  assumes wf: "mp_wf p" and "mark \<le> i" and "i < length buf" and s: "mp_state p = mp_s_part_data_boundary"
    and step: "auto_step (mp_boundary p) (buf ! i) (mp_abs p) = Some (s, ev)"
  shows "step_agrees buf (i = length buf - 1) i s (u @ ev) (mp_byte2 mp_recorder buf i mark p u)"
proof -
  have k: "mp_index p < boundary_length p" using wf s by (simp add: mp_wf_def)
  have bc: "boundary_char p = Some (mp_boundary p ! mp_index p)" using wf k by (rule boundary_char_Some)
  show ?thesis
  proof (cases "mp_boundary p ! mp_index p = buf ! i")
    case True
    obtain mem where m: "set_lookbehind p (2 + mp_index p) (buf ! i) = Some (p\<lparr>area := mem\<rparr>)"
      using set_lookbehind_Some [of p "2 + mp_index p"] wf k by (auto simp: mp_wf_def)
    let ?p2 = "p\<lparr>area := mem, mp_index := mp_index p + 1\<rparr>"
    show ?thesis
    proof (cases "mp_index p + 1 = boundary_length p")
      case fin: True
      then have "s = (mp_s_part_data_almost_end, mp_index p + 1)" "ev = [Part_End]"
        using True s step length_mp_boundary [OF wf] by (simp_all add: auto_step_def mp_abs_def)
      moreover have "mp_byte mp_recorder buf i mark p u =
          Some (MNext (?p2\<lparr>mp_state := mp_s_part_data_almost_end\<rparr>) mark (u @ [Part_End]))"
        using True s bc m fin by (simp add: mp_byte_def at_mp_part_data_boundary_def Let_def)
      ultimately show ?thesis using assms(2)
        by (auto intro!: mp_byte2_agrees quiet_agrees simp: mp_abs_def)
    next
      case more: False
      then have "s = (mp_s_part_data_boundary, mp_index p + 1)" "ev = []"
        using True s step length_mp_boundary [OF wf] by (simp_all add: auto_step_def mp_abs_def)
      moreover have "mp_byte mp_recorder buf i mark p u = Some (MNext ?p2 mark u)"
        using True s bc m more by (simp add: mp_byte_def at_mp_part_data_boundary_def Let_def)
      ultimately show ?thesis using assms(2) s
        by (auto intro!: mp_byte2_agrees quiet_agrees simp: mp_abs_def)
    qed
  next
    case False
    let ?h = "CR # LF # take (mp_index p) (mp_boundary p)"
    show ?thesis
    proof (rule again_agrees [OF assms(1,3)])
      show "auto_data (buf ! i) (mp_index p) (map Data ?h) = Some (s, ev)"
        using False s step by (simp add: auto_step_def mp_abs_def)
      have "mem_read (area p) (lookbehind_at p) (2 + mp_index p) = Some ?h"
        using mem_read_lookbehind [OF wf, of "2 + mp_index p"] wf s k by (simp add: mp_wf_def)
      then show "mp_byte mp_recorder buf i mark p u =
          Some (MAgain (p\<lparr>mp_state := mp_s_part_data\<rparr>) (u @ map Data ?h))"
        using False s bc by (simp add: mp_byte_def at_mp_part_data_boundary_def emit_recorder Let_def)
    qed
  qed
qed

lemma mp_byte2_implements:
  assumes wf: "mp_wf p" and mark: "mark \<le> i" and i: "i < length buf"
    and step: "auto_step (mp_boundary p) (buf ! i) (mp_abs p) = Some (s, ev)"
  shows "step_agrees buf (i = length buf - 1) i s (u @ owed (mp_state p) (seg buf mark (i - mark)) @ ev)
    (mp_byte2 mp_recorder buf i mark p u)"
proof -
  let ?l = "i = length buf - 1"
  have field: "step_agrees buf ?l i s (u @ map Field (seg buf m (i - m)) @ ev)
      (at_mp_header_field mp_recorder buf (buf ! i) ?l i m (p\<lparr>mp_state := mp_s_header_field\<rparr>) u)"
    if "auto_field (buf ! i) (mp_index p) = Some (s, ev)" "m \<le> i" for m
    using that i by (intro field_agrees) simp_all
  have "value": "step_agrees buf ?l i s (u @ map Value (seg buf m (i - m)) @ ev)
      (at_mp_header_value mp_recorder buf (buf ! i) ?l i m (p\<lparr>mp_state := mp_s_header_value\<rparr>) u)"
    if "auto_value (buf ! i) (mp_index p) = Some (s, ev)" "m \<le> i" for m
    using that i by (intro value_agrees) simp_all
  have data: "step_agrees buf ?l i s (v @ map Data (seg buf m (i - m)) @ drop (length pre) ev)
      (at_mp_part_data mp_recorder buf (buf ! i) ?l i m (p\<lparr>mp_state := mp_s_part_data\<rparr>) v)"
    if "auto_data (buf ! i) (mp_index p) pre = Some (s, ev)" "m \<le> i" for m v pre
    using that i wf by (intro data_agrees) (simp_all add: mp_wf_def)
  show ?thesis
  proof (cases "mp_state p")
    case mp_s_start
    let ?q = "p\<lparr>mp_index := 0, mp_state := mp_s_start_boundary\<rparr>"
    have "mp_wf ?q" using wf by (simp add: mp_wf_def)
    then have "step_agrees buf ?l i s (u @ ev) (at_mp_start_boundary mp_recorder (buf ! i) i mark ?q u)"
      using mark i step mp_s_start by (intro start_agrees) (simp_all add: auto_step_def mp_abs_def)
    then show ?thesis using mp_s_start
      by (auto intro!: mp_byte2_agrees simp: mp_byte_def Let_def at_mp_start_def owed_other)
  next
    case mp_s_start_boundary
    have "step_agrees buf ?l i s (u @ ev) (at_mp_start_boundary mp_recorder (buf ! i) i mark p u)"
      using wf mark i step mp_s_start_boundary by (intro start_agrees) (simp_all add: auto_step_def mp_abs_def)
    then show ?thesis using mp_s_start_boundary
      by (auto intro!: mp_byte2_agrees simp: mp_byte_def Let_def owed_other)
  next
    case mp_s_part_data_almost_boundary
    then show ?thesis using almost_boundary_agrees [OF wf mark i _ step, of u] by (simp add: owed_other)
  next
    case mp_s_part_data_boundary
    then show ?thesis using boundary_agrees [OF wf mark i _ step, of u] by (simp add: owed_other)
  next
    case mp_s_part_data_start
    then have d: "auto_data (buf ! i) (mp_index p) [Headers_Complete] = Some (s, ev)"
      using step by (simp add: auto_step_def mp_abs_def)
    then have "[Headers_Complete] @ drop 1 ev = ev" by (auto simp: auto_data_def split: if_splits)
    then show ?thesis using data [OF d, of i "u @ [Headers_Complete]"] mp_s_part_data_start
      by (auto intro!: mp_byte2_agrees simp: mp_byte_def Let_def owed_other at_mp_part_data_start_def)
  next
    case mp_s_header_field_start
    show ?thesis
    proof (cases "buf ! i = CR")
      case True
      then show ?thesis using mp_s_header_field_start step
        by (auto intro!: mp_byte2_agrees quiet_agrees simp: mp_byte_def Let_def owed_other
            at_mp_header_field_start_def at_mp_header_field_def auto_step_def mp_abs_def)
    next
      case False
      then show ?thesis using mp_s_header_field_start step field [of i]
        by (auto intro!: mp_byte2_agrees simp: mp_byte_def Let_def owed_other at_mp_header_field_start_def
            auto_step_def mp_abs_def)
    qed
  next
    case mp_s_header_field
    have "step_agrees buf ?l i s (u @ map Field (seg buf mark (i - mark)) @ ev)
        (at_mp_header_field mp_recorder buf (buf ! i) ?l i mark p u)"
      by (rule field_agrees [OF mark i mp_s_header_field]) (use mp_s_header_field step in \<open>simp add: auto_step_def mp_abs_def\<close>)
    then show ?thesis using mp_s_header_field
      by (auto intro!: mp_byte2_agrees simp: mp_byte_def Let_def auto_step_def mp_abs_def)
  next
    case mp_s_header_value_start
    show ?thesis
    proof (cases "buf ! i = CHR '' ''")
      case True
      then show ?thesis using mp_s_header_value_start step mark
        by (auto intro!: mp_byte2_agrees quiet_agrees simp: mp_byte_def Let_def owed_other
            at_mp_header_value_start_def auto_step_def mp_abs_def)
    next
      case False
      then show ?thesis using mp_s_header_value_start step "value" [of i]
        by (auto intro!: mp_byte2_agrees simp: mp_byte_def Let_def owed_other at_mp_header_value_start_def
            auto_step_def mp_abs_def)
    qed
  next
    case mp_s_header_value
    have "step_agrees buf ?l i s (u @ map Value (seg buf mark (i - mark)) @ ev)
        (at_mp_header_value mp_recorder buf (buf ! i) ?l i mark p u)"
      by (rule value_agrees [OF mark i mp_s_header_value]) (use mp_s_header_value step in \<open>simp add: auto_step_def mp_abs_def\<close>)
    then show ?thesis using mp_s_header_value
      by (auto intro!: mp_byte2_agrees simp: mp_byte_def Let_def auto_step_def mp_abs_def)
  next
    case mp_s_part_data
    have "step_agrees buf ?l i s (u @ map Data (seg buf mark (i - mark)) @ drop (length ([] :: mp_event list)) ev)
        (at_mp_part_data mp_recorder buf (buf ! i) ?l i mark p u)"
      by (rule data_agrees [OF mark i]) (use mp_s_part_data step wf in \<open>simp_all add: auto_step_def mp_abs_def mp_wf_def\<close>)
    then show ?thesis using mp_s_part_data
      by (auto intro!: mp_byte2_agrees simp: mp_byte_def Let_def auto_step_def mp_abs_def)
  qed (use mark step in \<open>auto intro!: mp_byte2_agrees quiet_agrees simp: mp_byte_def Let_def auto_step_def mp_abs_def
      owed_other at_mp_headers_almost_done_def at_mp_header_value_almost_done_def at_mp_part_data_almost_end_def
      at_mp_part_data_final_hyphen_def at_mp_part_data_end_def split: if_splits\<close>)
qed

section \<open>The loop agrees\<close>

lemma mp_byte2_ok:
  assumes "mp_wf p" and "mark \<le> i" and "i < length buf" and "mp_byte2 st buf i mark p u = Some (MNext q m v)"
  shows "mp_wf q \<and> same_boundary p q"
proof (cases "\<exists>q1 v1. mp_byte st buf i mark p u = Some (MAgain q1 v1)")
  case True
  then obtain q1 v1 where 1: "mp_byte st buf i mark p u = Some (MAgain q1 v1)" by blast
  then have "mp_wf q1" "same_boundary p q1" using mp_byte_ok [OF assms(1,3,2), of st u] by simp_all
  moreover have "mp_byte st buf i i q1 v1 = Some (MNext q m v)" using 1 assms(4) by (simp add: mp_byte2_def)
  ultimately show ?thesis using mp_byte_ok [of q1 i buf i st v1] assms(3) same_boundary_trans by auto
next
  case False
  then have "mp_byte st buf i mark p u = Some (MNext q m v)"
    using assms(4) by (auto simp: mp_byte2_def split: option.splits mp_step.splits)
  then show ?thesis using mp_byte_ok [OF assms(1,3,2), of st u] by simp
qed

lemma mp_loop_byte2:
  assumes "i < length buf" and "mp_byte2 st buf i mark p u = Some (MNext q m v)"
  shows "\<exists>f. fuel \<le> f \<and> mp_loop st buf (Suc (Suc fuel)) p i mark u = mp_loop st buf f q (i + 1) m v"
proof (cases "\<exists>q1 v1. mp_byte st buf i mark p u = Some (MAgain q1 v1)")
  case True
  then obtain q1 v1 where 1: "mp_byte st buf i mark p u = Some (MAgain q1 v1)" by blast
  then have "mp_byte st buf i i q1 v1 = Some (MNext q m v)" using assms(2) by (simp add: mp_byte2_def)
  then show ?thesis using 1 assms(1) by (intro exI [of _ fuel]) (simp add: mp_loop_again mp_loop_next)
next
  case False
  then have "mp_byte st buf i mark p u = Some (MNext q m v)"
    using assms(2) by (auto simp: mp_byte2_def split: option.splits mp_step.splits)
  then show ?thesis using assms(1) by (intro exI [of _ "Suc fuel"]) (simp add: mp_loop_next)
qed

lemma mp_loop_implements:
  assumes "mp_wf p" and "mark \<le> i" and "i < length buf" and "2 * (length buf - i) \<le> fuel"
    and "auto_run (mp_boundary p) (drop i buf) (mp_abs p) = Some (s, ev)" and "clean_cut s buf"
  shows "\<exists>p1. mp_loop mp_recorder buf fuel p i mark u =
      Some (length buf, p1, u @ owed (mp_state p) (seg buf mark (i - mark)) @ ev)
    \<and> mp_abs p1 = s \<and> mp_wf p1 \<and> same_boundary p p1"
  using assms
proof (induction "length buf - i" arbitrary: i p mark u ev fuel)
  case 0
  then show ?case by simp
next
  case (Suc n)
  note prems = Suc.prems
  obtain s1 e1 e2 where step: "auto_step (mp_boundary p) (buf ! i) (mp_abs p) = Some (s1, e1)"
    and rest: "auto_run (mp_boundary p) (drop (Suc i) buf) s1 = Some (s, e2)" and ev: "ev = e1 @ e2"
    using prems(3,5) by (auto simp: Cons_nth_drop_Suc [symmetric] Option.bind_eq_Some_conv)
  let ?es = "u @ owed (mp_state p) (seg buf mark (i - mark)) @ e1"
  have "step_agrees buf (i = length buf - 1) i s1 ?es (mp_byte2 mp_recorder buf i mark p u)"
    by (rule mp_byte2_implements [OF prems(1-3) step])
  then obtain q m v where q: "mp_byte2 mp_recorder buf i mark p u = Some (MNext q m v)" "mp_abs q = s1" "m \<le> i"
    and v: "if i = length buf - 1 then clean_cut s1 [buf ! i] \<longrightarrow> v = ?es
        else v @ owed (fst s1) (seg buf m (Suc i - m)) = ?es"
    by (auto simp: step_agrees_def)
  have wf: "mp_wf q" "same_boundary p q" using mp_byte2_ok [OF prems(1-3) q(1)] by simp_all
  have "2 \<le> fuel" using prems(3,4) by linarith
  then have "fuel = Suc (Suc (fuel - 2))" by simp
  then obtain k where k: "fuel = Suc (Suc k)" by blast
  then obtain f where f: "k \<le> f"
    "mp_loop mp_recorder buf fuel p i mark u = mp_loop mp_recorder buf f q (i + 1) m v"
    using mp_loop_byte2 [OF prems(3) q(1), of k] k by blast
  show ?case
  proof (cases "i = length buf - 1")
    case True
    then have "s = s1" "e2 = []" using rest prems(3) by simp_all
    moreover have "last buf = buf ! i" using True prems(3) by (cases buf) (simp_all add: last_conv_nth)
    moreover have "buf \<noteq> []" using prems(3) by auto
    ultimately have "v = ?es" using True v prems(6) by (simp add: clean_cut_def)
    moreover have "mp_loop mp_recorder buf f q (i + 1) m v = Some (length buf, q, v)"
      using True by (simp add: mp_loop_end)
    ultimately show ?thesis using f(2) ev q(2) wf \<open>s = s1\<close> \<open>e2 = []\<close> by auto
  next
    case False
    have "fst s1 = mp_state q" using q(2) by (auto simp: mp_abs_def)
    then have es: "v @ owed (mp_state q) (seg buf m (Suc i - m)) = ?es" using v False by simp
    have "mp_boundary q = mp_boundary p" using wf(2) by (simp add: same_boundary_def)
    moreover have "2 * (length buf - Suc i) \<le> f" using f(1) prems(3,4) k by linarith
    moreover have "n = length buf - Suc i" "Suc i < length buf" using Suc.hyps(2) prems(3) False by linarith+
    ultimately obtain p1 where "mp_loop mp_recorder buf f q (Suc i) m v =
        Some (length buf, p1, v @ owed (mp_state q) (seg buf m (Suc i - m)) @ e2)"
      "mp_abs p1 = s" "mp_wf p1" "same_boundary q p1"
      using Suc.hyps(1) [of "Suc i" q m f e2 v] wf q(2,3) rest prems(6) by auto
    then show ?thesis using f(2) es ev wf(2) same_boundary_trans by (fastforce simp flip: append_assoc)
  qed
qed

lemma execute_implements:
  assumes "mp_wf p" and "auto_run (mp_boundary p) buf (mp_abs p) = Some (s, ev)" and "clean_cut s buf"
  shows "\<exists>p1. multipart_parser_execute mp_recorder p buf u = Some (length buf, p1, u @ ev)
    \<and> mp_abs p1 = s \<and> mp_wf p1 \<and> same_boundary p p1"
proof (cases "buf = []")
  case True
  then show ?thesis using assms by (auto simp: multipart_parser_execute_def mp_loop_end)
next
  case False
  then show ?thesis
    using mp_loop_implements [OF assms(1), of 0 0 buf "2 * length buf" s ev u] assms(2,3)
    by (auto simp: multipart_parser_execute_def)
qed

end
