(* ===== verification/Multipart_Props.thy ===== *)
theory Multipart_Props
  imports Multipart_Automaton
begin

text \<open>
  Multipart bodies as wholes: rendering parts and parsing them back; the reads that the parser
  gets wrong; the properties of the component.
\<close>

section \<open>Finding the delimiter\<close>

definition mp_delimiter :: "byte list \<Rightarrow> byte list" where
  "mp_delimiter b = CR # LF # b"

definition in_data :: "byte list \<Rightarrow> mp_abs \<Rightarrow> bool" where
  "in_data b s \<longleftrightarrow> fst s \<in> {mp_s_part_data, mp_s_part_data_almost_boundary}
     \<or> fst s = mp_s_part_data_boundary \<and> snd s < length b"

lemma held_simps [simp]:
  "held b (mp_s_part_data, k) = []" "held b (mp_s_part_data_almost_boundary, k) = [CR]"
  "held b (mp_s_part_data_boundary, k) = CR # LF # take k b"
  by (simp_all add: held_def)

lemma in_data_cases:
  assumes "in_data b s"
  obtains k where "s = (mp_s_part_data, k)" | k where "s = (mp_s_part_data_almost_boundary, k)"
    | k where "s = (mp_s_part_data_boundary, k)" "k < length b"
  using assms by (cases s) (auto simp: in_data_def)

text \<open>
  A byte inside a part: either the delimiter is complete, or the bytes withheld before and this
  byte are the bytes handed over and the bytes withheld after. Nothing is lost or doubled.
\<close>

lemma data_step:
  assumes "in_data b s" and "b \<noteq> []"
  shows "(held b s @ [c] = mp_delimiter b \<and> auto_step b c s = Some ((mp_s_part_data_almost_end, length b), [Part_End]))
    \<or> (\<exists>s1 d. auto_step b c s = Some (s1, map Data d) \<and> in_data b s1 \<and> held b s @ [c] = d @ held b s1)"
  using assms(1)
proof (cases rule: in_data_cases)
  case (1 k)
  then show ?thesis by (auto simp: auto_step_def auto_data_def in_data_def)
next
  case (2 k)
  have "map Data [CR, c] = [Data CR] @ [Data c]" by simp
  then show ?thesis using 2 assms(2)
    by (auto simp: auto_step_def auto_data_def in_data_def intro: exI [of _ "[CR]"] exI [of _ "[CR, c]"])
next
  case (3 k)
  let ?h = "CR # LF # take k b"
  show ?thesis
  proof (cases "c = b ! k")
    case True
    then have t: "?h @ [c] = CR # LF # take (Suc k) b" using 3(2) by (simp add: take_Suc_conv_app_nth)
    show ?thesis
    proof (cases "Suc k = length b")
      case fin: True
      then show ?thesis using 3 True t by (simp add: auto_step_def mp_delimiter_def)
    next
      case False
      then show ?thesis using 3 True t
        by (intro disjI2 exI [of _ "(mp_s_part_data_boundary, Suc k)"] exI [of _ "[]"])
          (auto simp: auto_step_def in_data_def)
    qed
  next
    case False
    then show ?thesis using 3
      by (cases "c = CR")
        (auto simp: auto_step_def auto_data_def in_data_def intro: exI [of _ ?h] exI [of _ "?h @ [c]"])
  qed
qed

text \<open>The delimiter after any withheld bytes is recognized, if the boundary holds no \<^verbatim>\<open>CR\<close>.\<close>

lemma run_rest_of_boundary:
  assumes "k + length ys = length b" and "ys = drop k b" and "ys \<noteq> []"
  shows "auto_run b ys (mp_s_part_data_boundary, k) = Some ((mp_s_part_data_almost_end, length b), [Part_End])"
  using assms
proof (induction ys arbitrary: k)
  case (Cons y ys)
  have y: "b ! k = y" "ys = drop (Suc k) b" using Cons.prems(2)
    by (metis nth_via_drop) (metis Cons.prems(2) drop_Suc list.sel(3) tl_drop)
  show ?case
  proof (cases "ys = []")
    case True
    then show ?thesis using y(1) Cons.prems(1) by (auto simp: auto_step_def)
  next
    case False
    then have "auto_run b ys (mp_s_part_data_boundary, Suc k) = Some ((mp_s_part_data_almost_end, length b), [Part_End])"
      using Cons.prems(1) by (intro Cons.IH) (simp_all add: y(2))
    moreover have "Suc k \<noteq> length b" using y(2) False by auto
    ultimately show ?thesis using y(1) by (simp add: auto_step_def)
  qed
qed simp

lemma run_delimiter:
  assumes "in_data b s" and "b \<noteq> []" and "CR \<notin> set b"
  shows "auto_run b (mp_delimiter b) s =
    Some ((mp_s_part_data_almost_end, length b), map Data (held b s) @ [Part_End])"
proof -
  have b: "auto_run b b (mp_s_part_data_boundary, 0) = Some ((mp_s_part_data_almost_end, length b), [Part_End])"
    by (rule run_rest_of_boundary) (use assms(2) in simp_all)
  have "auto_step b CR s = Some ((mp_s_part_data_almost_boundary, snd s), map Data (held b s))"
    using assms(1)
  proof (cases rule: in_data_cases)
    case (3 k)
    then have "b ! k \<noteq> CR" using assms(3) nth_mem by metis
    then show ?thesis using 3 by (auto simp: auto_step_def auto_data_def)
  qed (auto simp: auto_step_def auto_data_def)
  moreover have "auto_step b LF (mp_s_part_data_almost_boundary, k) = Some ((mp_s_part_data_boundary, 0), [])" for k
    by (simp add: auto_step_def)
  ultimately show ?thesis using b by (simp add: mp_delimiter_def)
qed

lemma run_data:
  assumes "in_data b s" and "b \<noteq> []" and "CR \<notin> set b" and "\<not> sublist (mp_delimiter b) (held b s @ d)"
  shows "auto_run b (d @ mp_delimiter b) s =
    Some ((mp_s_part_data_almost_end, length b), map Data (held b s @ d) @ [Part_End])"
  using assms
proof (induction d arbitrary: s)
  case Nil
  then show ?case using run_delimiter by simp
next
  case (Cons c d)
  have "held b s @ [c] \<noteq> mp_delimiter b"
  proof
    assume "held b s @ [c] = mp_delimiter b"
    then have "held b s @ c # d = [] @ mp_delimiter b @ d" by simp
    then show False using Cons.prems(4) unfolding sublist_def by blast
  qed
  then obtain s1 e where s1: "auto_step b c s = Some (s1, map Data e)" "in_data b s1" "held b s @ [c] = e @ held b s1"
    using data_step [OF Cons.prems(1,2), of c] by blast
  then have eq: "held b s @ c # d = e @ held b s1 @ d" by (metis append.assoc append_Cons append_Nil)
  then have "\<not> sublist (mp_delimiter b) (held b s1 @ d)"
    using Cons.prems(4) sublist_append_leftI sublist_order.order_trans by metis
  then have "auto_run b (d @ mp_delimiter b) s1 =
      Some ((mp_s_part_data_almost_end, length b), map Data (held b s1 @ d) @ [Part_End])"
    using Cons.IH [OF s1(2)] Cons.prems by blast
  then show ?case unfolding eq using s1(1) by simp
qed

section \<open>Rendering\<close>

type_synonym mp_header = "byte list \<times> byte list"

record mp_part =
  part_headers :: "mp_header list"
  part_data :: "byte list"

definition mp_crlf :: "byte list" where "mp_crlf = [CR, LF]"

definition mp_header_line :: "mp_header \<Rightarrow> byte list" where
  "mp_header_line h = fst h @ '': '' @ snd h @ mp_crlf"

definition mp_header_events :: "mp_header \<Rightarrow> mp_event list" where
  "mp_header_events h = map Field (fst h) @ map Value (snd h)"

definition valid_mp_header :: "mp_header \<Rightarrow> bool" where
  "valid_mp_header h \<longleftrightarrow> list_all (\<lambda>c. is_letter c \<or> c = CHR ''-'') (fst h)
     \<and> CR \<notin> set (snd h) \<and> (snd h \<noteq> [] \<longrightarrow> hd (snd h) \<noteq> CHR '' '')"

definition render_part :: "byte list \<Rightarrow> mp_part \<Rightarrow> byte list" where
  "render_part b x = mp_crlf @ concat (map mp_header_line (part_headers x)) @ mp_crlf @ part_data x @ mp_delimiter b"

definition part_events :: "mp_part \<Rightarrow> mp_event list" where
  "part_events x = [Part_Begin] @ concat (map mp_header_events (part_headers x))
     @ [Headers_Complete] @ map Data (part_data x) @ [Part_End]"

definition valid_part :: "byte list \<Rightarrow> mp_part \<Rightarrow> bool" where
  "valid_part b x \<longleftrightarrow> list_all valid_mp_header (part_headers x) \<and> \<not> sublist (mp_delimiter b) (part_data x)"

definition render_multipart :: "byte list \<Rightarrow> mp_part list \<Rightarrow> byte list" where
  "render_multipart b xs = b @ concat (map (render_part b) xs) @ ''--''"

text \<open>A boundary is a nonempty C string without \<^verbatim>\<open>CR\<close>.\<close>

definition valid_boundary :: "byte list \<Rightarrow> bool" where
  "valid_boundary b \<longleftrightarrow> b \<noteq> [] \<and> CR \<notin> set b \<and> NUL \<notin> set b"

section \<open>Running the automaton over a rendered body\<close>

lemma auto_snoc:
  "auto_run b xs s = Some (s1, e1) \<Longrightarrow> auto_step b c s1 = Some (s2, e2) \<Longrightarrow> auto_run b (xs @ [c]) s = Some (s2, e1 @ e2)"
  by (rule auto_append) (auto split: prod.splits)

lemma run_field:
  assumes "list_all (\<lambda>c. is_letter c \<or> c = CHR ''-'') n"
    and "s = mp_s_header_field_start \<or> s = mp_s_header_field"
  shows "\<exists>s1. auto_run b n (s, k) = Some ((s1, k), map Field n) \<and> (s1 = mp_s_header_field_start \<or> s1 = mp_s_header_field)"
  using assms
proof (induction n arbitrary: s)
  case (Cons c n)
  have "c \<noteq> CR" "c \<noteq> CHR '':''" using Cons.prems(1) by (auto simp: is_letter_def)
  moreover have "c = CHR ''-'' \<or> is_letter c" using Cons.prems(1) by auto
  ultimately have step: "auto_step b c (s, k) = Some ((mp_s_header_field, k), [Field c])"
    using Cons.prems(2) by (elim disjE [of "s = _"]) (simp_all add: auto_step_def auto_field_def)
  obtain s1 where "auto_run b n (mp_s_header_field, k) = Some ((s1, k), map Field n)"
    and s1: "s1 = mp_s_header_field_start \<or> s1 = mp_s_header_field"
    using Cons.IH [of mp_s_header_field] Cons.prems(1) by auto
  then have "auto_run b (c # n) (s, k) = Some ((s1, k), map Field (c # n))" using step by simp
  then show ?case using s1 by blast
qed auto

lemma run_value:
  assumes "CR \<notin> set v"
  shows "auto_run b (v @ [CR]) (mp_s_header_value, k) = Some ((mp_s_header_value_almost_done, k), map Value v)"
  using assms by (induction v) (auto simp: auto_step_def auto_value_def)

lemma run_header_line:
  assumes "valid_mp_header h"
  shows "auto_run b (mp_header_line h) (mp_s_header_field_start, k) =
    Some ((mp_s_header_field_start, k), mp_header_events h)"
proof -
  obtain s where s: "auto_run b (fst h) (mp_s_header_field_start, k) = Some ((s, k), map Field (fst h))"
    "s = mp_s_header_field_start \<or> s = mp_s_header_field"
    using run_field [of "fst h" mp_s_header_field_start b k] assms by (auto simp: valid_mp_header_def)
  have colon: "auto_run b '': '' (s, k) = Some ((mp_s_header_value_start, k), [])"
    using s(2) by (auto simp: auto_step_def auto_field_def)
  have v: "auto_run b (snd h @ [CR]) (mp_s_header_value_start, k) =
      Some ((mp_s_header_value_almost_done, k), map Value (snd h))"
  proof (cases "snd h")
    case Nil
    then show ?thesis by (simp add: auto_step_def auto_value_def)
  next
    case (Cons c cs)
    then have "auto_step b c (mp_s_header_value_start, k) = Some ((mp_s_header_value, k), [Value c])"
      using assms by (auto simp: auto_step_def auto_value_def valid_mp_header_def)
    moreover have "CR \<notin> set cs" using assms Cons by (simp add: valid_mp_header_def)
    ultimately show ?thesis using run_value [of cs b k] Cons by simp
  qed
  have lf: "auto_step b LF (mp_s_header_value_almost_done, k) = Some ((mp_s_header_field_start, k), [])"
    by (simp add: auto_step_def)
  have "auto_run b (fst h @ '': '' @ (snd h @ [CR]) @ [LF]) (mp_s_header_field_start, k) =
      Some ((mp_s_header_field_start, k), map Field (fst h) @ [] @ map Value (snd h) @ [])"
    by (rule auto_append [OF s(1)], rule auto_append [OF colon], rule auto_snoc [OF v lf])
  then show ?thesis by (simp add: mp_header_line_def mp_header_events_def mp_crlf_def)
qed

lemma run_header_lines:
  assumes "list_all valid_mp_header hs"
  shows "auto_run b (concat (map mp_header_line hs)) (mp_s_header_field_start, k) =
    Some ((mp_s_header_field_start, k), concat (map mp_header_events hs))"
  using assms by (induction hs) (auto intro: auto_append [OF run_header_line])

text \<open>Where a part may begin: after the first boundary, or after the boundary that ended a part.\<close>

definition before_part :: "byte list \<Rightarrow> mp_abs \<Rightarrow> bool" where
  "before_part b s \<longleftrightarrow> s = (mp_s_start_boundary, length b) \<or> s = (mp_s_part_data_almost_end, length b)"

lemma run_part:
  assumes "valid_part b x" and "valid_boundary b" and "before_part b s"
  shows "auto_run b (render_part b x) s = Some ((mp_s_part_data_almost_end, length b), part_events x)"
proof -
  obtain k where 1: "auto_run b mp_crlf s = Some ((mp_s_header_field_start, k), [Part_Begin])"
    using assms(3) by (auto simp: before_part_def mp_crlf_def auto_step_def auto_start_def)
  have 2: "auto_run b (concat (map mp_header_line (part_headers x))) (mp_s_header_field_start, k) =
      Some ((mp_s_header_field_start, k), concat (map mp_header_events (part_headers x)))"
    by (rule run_header_lines) (use assms(1) in \<open>simp add: valid_part_def\<close>)
  have 3: "auto_run b mp_crlf (mp_s_header_field_start, k) = Some ((mp_s_part_data_start, k), [])"
    by (simp add: mp_crlf_def auto_step_def)
  have data: "auto_run b (part_data x @ mp_delimiter b) (mp_s_part_data, k) =
      Some ((mp_s_part_data_almost_end, length b), map Data (held b (mp_s_part_data, k) @ part_data x) @ [Part_End])"
    by (rule run_data) (use assms(1,2) in \<open>simp_all add: in_data_def valid_boundary_def valid_part_def\<close>)
  have start: "auto_step b c (mp_s_part_data_start, k) =
      map_option (\<lambda>(s, e). (s, Headers_Complete # e)) (auto_step b c (mp_s_part_data, k))" for c
    by (simp add: auto_step_def auto_data_def)
  have "part_data x @ mp_delimiter b \<noteq> []" by (simp add: mp_delimiter_def)
  then obtain c cs where c: "part_data x @ mp_delimiter b = c # cs" by (cases "part_data x @ mp_delimiter b") auto
  have 4: "auto_run b (part_data x @ mp_delimiter b) (mp_s_part_data_start, k) =
      Some ((mp_s_part_data_almost_end, length b), [Headers_Complete] @ map Data (part_data x) @ [Part_End])"
    using data start [of c] unfolding c by (auto simp: Option.bind_eq_Some_conv)
  have "auto_run b (mp_crlf @ concat (map mp_header_line (part_headers x)) @ mp_crlf @ part_data x @ mp_delimiter b) s =
      Some ((mp_s_part_data_almost_end, length b), [Part_Begin] @ concat (map mp_header_events (part_headers x)) @ [] @
        [Headers_Complete] @ map Data (part_data x) @ [Part_End])"
    by (rule auto_append [OF 1], rule auto_append [OF 2], rule auto_append [OF 3], rule 4)
  then show ?thesis by (simp add: render_part_def part_events_def)
qed

lemma run_parts:
  assumes "list_all (valid_part b) xs" and "valid_boundary b" and "before_part b s"
  shows "\<exists>s1. auto_run b (concat (map (render_part b) xs)) s = Some (s1, concat (map part_events xs))
    \<and> before_part b s1 \<and> (xs \<noteq> [] \<longrightarrow> s1 = (mp_s_part_data_almost_end, length b))"
  using assms(1,3)
proof (induction xs arbitrary: s)
  case (Cons x xs)
  let ?s = "(mp_s_part_data_almost_end, length b)"
  have 1: "auto_run b (render_part b x) s = Some (?s, part_events x)"
    using run_part assms(2) Cons.prems by simp
  obtain s1 where 2: "auto_run b (concat (map (render_part b) xs)) ?s = Some (s1, concat (map part_events xs))"
    and s1: "before_part b s1" "xs \<noteq> [] \<longrightarrow> s1 = ?s"
    using Cons.IH [of ?s] Cons.prems(1) by (auto simp: before_part_def)
  have "s1 = ?s" using 2 s1(2) by (cases xs) auto
  then show ?case using auto_append [OF 1 2] s1 by auto
qed auto

lemma run_first_boundary:
  "auto_run b ys (mp_s_start_boundary, k) = Some ((mp_s_start_boundary, length b), [])"
  if "ys = drop k b" "k \<le> length b"
  using that
proof (induction ys arbitrary: k)
  case (Cons y ys)
  have y: "b ! k = y" "ys = drop (Suc k) b" using Cons.prems(1)
    by (metis nth_via_drop) (metis Cons.prems(1) drop_Suc list.sel(3) tl_drop)
  moreover have "k < length b" using Cons.prems by (metis drop_all leI list.distinct(1))
  ultimately show ?case using Cons.IH [of "Suc k"] by (simp add: auto_step_def auto_start_def)
qed auto

lemma run_multipart:
  assumes "list_all (valid_part b) xs" and "xs \<noteq> []" and "valid_boundary b"
  shows "auto_run b (render_multipart b xs) (mp_s_start, 0) =
    Some ((mp_s_end, length b), concat (map part_events xs) @ [Body_End])"
proof -
  let ?s = "(mp_s_start_boundary, length b)"
  have "b \<noteq> []" using assms(3) by (simp add: valid_boundary_def)
  then obtain c cs where c: "b = c # cs" by (cases b) auto
  have "auto_step b c (mp_s_start, 0) = auto_step b c (mp_s_start_boundary, 0)" by (simp add: auto_step_def)
  then have 1: "auto_run b b (mp_s_start, 0) = Some (?s, [])"
    using run_first_boundary [of b 0 b] unfolding c by simp
  obtain s1 where 2: "auto_run b (concat (map (render_part b) xs)) ?s = Some (s1, concat (map part_events xs))"
    and s1: "xs \<noteq> [] \<longrightarrow> s1 = (mp_s_part_data_almost_end, length b)"
    using run_parts [OF assms(1,3), of ?s] by (auto simp: before_part_def)
  have 3: "auto_run b ''--'' s1 = Some ((mp_s_end, length b), [Body_End])"
    using s1 assms(2) by (simp add: auto_step_def)
  show ?thesis unfolding render_multipart_def
    using auto_append [OF 1 auto_append [OF 2 3]] by simp
qed

section \<open>Reads\<close>

fun mp_feed :: "'u multipart_parser_settings \<Rightarrow> byte list list \<Rightarrow> multipart_parser \<times> 'u
    \<Rightarrow> (multipart_parser \<times> 'u) option" where
  "mp_feed st [] s = Some s"
| "mp_feed st (c # cs) (p, u) = (case multipart_parser_execute st p c u of
       Some (n, p1, u1) \<Rightarrow> if n = length c then mp_feed st cs (p1, u1) else None
     | None \<Rightarrow> None)"

fun clean_cuts :: "byte list \<Rightarrow> byte list list \<Rightarrow> mp_abs \<Rightarrow> bool" where
  "clean_cuts b [] s \<longleftrightarrow> True"
| "clean_cuts b (c # cs) s \<longleftrightarrow> (case auto_run b c s of
       None \<Rightarrow> True
     | Some (s1, e) \<Rightarrow> clean_cut s1 c \<and> clean_cuts b cs s1)"

lemma auto_run_appendD:
  "auto_run b (xs @ ys) s = Some (s2, e) \<Longrightarrow>
   \<exists>s1 e1 e2. auto_run b xs s = Some (s1, e1) \<and> auto_run b ys s1 = Some (s2, e2) \<and> e = e1 @ e2"
proof (induction xs arbitrary: s e)
  case (Cons x xs)
  obtain s1 e1 e' where 1: "auto_step b x s = Some (s1, e1)" "auto_run b (xs @ ys) s1 = Some (s2, e')" "e = e1 @ e'"
    using Cons.prems by (auto simp: Option.bind_eq_Some_conv)
  then show ?case using Cons.IH [OF 1(2)] by (auto simp: Option.bind_eq_Some_conv)
qed auto

lemma feed_implements:
  assumes "mp_wf p" and "auto_run (mp_boundary p) (concat cs) (mp_abs p) = Some (s, ev)"
    and "clean_cuts (mp_boundary p) cs (mp_abs p)"
  shows "\<exists>p1. mp_feed mp_recorder cs (p, u) = Some (p1, u @ ev) \<and> mp_abs p1 = s \<and> mp_wf p1"
  using assms
proof (induction cs arbitrary: p u ev)
  case (Cons c cs)
  obtain s1 e1 e2 where 1: "auto_run (mp_boundary p) c (mp_abs p) = Some (s1, e1)"
    and 2: "auto_run (mp_boundary p) (concat cs) s1 = Some (s, e2)" and ev: "ev = e1 @ e2"
    using auto_run_appendD [of "mp_boundary p" c "concat cs" "mp_abs p" s ev] Cons.prems(2) by auto
  have cut: "clean_cut s1 c" "clean_cuts (mp_boundary p) cs s1" using Cons.prems(3) 1 by auto
  obtain p1 where p1: "multipart_parser_execute mp_recorder p c u = Some (length c, p1, u @ e1)"
    "mp_abs p1 = s1" "mp_wf p1" "mp_boundary p1 = mp_boundary p"
    using execute_implements [OF Cons.prems(1) 1 cut(1), of u] by (auto simp: same_boundary_def)
  then show ?case using Cons.IH [of p1 e2 "u @ e1"] 2 cut(2) ev by simp
qed simp

lemma mp_wf_init:
  assumes "valid_boundary b" and "length b + 9 \<le> length junk"
  shows "mp_wf (multipart_parser_init b junk)" and "mp_boundary (multipart_parser_init b junk) = b"
    and "mp_abs (multipart_parser_init b junk) = (mp_s_start, 0)"
  using assms by (auto simp: mp_wf_def multipart_parser_init_def mp_boundary_def mp_abs_def valid_boundary_def)

text \<open>Bytes at which the loop changes nothing.\<close>

lemma mp_loop_stay:
  assumes "\<And>j. j < n \<Longrightarrow> mp_byte st buf j m p u = Some (MNext p m u)" and "n \<le> length buf"
  shows "mp_loop st buf (n + f) p 0 m u = mp_loop st buf f p n m u"
  using assms
proof (induction n arbitrary: f)
  case (Suc n)
  have "mp_loop st buf (n + Suc f) p 0 m u = mp_loop st buf (Suc f) p n m u"
    using Suc.prems by (intro Suc.IH) simp_all
  also have "\<dots> = mp_loop st buf f p (Suc n) m u" using Suc.prems by (simp add: mp_loop_next)
  finally show ?case by simp
qed simp

section \<open>Properties\<close>


definition mp_example :: multipart_parser where
  "mp_example = multipart_parser_init ''--xy'' (replicate 13 NUL)"


text \<open>
  C20. On every read that the automaton of the multipart format accepts and that does not end at
  one of the two bad places, the parser consumes the whole read, hands over exactly the bytes
  and notifications of the automaton, and ends in the automaton's state.
\<close>

theorem multipart_execute_refines_automaton:
  assumes "mp_wf p" and "auto_run (mp_boundary p) buf (mp_abs p) = Some (s, ev)" and "clean_cut s buf"
  shows "\<exists>q. multipart_parser_execute mp_recorder p buf u = Some (length buf, q, u @ ev) \<and> mp_abs q = s \<and> mp_wf q"
  using execute_implements [OF assms, of u] by blast

theorem multipart_execute_refines_automaton_witness:
  "\<exists>q. multipart_parser_execute mp_recorder mp_example ''--x'' [] = Some (length ''--x'', q, [] @ [])
    \<and> mp_abs q = (mp_s_start_boundary, 3) \<and> mp_wf q"
  by (rule multipart_execute_refines_automaton)
    (simp_all add: mp_example_def multipart_parser_init_def mp_wf_def mp_boundary_def mp_abs_def clean_cut_def
      auto_step_def auto_start_def eval_nat_numeral)

text \<open>
  C21. A multipart body rendered from any parts, with data in which the delimiter does not occur,
  and cut into reads that avoid the two bad places, is handed over part by part: every header
  name and value, every byte of the data, and nothing else.
\<close>

theorem multipart_roundtrip:
  assumes "valid_boundary b" and "length b + 9 \<le> length junk" and "list_all (valid_part b) xs" and "xs \<noteq> []"
    and "concat cs = render_multipart b xs" and "clean_cuts b cs (mp_s_start, 0)"
  shows "\<exists>p. mp_feed mp_recorder cs (multipart_parser_init b junk, u) =
      Some (p, u @ concat (map part_events xs) @ [Body_End]) \<and> mp_state p = mp_s_end"
proof -
  note init = mp_wf_init [OF assms(1,2)]
  obtain p where "mp_feed mp_recorder cs (multipart_parser_init b junk, u) =
      Some (p, u @ concat (map part_events xs) @ [Body_End])" "mp_abs p = (mp_s_end, length b)"
    using feed_implements [OF init(1), of cs "(mp_s_end, length b)" "concat (map part_events xs) @ [Body_End]" u]
      run_multipart [OF assms(3,4,1)] assms(5,6) by (auto simp: init(2,3))
  then show ?thesis by (auto simp: mp_abs_def)
qed

theorem multipart_roundtrip_witness:
  "\<exists>p. mp_feed mp_recorder [render_multipart ''--xy'' [\<lparr>part_headers = [(''A'', ''b'')], part_data = ''data''\<rparr>]]
      (multipart_parser_init ''--xy'' (replicate 13 NUL), []) =
      Some (p, [] @ concat (map part_events [\<lparr>part_headers = [(''A'', ''b'')], part_data = ''data''\<rparr>]) @ [Body_End])
    \<and> mp_state p = mp_s_end"
proof (rule multipart_roundtrip)
  let ?x = "\<lparr>part_headers = [(''A'', ''b'')], part_data = ''data''\<rparr>"
  show b: "valid_boundary ''--xy''" by (simp add: valid_boundary_def)
  have "is_letter CHR ''A''" by (simp add: is_letter_def of_char_def)
  moreover have "\<not> sublist (mp_delimiter ''--xy'') ''data''"
    by (simp add: mp_delimiter_def sublist_code)
  ultimately show x: "list_all (valid_part ''--xy'') [?x]"
    by (simp add: valid_part_def valid_mp_header_def)
  show "clean_cuts ''--xy'' [render_multipart ''--xy'' [?x]] (mp_s_start, 0)"
    using run_multipart [OF x _ b] by (simp add: clean_cut_def)
qed simp_all

text \<open>
  C22. When the \<^verbatim>\<open>CR\<close> that ends a header value is the last byte of a read, the part of the value in
  this read is handed over twice, the second time with the \<^verbatim>\<open>CR\<close>.
\<close>

theorem multipart_value_doubled:
  assumes "mp_state p = mp_s_header_value" and "CR \<notin> set v"
  shows "multipart_parser_execute mp_recorder p (v @ [CR]) u =
    Some (length v + 1, p\<lparr>mp_state := mp_s_header_value_almost_done\<rparr>, u @ map Value v @ map Value (v @ [CR]))"
proof -
  let ?buf = "v @ [CR]"
  have "mp_byte mp_recorder ?buf j 0 p u = Some (MNext p 0 u)" if "j < length v" for j
  proof -
    have "?buf ! j \<noteq> CR" using assms(2) that by (metis nth_append nth_mem)
    then show ?thesis using assms(1) that by (simp add: mp_byte_def at_mp_header_value_def)
  qed
  then have "mp_loop mp_recorder ?buf (length v + (length v + 2)) p 0 0 u =
      mp_loop mp_recorder ?buf (length v + 2) p (length v) 0 u"
    by (intro mp_loop_stay) simp_all
  moreover have "mp_byte mp_recorder ?buf (length v) 0 p u =
      Some (MNext (p\<lparr>mp_state := mp_s_header_value_almost_done\<rparr>) 0 (u @ map Value v @ map Value ?buf))"
    using assms(1) by (simp add: mp_byte_def at_mp_header_value_def emit_recorder seg_def)
  ultimately show ?thesis
    by (simp add: multipart_parser_execute_def mp_loop_next mp_loop_end mult_2)
qed

theorem multipart_value_doubled_witness:
  "multipart_parser_execute mp_recorder (mp_example\<lparr>mp_state := mp_s_header_value\<rparr>) (''ab'' @ [CR]) [] =
    Some (length ''ab'' + 1, mp_example\<lparr>mp_state := mp_s_header_value, mp_state := mp_s_header_value_almost_done\<rparr>,
      [] @ map Value ''ab'' @ map Value (''ab'' @ [CR]))"
  by (rule multipart_value_doubled) simp_all

text \<open>
  C23. When the last byte of a read is a \<^verbatim>\<open>-\<close> in a header name, the part of the name in this read is
  not handed over at all.
\<close>

theorem multipart_hyphen_loses_name:
  assumes "mp_state p = mp_s_header_field" and "\<forall>c \<in> set n. is_letter c \<or> c = CHR ''-''"
  shows "multipart_parser_execute mp_recorder p (n @ ''-'') u = Some (length n + 1, p, u)"
proof -
  let ?buf = "n @ ''-''"
  have "mp_byte mp_recorder ?buf j 0 p u = Some (MNext p 0 u)" if "j < length ?buf" for j
  proof (cases "j = length n")
    case True
    then show ?thesis using assms(1) by (simp add: mp_byte_def at_mp_header_field_def)
  next
    case False
    then have j: "j < length n" "?buf ! j = n ! j" using that by (simp_all add: nth_append)
    then have "is_letter (n ! j) \<or> n ! j = CHR ''-''" using assms(2) by simp
    moreover have "\<not> is_letter CR" "\<not> is_letter CHR '':''" by (simp_all add: is_letter_def of_char_def)
    ultimately show ?thesis using assms(1) j by (auto simp: mp_byte_def at_mp_header_field_def Let_def)
  qed
  then have "mp_loop mp_recorder ?buf (length ?buf + length ?buf) p 0 0 u =
      mp_loop mp_recorder ?buf (length ?buf) p (length ?buf) 0 u"
    by (intro mp_loop_stay) simp_all
  then show ?thesis by (simp add: multipart_parser_execute_def mp_loop_end mult_2)
qed

theorem multipart_hyphen_loses_name_witness:
  "multipart_parser_execute mp_recorder (mp_example\<lparr>mp_state := mp_s_header_field\<rparr>) (''Content'' @ ''-'') [] =
    Some (length ''Content'' + 1, mp_example\<lparr>mp_state := mp_s_header_field\<rparr>, [])"
  by (rule multipart_hyphen_loses_name) (simp_all add: is_letter_def of_char_def)

end
