(* ===== verification/Event_Loop.thy ===== *)
theory Event_Loop
  imports Evnet_Prelude
begin

text \<open>
  The event loop (\<^verbatim>\<open>event.h\<close>, \<^verbatim>\<open>event.c\<close>) in its \<^verbatim>\<open>epoll\<close> build: the table of registered
  events, the operations that change it, and the dispatch of fired events.

  The kernel is a parameter: \<open>ctl\<close> stands for \<^verbatim>\<open>epoll_ctl\<close> on the loop's epoll descriptor, a
  function of the kernel state \<open>'k\<close>, and \<open>poll\<close> for \<^verbatim>\<open>epoll_wait\<close>. Handlers are identified by
  values of a type \<open>'p\<close>, what they are given by a type \<open>'d\<close>. An access outside the table of
  events yields \<open>None\<close>.
\<close>

unbundle bit_operations_syntax

section \<open>The table of events\<close>

definition AE_NONE :: u32 where "AE_NONE = 0"
definition AE_READABLE :: u32 where "AE_READABLE = 1"
definition AE_WRITABLE :: u32 where "AE_WRITABLE = 2"

lemmas ae_masks = AE_NONE_def AE_READABLE_def AE_WRITABLE_def

text \<open>The fields of a fresh entry hold whatever \<^verbatim>\<open>malloc\<close> left there: \<open>None\<close>.\<close>

record ('p, 'd) aeFileEvent =
  fe_mask :: u32
  rfileProc :: "'p option"
  wfileProc :: "'p option"
  clientData :: "'d option"

record ('p, 'd) aeEventLoop =
  maxfd :: int
  setsize :: int
  cycle :: int
  events :: "('p, 'd) aeFileEvent list"

definition event_at :: "('p, 'd) aeEventLoop \<Rightarrow> int \<Rightarrow> ('p, 'd) aeFileEvent option" where
  "event_at l fd = (if 0 \<le> fd \<and> nat fd < length (events l) then Some (events l ! nat fd) else None)"

definition set_event :: "('p, 'd) aeEventLoop \<Rightarrow> int \<Rightarrow> ('p, 'd) aeFileEvent \<Rightarrow> ('p, 'd) aeEventLoop" where
  "set_event l fd fe = l\<lparr>events := (events l)[nat fd := fe]\<rparr>"

definition ae_fresh_loop :: "nat \<Rightarrow> int \<Rightarrow> ('p, 'd) aeEventLoop" where
  "ae_fresh_loop n cyc =
     \<lparr>maxfd = -1, setsize = int n, cycle = cyc,
      events = replicate n \<lparr>fe_mask = AE_NONE, rfileProc = None, wfileProc = None, clientData = None\<rparr>\<rparr>"

text \<open>\<open>epfd\<close> is what \<^verbatim>\<open>epoll_create\<close> returned.\<close>

definition aeCreateEventLoop :: "int \<Rightarrow> nat \<Rightarrow> int \<Rightarrow> ('p, 'd) aeEventLoop option" where
  "aeCreateEventLoop epfd n cyc = (if epfd = -1 then None else Some (ae_fresh_loop n cyc))"

section \<open>Telling the kernel\<close>

datatype epoll_op = EPOLL_CTL_ADD | EPOLL_CTL_MOD | EPOLL_CTL_DEL

definition EPOLLIN :: u32 where "EPOLLIN = 1"
definition EPOLLOUT :: u32 where "EPOLLOUT = 4"
definition EPOLLERR :: u32 where "EPOLLERR = 8"
definition EPOLLHUP :: u32 where "EPOLLHUP = 16"

lemmas epoll_bits = EPOLLIN_def EPOLLOUT_def EPOLLERR_def EPOLLHUP_def

type_synonym 'k epoll_ctl = "epoll_op \<Rightarrow> int \<Rightarrow> u32 \<Rightarrow> 'k \<Rightarrow> int \<times> 'k"

definition epoll_events :: "u32 \<Rightarrow> u32" where
  "epoll_events msk =
     (if msk AND AE_READABLE \<noteq> 0 then EPOLLIN else 0) OR (if msk AND AE_WRITABLE \<noteq> 0 then EPOLLOUT else 0)"

definition aeApiAddEvent :: "'k epoll_ctl \<Rightarrow> ('p, 'd) aeFileEvent \<Rightarrow> int \<Rightarrow> u32 \<Rightarrow> 'k \<Rightarrow> int \<times> 'k" where
  "aeApiAddEvent ctl fe fd msk k =
     (let op = (if fe_mask fe = AE_NONE then EPOLL_CTL_ADD else EPOLL_CTL_MOD);
          mask1 = msk OR fe_mask fe;
          (r, k1) = ctl op fd (epoll_events mask1) k
      in if r = -1 then (-1, k1) else (0, k1))"

definition aeApiDelEvent :: "'k epoll_ctl \<Rightarrow> ('p, 'd) aeFileEvent \<Rightarrow> int \<Rightarrow> u32 \<Rightarrow> 'k \<Rightarrow> 'k" where
  "aeApiDelEvent ctl fe fd delmask k =
     (let msk = fe_mask fe AND NOT delmask
      in if msk \<noteq> AE_NONE then snd (ctl EPOLL_CTL_MOD fd (epoll_events msk) k)
         else snd (ctl EPOLL_CTL_DEL fd (epoll_events msk) k))"

section \<open>Registering and removing events\<close>

definition aeCreateFileEvent :: "'k epoll_ctl \<Rightarrow> int \<Rightarrow> u32 \<Rightarrow> 'p \<Rightarrow> 'd
    \<Rightarrow> ('p, 'd) aeEventLoop \<times> 'k \<Rightarrow> (int \<times> ('p, 'd) aeEventLoop \<times> 'k) option" where
  "aeCreateFileEvent ctl fd msk proc data s = (case s of (l, k) \<Rightarrow>
     if setsize l \<le> fd then Some (-1, l, k)
     else do {
       fe \<leftarrow> event_at l fd;
       (case aeApiAddEvent ctl fe fd msk k of (r, k1) \<Rightarrow>
          if r = -1 then Some (-1, l, k1)
          else
            let fe1 = fe\<lparr>fe_mask := fe_mask fe OR msk\<rparr>;
                fe2 = (if msk AND AE_READABLE \<noteq> 0 then fe1\<lparr>rfileProc := Some proc\<rparr> else fe1);
                fe3 = (if msk AND AE_WRITABLE \<noteq> 0 then fe2\<lparr>wfileProc := Some proc\<rparr> else fe2);
                l1 = set_event l fd (fe3\<lparr>clientData := Some data\<rparr>)
            in Some (0, if maxfd l1 < fd then l1\<lparr>maxfd := fd\<rparr> else l1, k1))
     })"

text \<open>The search for the highest entry below \<open>j\<close> that is in use.\<close>

fun last_registered :: "('p, 'd) aeFileEvent list \<Rightarrow> nat \<Rightarrow> int" where
  "last_registered es 0 = -1"
| "last_registered es (Suc j) = (if fe_mask (es ! j) \<noteq> AE_NONE then int j else last_registered es j)"

definition aeDeleteFileEvent :: "'k epoll_ctl \<Rightarrow> int \<Rightarrow> u32 \<Rightarrow> ('p, 'd) aeEventLoop \<times> 'k
    \<Rightarrow> (('p, 'd) aeEventLoop \<times> 'k) option" where
  "aeDeleteFileEvent ctl fd msk s = (case s of (l, k) \<Rightarrow>
     if setsize l \<le> fd then Some (l, k)
     else do {
       fe \<leftarrow> event_at l fd;
       if fe_mask fe = AE_NONE then Some (l, k)
       else
         let fe1 = fe\<lparr>fe_mask := fe_mask fe AND NOT msk\<rparr>;
             l1 = set_event l fd fe1;
             l2 = (if fd = maxfd l1 \<and> fe_mask fe1 = AE_NONE
                   then l1\<lparr>maxfd := last_registered (events l1) (nat (maxfd l1))\<rparr> else l1)
         in Some (l2, aeApiDelEvent ctl fe1 fd msk k)
     })"

section \<open>Dispatching fired events\<close>

definition fired_mask :: "u32 \<Rightarrow> u32" where
  "fired_mask ev =
     (if ev AND EPOLLIN \<noteq> 0 then AE_READABLE else 0)
     OR (if ev AND EPOLLOUT \<noteq> 0 then AE_WRITABLE else 0)
     OR (if ev AND EPOLLERR \<noteq> 0 then AE_WRITABLE else 0)
     OR (if ev AND EPOLLHUP \<noteq> 0 then AE_WRITABLE else 0)"

text \<open>
  Handlers are given by \<open>call\<close>; they may change the whole state \<open>'s\<close>, of which \<open>get\<close> reads the
  loop. The entry of the event is a pointer: it is read again after the first handler.
\<close>

definition fire :: "('s \<Rightarrow> ('p, 'd) aeEventLoop) \<Rightarrow> ('p \<Rightarrow> int \<Rightarrow> 'd \<Rightarrow> u32 \<Rightarrow> 's \<Rightarrow> 's option)
    \<Rightarrow> int \<times> u32 \<Rightarrow> 's \<Rightarrow> 's option" where
  "fire get call f s = (case f of (fd, msk) \<Rightarrow> do {
     fe \<leftarrow> event_at (get s) fd;
     (rfired, s1) \<leftarrow>
       (if fe_mask fe AND msk AND AE_READABLE \<noteq> 0
        then do { p \<leftarrow> rfileProc fe; d \<leftarrow> clientData fe; s1 \<leftarrow> call p fd d msk s; Some (True, s1) }
        else Some (False, s));
     fe1 \<leftarrow> event_at (get s1) fd;
     if fe_mask fe1 AND msk AND AE_WRITABLE \<noteq> 0 \<and> (\<not> rfired \<or> wfileProc fe1 \<noteq> rfileProc fe1)
     then do { p \<leftarrow> wfileProc fe1; d \<leftarrow> clientData fe1; call p fd d msk s1 }
     else Some s1
   })"

fun fire_all :: "('s \<Rightarrow> ('p, 'd) aeEventLoop) \<Rightarrow> ('p \<Rightarrow> int \<Rightarrow> 'd \<Rightarrow> u32 \<Rightarrow> 's \<Rightarrow> 's option)
    \<Rightarrow> (int \<times> u32) list \<Rightarrow> 's \<Rightarrow> (nat \<times> 's) option" where
  "fire_all get call [] s = Some (0, s)"
| "fire_all get call (f # fs) s = do {
     s1 \<leftarrow> fire get call f s;
     (n, s2) \<leftarrow> fire_all get call fs s1;
     Some (Suc n, s2)
   }"

definition aeApiPoll :: "(int \<Rightarrow> int \<Rightarrow> 's \<Rightarrow> (int \<times> u32) list \<times> 's) \<Rightarrow> ('p, 'd) aeEventLoop \<Rightarrow> 's
    \<Rightarrow> (int \<times> u32) list \<times> 's" where
  "aeApiPoll poll l s =
     (let tv_usec = cycle l * 1000;
          (es, s1) = poll (setsize l) (0 * 1000 + tv_usec div 1000) s
      in (map (\<lambda>(fd, ev). (fd, fired_mask ev)) es, s1))"

definition aeProcessEvents :: "(int \<Rightarrow> int \<Rightarrow> 's \<Rightarrow> (int \<times> u32) list \<times> 's) \<Rightarrow> ('s \<Rightarrow> ('p, 'd) aeEventLoop)
    \<Rightarrow> ('p \<Rightarrow> int \<Rightarrow> 'd \<Rightarrow> u32 \<Rightarrow> 's \<Rightarrow> 's option) \<Rightarrow> 's \<Rightarrow> (nat \<times> 's) option" where
  "aeProcessEvents poll get call s =
     (if maxfd (get s) \<noteq> -1 then case aeApiPoll poll (get s) s of (fs, s1) \<Rightarrow> fire_all get call fs s1
      else Some (0, s))"

section \<open>The invariant\<close>

text \<open>
  What the kernel is documented to do: \<open>interest k fd\<close> are the events it watches on a descriptor,
  if it watches any. Adding fails for a descriptor already watched, the others for one that is
  not; a failing call changes nothing.
\<close>

definition epoll_spec :: "'k epoll_ctl \<Rightarrow> ('k \<Rightarrow> int \<Rightarrow> u32 option) \<Rightarrow> bool" where
  "epoll_spec ctl interest \<longleftrightarrow> (\<forall>op fd ev k. case ctl op fd ev k of (r, k1) \<Rightarrow>
     (r = -1 \<longrightarrow> interest k1 = interest k)
     \<and> (r \<noteq> -1 \<longrightarrow> interest k1 = (interest k)(fd := if op = EPOLL_CTL_DEL then None else Some ev))
     \<and> (op \<noteq> EPOLL_CTL_ADD \<and> interest k fd \<noteq> None \<longrightarrow> r \<noteq> -1))"

definition ae_wf :: "('p, 'd) aeEventLoop \<Rightarrow> bool" where
  "ae_wf l \<longleftrightarrow> setsize l = int (length (events l)) \<and> maxfd l = last_registered (events l) (length (events l))"

definition watched :: "('p, 'd) aeEventLoop \<Rightarrow> int \<Rightarrow> u32 option" where
  "watched l fd = (case event_at l fd of
       None \<Rightarrow> None
     | Some fe \<Rightarrow> if fe_mask fe = AE_NONE then None else Some (epoll_events (fe_mask fe)))"

text \<open>The kernel watches exactly what is registered.\<close>

definition ae_inv :: "('k \<Rightarrow> int \<Rightarrow> u32 option) \<Rightarrow> ('p, 'd) aeEventLoop \<times> 'k \<Rightarrow> bool" where
  "ae_inv interest s \<longleftrightarrow> ae_wf (fst s) \<and> interest (snd s) = watched (fst s)"

lemma epoll_specD:
  assumes "epoll_spec ctl interest" and "ctl op fd ev k = (r, k1)"
  shows "r = -1 \<Longrightarrow> interest k1 = interest k"
    and "r \<noteq> -1 \<Longrightarrow> interest k1 = (interest k)(fd := if op = EPOLL_CTL_DEL then None else Some ev)"
    and "op \<noteq> EPOLL_CTL_ADD \<Longrightarrow> interest k fd \<noteq> None \<Longrightarrow> r \<noteq> -1"
proof -
  note assms(1) [unfolded epoll_spec_def, THEN spec [of _ op], THEN spec [of _ fd],
      THEN spec [of _ ev], THEN spec [of _ k]]
  then show "r = -1 \<Longrightarrow> interest k1 = interest k"
    and "r \<noteq> -1 \<Longrightarrow> interest k1 = (interest k)(fd := if op = EPOLL_CTL_DEL then None else Some ev)"
    and "op \<noteq> EPOLL_CTL_ADD \<Longrightarrow> interest k fd \<noteq> None \<Longrightarrow> r \<noteq> -1"
    using assms(2) by auto
qed

lemma last_registered_less: "last_registered es n < int n"
  by (induction n) auto

lemma last_registered_ge: "-1 \<le> last_registered es n"
  by (induction n) auto

lemma last_registered_is: "last_registered es n = int j \<Longrightarrow> fe_mask (es ! j) \<noteq> AE_NONE"
  by (induction n) (auto split: if_splits)

lemma last_registered_above:
  "last_registered es n < int j \<Longrightarrow> j < n \<Longrightarrow> fe_mask (es ! j) = AE_NONE"
  by (induction n) (auto split: if_splits simp: less_Suc_eq)

lemma last_registered_eqI:
  assumes "\<And>j. j < n \<Longrightarrow> m < int j \<Longrightarrow> fe_mask (es ! j) = AE_NONE"
    and "m = -1 \<or> (\<exists>j<n. m = int j \<and> fe_mask (es ! j) \<noteq> AE_NONE)"
  shows "last_registered es n = m"
  using assms
proof (induction n)
  case (Suc n)
  show ?case
  proof (cases "fe_mask (es ! n) = AE_NONE")
    case True
    have "m = -1 \<or> (\<exists>j<n. m = int j \<and> fe_mask (es ! j) \<noteq> AE_NONE)"
      using Suc.prems(2) True less_Suc_eq by auto
    then have "last_registered es n = m" using Suc.prems(1) by (intro Suc.IH) auto
    then show ?thesis using True by simp
  next
    case False
    then have "\<not> m < int n" using Suc.prems(1) by auto
    then have "m = int n" using Suc.prems(2) by auto
    then show ?thesis using False by simp
  qed
qed auto

text \<open>Below the highest entry the search may start anywhere.\<close>

lemma last_registered_cut:
  assumes "n \<le> k" and "\<And>j. n \<le> j \<Longrightarrow> j < k \<Longrightarrow> fe_mask (es ! j) = AE_NONE"
  shows "last_registered es k = last_registered es n"
  using assms by (induction k) (auto simp: le_Suc_eq)

lemma event_at_Some: "event_at l fd = Some fe \<Longrightarrow> 0 \<le> fd \<and> nat fd < length (events l) \<and> fe = events l ! nat fd"
  by (simp add: event_at_def split: if_splits)

lemma event_at_set:
  "0 \<le> fd \<Longrightarrow> nat fd < length (events l) \<Longrightarrow>
   event_at (set_event l fd fe) fd1 = (if fd1 = fd then Some fe else event_at l fd1)"
  by (auto simp: event_at_def set_event_def nth_list_update)

lemma event_at_fields [simp]: "event_at (l\<lparr>maxfd := m\<rparr>) fd = event_at l fd"
  by (simp add: event_at_def)

lemma watched_set:
  "0 \<le> fd \<Longrightarrow> nat fd < length (events l) \<Longrightarrow>
   watched (set_event l fd fe) =
     (watched l)(fd := if fe_mask fe = AE_NONE then None else Some (epoll_events (fe_mask fe)))"
  by (auto simp: watched_def event_at_set fun_eq_iff)

lemma watched_fields [simp]: "watched (l\<lparr>maxfd := m\<rparr>) = watched l"
  by (simp add: watched_def fun_eq_iff)

lemma last_registered_fresh: "fe_mask fe = AE_NONE \<Longrightarrow> m \<le> n \<Longrightarrow> last_registered (replicate n fe) m = -1"
  by (induction m) auto

lemma ae_inv_init: "interest k = (\<lambda>_. None) \<Longrightarrow> ae_inv interest (ae_fresh_loop n cyc, k)"
  by (simp add: ae_inv_def ae_wf_def ae_fresh_loop_def watched_def event_at_def fun_eq_iff last_registered_fresh)

lemma wf_set_max:
  assumes wf: "ae_wf l" and fd: "0 \<le> fd" "nat fd < length (events l)" and used: "fe_mask fe \<noteq> AE_NONE"
  shows "ae_wf (let l1 = set_event l fd fe in if maxfd l1 < fd then l1\<lparr>maxfd := fd\<rparr> else l1)"
proof -
  let ?es = "(events l)[nat fd := fe]" and ?n = "length (events l)"
  have m: "maxfd l = last_registered (events l) ?n" using wf by (simp add: ae_wf_def)
  have "last_registered ?es ?n = (if maxfd l < fd then fd else maxfd l)"
  proof (rule last_registered_eqI)
    fix j assume j: "j < ?n" "(if maxfd l < fd then fd else maxfd l) < int j"
    then have "j \<noteq> nat fd" "last_registered (events l) ?n < int j" using fd m by (auto split: if_splits)
    then show "fe_mask (?es ! j) = AE_NONE" using last_registered_above j(1) by (simp add: nth_list_update)
  next
    show "(if maxfd l < fd then fd else maxfd l) = -1 \<or>
        (\<exists>j<?n. (if maxfd l < fd then fd else maxfd l) = int j \<and> fe_mask (?es ! j) \<noteq> AE_NONE)"
    proof (cases "maxfd l < fd")
      case True
      then show ?thesis using fd used by (intro disjI2 exI [of _ "nat fd"]) simp
    next
      case False
      then have "maxfd l = int (nat (maxfd l))" using fd by simp
      then have "fe_mask (events l ! nat (maxfd l)) \<noteq> AE_NONE" "nat (maxfd l) < ?n"
        using last_registered_is [of "events l" ?n "nat (maxfd l)"] last_registered_less [of "events l" ?n] m fd
        by (simp_all add: nat_less_iff)
      then show ?thesis using False fd used
        by (intro disjI2 exI [of _ "nat (maxfd l)"]) (auto simp: nth_list_update)
    qed
  qed
  then show ?thesis using wf by (simp add: ae_wf_def set_event_def Let_def)
qed

lemma wf_clear_max:
  assumes wf: "ae_wf l" and fd: "0 \<le> fd" "nat fd < length (events l)"
    and was: "fe_mask (events l ! nat fd) \<noteq> AE_NONE"
  shows "ae_wf (let l1 = set_event l fd fe in if fd = maxfd l1 \<and> fe_mask fe = AE_NONE
     then l1\<lparr>maxfd := last_registered (events l1) (nat (maxfd l1))\<rparr> else l1)"
proof -
  let ?es = "(events l)[nat fd := fe]" and ?n = "length (events l)"
  have m: "maxfd l = last_registered (events l) ?n" using wf by (simp add: ae_wf_def)
  have above: "fe_mask (events l ! j) = AE_NONE" if "maxfd l < int j" "j < ?n" for j
    using last_registered_above that m by metis
  have le: "fd \<le> maxfd l"
  proof (rule ccontr)
    assume "\<not> fd \<le> maxfd l"
    then show False using above [of "nat fd"] fd was by simp
  qed
  have less: "maxfd l < int ?n" using last_registered_less [of "events l" ?n] m by simp
  show ?thesis
  proof (cases "fd = maxfd l \<and> fe_mask fe = AE_NONE")
    case True
    have "last_registered ?es ?n = last_registered ?es (nat fd)"
    proof (rule last_registered_cut)
      fix j assume j: "nat fd \<le> j" "j < ?n"
      show "fe_mask (?es ! j) = AE_NONE"
        using above [of j] j True fd by (cases "j = nat fd") (auto simp: nth_list_update)
    qed (use fd in simp)
    then show ?thesis using True wf by (simp add: ae_wf_def set_event_def Let_def)
  next
    case False
    have "last_registered ?es ?n = maxfd l"
    proof (rule last_registered_eqI)
      fix j assume j: "j < ?n" "maxfd l < int j"
      then show "fe_mask (?es ! j) = AE_NONE" using above [of j] le fd by (auto simp: nth_list_update)
    next
      have "maxfd l = int (nat (maxfd l))" using le fd by simp
      then have "fe_mask (events l ! nat (maxfd l)) \<noteq> AE_NONE"
        using last_registered_is [of "events l" ?n "nat (maxfd l)"] m by simp
      then have "fe_mask (?es ! nat (maxfd l)) \<noteq> AE_NONE"
        using False fd less le by (cases "maxfd l = fd") (auto simp: nth_list_update nat_eq_iff)
      then show "maxfd l = -1 \<or> (\<exists>j<?n. maxfd l = int j \<and> fe_mask (?es ! j) \<noteq> AE_NONE)"
        using less le fd by (intro disjI2 exI [of _ "nat (maxfd l)"]) auto
    qed
    moreover have "\<not> (fd = maxfd l \<and> fe_mask fe = AE_NONE)" using False .
    ultimately show ?thesis using wf unfolding Let_def by (simp add: ae_wf_def set_event_def del: de_Morgan_conj)
  qed
qed

lemma none_and: "AE_NONE AND x = AE_NONE"
  by (simp add: AE_NONE_def)

lemma events_or: "m \<noteq> AE_NONE \<Longrightarrow> a OR m \<noteq> AE_NONE"
  by (simp add: AE_NONE_def or_eq_0_iff)

lemma create_correct:
  assumes spec: "epoll_spec ctl interest" and inv: "ae_inv interest (l, k)" and "0 \<le> fd" and "msk \<noteq> AE_NONE"
  shows "\<exists>r l1 k1. aeCreateFileEvent ctl fd msk p d (l, k) = Some (r, l1, k1) \<and> ae_inv interest (l1, k1)
    \<and> (r = -1 \<longrightarrow> l1 = l) \<and> (r \<noteq> -1 \<longrightarrow> fd < setsize l)"
proof (cases "setsize l \<le> fd")
  case True
  then show ?thesis using inv by (simp add: aeCreateFileEvent_def)
next
  case False
  then have fd: "0 \<le> fd" "nat fd < length (events l)" using inv assms(3) by (auto simp: ae_inv_def ae_wf_def)
  let ?fe = "events l ! nat fd"
  let ?op = "if fe_mask ?fe = AE_NONE then EPOLL_CTL_ADD else EPOLL_CTL_MOD"
  have at: "event_at l fd = Some ?fe" using fd by (simp add: event_at_def)
  obtain r k1 where ctl: "ctl ?op fd (epoll_events (msk OR fe_mask ?fe)) k = (r, k1)" by fastforce
  have k1: "r = -1 \<Longrightarrow> interest k1 = interest k"
    "r \<noteq> -1 \<Longrightarrow> interest k1 = (interest k)(fd := Some (epoll_events (msk OR fe_mask ?fe)))"
    using epoll_specD [OF spec ctl] by (simp_all split: if_splits)
  show ?thesis
  proof (cases "r = -1")
    case True
    then show ?thesis using False at ctl k1 inv
      by (auto simp: aeCreateFileEvent_def aeApiAddEvent_def Let_def ae_inv_def)
  next
    case ok: False
    let ?fe1 = "?fe\<lparr>fe_mask := fe_mask ?fe OR msk\<rparr>"
    let ?fe2 = "if msk AND AE_READABLE \<noteq> 0 then ?fe1\<lparr>rfileProc := Some p\<rparr> else ?fe1"
    let ?fe3 = "if msk AND AE_WRITABLE \<noteq> 0 then ?fe2\<lparr>wfileProc := Some p\<rparr> else ?fe2"
    let ?fe4 = "?fe3\<lparr>clientData := Some d\<rparr>"
    let ?l1 = "let l1 = set_event l fd ?fe4 in if maxfd l1 < fd then l1\<lparr>maxfd := fd\<rparr> else l1"
    have mask: "fe_mask ?fe4 = fe_mask ?fe OR msk" by simp
    have res: "aeCreateFileEvent ctl fd msk p d (l, k) = Some (0, ?l1, k1)"
      using False at ctl ok by (simp add: aeCreateFileEvent_def aeApiAddEvent_def Let_def)
    have "ae_wf ?l1"
      by (rule wf_set_max) (use inv fd events_or [OF assms(4)] mask in \<open>simp_all only: ae_inv_def fst_conv not_False_eq_True\<close>)
    moreover have "watched ?l1 = (watched l)(fd := Some (epoll_events (fe_mask ?fe OR msk)))"
      using watched_set [OF fd, of ?fe4] events_or [OF assms(4)] mask by (simp add: Let_def)
    moreover have "interest k = watched l" using inv by (simp add: ae_inv_def)
    ultimately show ?thesis using res k1(2) ok False by (simp add: ae_inv_def or.commute)
  qed
qed

lemma delete_correct:
  assumes spec: "epoll_spec ctl interest" and inv: "ae_inv interest (l, k)" and "0 \<le> fd"
  shows "\<exists>l1 k1. aeDeleteFileEvent ctl fd msk (l, k) = Some (l1, k1) \<and> ae_inv interest (l1, k1)
    \<and> setsize l1 = setsize l"
proof (cases "setsize l \<le> fd")
  case True
  then show ?thesis using inv by (simp add: aeDeleteFileEvent_def)
next
  case False
  then have fd: "0 \<le> fd" "nat fd < length (events l)" using inv assms(3) by (auto simp: ae_inv_def ae_wf_def)
  let ?fe = "events l ! nat fd"
  have at: "event_at l fd = Some ?fe" using fd by (simp add: event_at_def)
  show ?thesis
  proof (cases "fe_mask ?fe = AE_NONE")
    case True
    then show ?thesis using False at inv by (simp add: aeDeleteFileEvent_def)
  next
    case used: False
    let ?fe1 = "?fe\<lparr>fe_mask := fe_mask ?fe AND NOT msk\<rparr>"
    let ?m = "fe_mask ?fe AND NOT msk"
    let ?l1 = "let l1 = set_event l fd ?fe1 in if fd = maxfd l1 \<and> fe_mask ?fe1 = AE_NONE
      then l1\<lparr>maxfd := last_registered (events l1) (nat (maxfd l1))\<rparr> else l1"
    have mm: "?m AND NOT msk = ?m" by (simp add: and.assoc)
    let ?op = "if ?m \<noteq> AE_NONE then EPOLL_CTL_MOD else EPOLL_CTL_DEL"
    obtain r k1 where ctl: "ctl ?op fd (epoll_events ?m) k = (r, k1)" by fastforce
    have seen: "interest k fd \<noteq> None"
      using inv at used by (simp add: ae_inv_def watched_def)
    have k1: "interest k1 = (interest k)(fd := if ?op = EPOLL_CTL_DEL then None else Some (epoll_events ?m))"
      using epoll_specD(2,3) [OF spec ctl] seen by (simp split: if_splits)
    have res: "aeDeleteFileEvent ctl fd msk (l, k) = Some (?l1, k1)"
      using False at used ctl mm by (auto simp: none_and aeDeleteFileEvent_def aeApiDelEvent_def Let_def)
    have "ae_wf ?l1"
      by (rule wf_clear_max) (use inv fd used in \<open>simp_all add: ae_inv_def\<close>)
    moreover have "watched ?l1 = (watched l)(fd := if ?m = AE_NONE then None else Some (epoll_events ?m))"
    proof -
      have "watched ?l1 = watched (set_event l fd ?fe1)" by (simp add: Let_def)
      moreover have "fe_mask ?fe1 = ?m" by simp
      ultimately show ?thesis using watched_set [OF fd, of ?fe1] by (simp only:)
    qed
    moreover have "interest k = watched l" using inv by (simp add: ae_inv_def)
    moreover have "setsize ?l1 = setsize l" by (simp add: Let_def set_event_def)
    ultimately show ?thesis using res k1 by (auto simp: ae_inv_def)
  qed
qed

text \<open>What a registration and a removal do to the entries.\<close>

lemma create_entries:
  assumes "aeCreateFileEvent ctl fd msk p d (l, k) = Some (0, l1, k1)"
  shows "\<exists>fe fe1. event_at l fd = Some fe \<and> event_at l1 fd = Some fe1 \<and> fe_mask fe1 = fe_mask fe OR msk
    \<and> clientData fe1 = Some d
    \<and> rfileProc fe1 = (if msk AND AE_READABLE \<noteq> 0 then Some p else rfileProc fe)
    \<and> wfileProc fe1 = (if msk AND AE_WRITABLE \<noteq> 0 then Some p else wfileProc fe)
    \<and> (\<forall>fd1. fd1 \<noteq> fd \<longrightarrow> event_at l1 fd1 = event_at l fd1)"
proof -
  have "\<not> setsize l \<le> fd" using assms by (auto simp: aeCreateFileEvent_def)
  moreover from this obtain fe where fe: "event_at l fd = Some fe"
    using assms by (auto simp: aeCreateFileEvent_def Option.bind_eq_Some_conv)
  moreover obtain r k2 where api: "aeApiAddEvent ctl fe fd msk k = (r, k2)" by fastforce
  ultimately show ?thesis
    using assms event_at_Some [OF fe]
    by (auto simp: aeCreateFileEvent_def Let_def event_at_set split: if_splits)
qed

lemma delete_entries:
  assumes "aeDeleteFileEvent ctl fd msk (l, k) = Some (l1, k1)" and "event_at l fd = Some fe" and "ae_wf l"
  shows "event_at l1 fd = Some (fe\<lparr>fe_mask := fe_mask fe AND NOT msk\<rparr>)"
    and "fd1 \<noteq> fd \<Longrightarrow> event_at l1 fd1 = event_at l fd1"
proof -
  have "0 \<le> fd" "\<not> setsize l \<le> fd" using event_at_Some [OF assms(2)] assms(3) by (auto simp: ae_wf_def)
  moreover have "fe\<lparr>fe_mask := 0\<rparr> = fe" if "fe_mask fe = 0" using that by simp
  ultimately show "event_at l1 fd = Some (fe\<lparr>fe_mask := fe_mask fe AND NOT msk\<rparr>)"
    and "fd1 \<noteq> fd \<Longrightarrow> event_at l1 fd1 = event_at l fd1"
    using assms event_at_Some [OF assms(2)]
    by (auto simp: aeDeleteFileEvent_def Let_def event_at_set none_and AE_NONE_def split: if_splits)
qed

lemma create_result:
  assumes "aeCreateFileEvent ctl fd msk p d (l, k) = Some (r, l1, k1)"
  shows "r = -1 \<or> r = 0"
proof (cases "setsize l \<le> fd")
  case True
  then show ?thesis using assms by (simp add: aeCreateFileEvent_def)
next
  case False
  then obtain fe where fe: "event_at l fd = Some fe" using assms by (auto simp: aeCreateFileEvent_def Option.bind_eq_Some_conv)
  obtain r2 k2 where "aeApiAddEvent ctl fe fd msk k = (r2, k2)" by fastforce
  then show ?thesis using assms False fe by (cases "r2 = -1") (simp_all add: aeCreateFileEvent_def Let_def)
qed

lemma create_size:
  assumes "aeCreateFileEvent ctl fd msk p d (l, k) = Some (r, l1, k1)"
  shows "setsize l1 = setsize l"
proof (cases "setsize l \<le> fd")
  case True
  then show ?thesis using assms by (simp add: aeCreateFileEvent_def)
next
  case False
  then obtain fe where fe: "event_at l fd = Some fe" using assms by (auto simp: aeCreateFileEvent_def Option.bind_eq_Some_conv)
  obtain r2 k2 where "aeApiAddEvent ctl fe fd msk k = (r2, k2)" by fastforce
  then show ?thesis using assms False fe
    by (cases "r2 = -1") (auto simp: aeCreateFileEvent_def Let_def set_event_def)
qed

text \<open>What \<^verbatim>\<open>epoll_ctl\<close> leaves alone, registering and removing leave alone.\<close>

lemma ctl_frame:
  assumes ctl: "\<And>op fd ev k. P (snd (ctl op fd ev k)) = P k"
  shows "aeCreateFileEvent ctl fd msk p d (l, k) = Some (r, l1, k1) \<Longrightarrow> P k1 = P k"
    and "aeDeleteFileEvent ctl fd msk (l, k) = Some (l1, k1) \<Longrightarrow> P k1 = P k"
proof -
  have call: "ctl op fd ev k = (r, k1) \<Longrightarrow> P k1 = P k" for op fd ev k r k1 using ctl [of op fd ev k] by simp
  then have add: "aeApiAddEvent ctl fe fd msk k = (r, k1) \<Longrightarrow> P k1 = P k" for fe fd msk k r k1
    by (auto simp: aeApiAddEvent_def Let_def split: prod.splits if_splits)
  have del: "P (aeApiDelEvent ctl fe fd msk k) = P k" for fe fd msk k
    using ctl by (simp add: aeApiDelEvent_def Let_def)
  show "P k1 = P k" if cr: "aeCreateFileEvent ctl fd msk p d (l, k) = Some (r, l1, k1)"
  proof (cases "setsize l \<le> fd")
    case True
    then show ?thesis using cr by (simp add: aeCreateFileEvent_def)
  next
    case False
    then obtain fe where fe: "event_at l fd = Some fe"
      using cr by (auto simp: aeCreateFileEvent_def Option.bind_eq_Some_conv)
    obtain r2 k2 where api: "aeApiAddEvent ctl fe fd msk k = (r2, k2)" by fastforce
    then have "k1 = k2" using cr False fe by (cases "r2 = -1") (simp_all add: aeCreateFileEvent_def Let_def)
    then show ?thesis using add [OF api] by simp
  qed
  show "P k1 = P k" if dl: "aeDeleteFileEvent ctl fd msk (l, k) = Some (l1, k1)"
    using dl del by (auto simp: aeDeleteFileEvent_def Let_def Option.bind_eq_Some_conv split: if_splits)
qed

end
