(* ===== verification/Sockets.thy ===== *)
theory Sockets
  imports Event_Loop
begin

text \<open>
  The socket wrappers (\<^verbatim>\<open>aesocket.h\<close>, \<^verbatim>\<open>aesocket.c\<close>) in their POSIX build. The system calls are
  parameters, functions of the kernel state \<open>'k\<close> collected in a record; what a call returns is its
  C result, with the \<^verbatim>\<open>errno\<close> and the data that come with it.
\<close>

section \<open>System calls\<close>

text \<open>The error numbers the code tells apart; on Linux \<^verbatim>\<open>EAGAIN\<close> is \<^verbatim>\<open>EWOULDBLOCK\<close>.\<close>

datatype errno = EWOULDBLOCK | EINPROGRESS | EINTR | EOTHER

record 'k os =
  sys_epoll_ctl :: "'k epoll_ctl"
  sys_epoll_create :: "'k \<Rightarrow> int \<times> 'k"
  sys_epoll_wait :: "int \<Rightarrow> int \<Rightarrow> 'k \<Rightarrow> (int \<times> u32) list \<times> 'k"
  sys_socket :: "int \<Rightarrow> 'k \<Rightarrow> int \<times> 'k"
  sys_reuseaddr :: "int \<Rightarrow> 'k \<Rightarrow> int \<times> 'k"
  sys_getfl :: "int \<Rightarrow> 'k \<Rightarrow> int \<times> 'k"
  sys_setfl :: "int \<Rightarrow> int \<Rightarrow> 'k \<Rightarrow> int \<times> 'k"
  sys_connect :: "int \<Rightarrow> bool \<Rightarrow> byte list \<Rightarrow> u16 \<Rightarrow> 'k \<Rightarrow> (int \<times> errno) \<times> 'k"
  sys_bind :: "int \<Rightarrow> u16 \<Rightarrow> 'k \<Rightarrow> int \<times> 'k"
  sys_listen :: "int \<Rightarrow> int \<Rightarrow> 'k \<Rightarrow> int \<times> 'k"
  sys_accept :: "int \<Rightarrow> 'k \<Rightarrow> (int \<times> errno \<times> byte list \<times> u16) \<times> 'k"
  sys_recv :: "int \<Rightarrow> nat \<Rightarrow> 'k \<Rightarrow> (int \<times> errno \<times> byte list) \<times> 'k"
  sys_send :: "int \<Rightarrow> byte list \<Rightarrow> 'k \<Rightarrow> (int \<times> errno) \<times> 'k"
  sys_close :: "int \<Rightarrow> 'k \<Rightarrow> 'k"
  sys_pipe :: "'k \<Rightarrow> (int \<times> int \<times> int) \<times> 'k"
  sys_read :: "int \<Rightarrow> nat \<Rightarrow> 'k \<Rightarrow> int \<times> 'k"
  sys_write :: "int \<Rightarrow> byte list \<Rightarrow> 'k \<Rightarrow> int \<times> 'k"
  sys_time :: "'k \<Rightarrow> int \<times> 'k"

definition wouldblock :: int where "wouldblock = -2"
definition INVALIDFD :: int where "INVALIDFD = -1"
definition AF_INET :: int where "AF_INET = 2"
definition AF_INET6 :: int where "AF_INET6 = 10"
definition O_NONBLOCK :: int where "O_NONBLOCK = 2048"

definition isIPv6Addr :: "byte list \<Rightarrow> bool" where
  "isIPv6Addr ipStr \<longleftrightarrow> CHR '':'' \<in> set ipStr"

section \<open>The wrappers\<close>

definition aesocnoblock :: "'k os \<Rightarrow> int \<Rightarrow> 'k \<Rightarrow> bool \<times> 'k" where
  "aesocnoblock os soc k =
     (let (flags, k1) = sys_getfl os soc k
      in if flags = -1 then (False, k1)
         else let (r, k2) = sys_setfl os soc (flags OR O_NONBLOCK) k1
              in if r < 0 then (False, k2) else (True, k2))"

definition aesoccreate :: "'k os \<Rightarrow> int \<Rightarrow> bool \<Rightarrow> 'k \<Rightarrow> int \<times> 'k" where
  "aesoccreate os family acceptor k =
     (let (soc, k1) = sys_socket os family k
      in if soc = -1 then (INVALIDFD, k1)
         else let (r, k2) = (if acceptor then sys_reuseaddr os soc k1 else (0, k1))
              in if r = -1 then (INVALIDFD, sys_close os soc k2)
                 else let (ok, k3) = aesocnoblock os soc k2
                      in if \<not> ok then (INVALIDFD, sys_close os soc k3) else (soc, k3))"

definition aesocconnect :: "'k os \<Rightarrow> int \<Rightarrow> byte list \<Rightarrow> u16 \<Rightarrow> 'k \<Rightarrow> int \<times> 'k" where
  "aesocconnect os soc ipStr port k =
     (let ((r, e), k1) = sys_connect os soc (isIPv6Addr ipStr) ipStr port k
      in if r = -1 \<and> e \<noteq> EINPROGRESS then (-1, k1) else (0, k1))"

definition aesoclisten :: "'k os \<Rightarrow> int \<Rightarrow> u16 \<Rightarrow> 'k \<Rightarrow> int \<times> 'k" where
  "aesoclisten os s port k =
     (let (r, k1) = sys_bind os s port k
      in if r < 0 then (-1, k1)
         else let (r, k2) = sys_listen os s 128 k1 in if r < 0 then (-1, k2) else (0, k2))"

text \<open>The result, and on success the accepted descriptor with the address and port of the peer.\<close>

definition aesocaccept :: "'k os \<Rightarrow> int \<Rightarrow> 'k \<Rightarrow> (int \<times> (int \<times> byte list \<times> u16) option) \<times> 'k" where
  "aesocaccept os s k =
     (let ((sockConn, e, ip, port), k1) = sys_accept os s k
      in if sockConn = -1 then ((wouldblock, None), k1)
         else if sockConn < 0 then ((if e = EWOULDBLOCK then wouldblock else -1, None), k1)
         else let (ok, k2) = aesocnoblock os sockConn k1
              in if \<not> ok then ((-1, None), sys_close os sockConn k2)
                 else ((0, Some (sockConn, ip, port)), k2))"

definition aesocclose :: "'k os \<Rightarrow> int \<Rightarrow> 'k \<Rightarrow> 'k" where
  "aesocclose os soc k = sys_close os soc k"

definition aesocwrite :: "'k os \<Rightarrow> int \<Rightarrow> byte list \<Rightarrow> 'k \<Rightarrow> int \<times> 'k" where
  "aesocwrite os soc buf k =
     (if buf = [] then (0, k)
      else let ((r, e), k1) = sys_send os soc buf k
           in if r < 0 then (if e \<noteq> EWOULDBLOCK then -1 else 0, k1)
              else (if r \<le> 0 then 0 else r, k1))"

definition aesocread :: "'k os \<Rightarrow> int \<Rightarrow> nat \<Rightarrow> 'k \<Rightarrow> (int \<times> byte list) \<times> 'k" where
  "aesocread os s len k =
     (if len = 0 then ((0, []), k)
      else let ((r, e, buf), k1) = sys_recv os s len k
           in if r < 0 then ((if e = EOTHER then -1 else 0, []), k1)
              else if r \<le> 0 then ((0, []), k1) else ((r, buf), k1))"

text \<open>\<^verbatim>\<open>time(NULL)\<close> assigned to an \<^verbatim>\<open>unsigned int\<close>.\<close>

definition unix_time :: "'k os \<Rightarrow> 'k \<Rightarrow> u32 \<times> 'k" where
  "unix_time os k = (let (t, k1) = sys_time os k in (word_of_int t, k1))"

section \<open>What the code relies on\<close>

text \<open>
  \<^verbatim>\<open>send\<close> accepts a part of what it is given; \<open>sent k fd\<close> is what a descriptor has accepted so far.
  \<^verbatim>\<open>recv\<close> delivers as many bytes as it says, at most as many as there is room for.
\<close>

definition send_spec :: "'k os \<Rightarrow> ('k \<Rightarrow> int \<Rightarrow> byte list) \<Rightarrow> bool" where
  "send_spec os sent \<longleftrightarrow> (\<forall>fd buf k. case sys_send os fd buf k of ((r, e), k1) \<Rightarrow>
     (0 < r \<longrightarrow> nat r \<le> length buf \<and> sent k1 = (sent k)(fd := sent k fd @ take (nat r) buf))
     \<and> (r \<le> 0 \<longrightarrow> sent k1 = sent k))"

definition recv_spec :: "'k os \<Rightarrow> bool" where
  "recv_spec os \<longleftrightarrow> (\<forall>fd len k. case sys_recv os fd len k of ((r, e, buf), k1) \<Rightarrow>
     0 < r \<longrightarrow> nat r = length buf \<and> length buf \<le> len)"

lemma aesocwrite_correct:
  assumes "send_spec os sent" and "aesocwrite os fd buf k = (r, k1)"
  shows "0 < r \<Longrightarrow> nat r \<le> length buf \<and> sent k1 = (sent k)(fd := sent k fd @ take (nat r) buf)"
    and "r \<le> 0 \<Longrightarrow> sent k1 = sent k"
proof -
  obtain r0 e k0 where s: "sys_send os fd buf k = ((r0, e), k0)" by (metis surj_pair)
  have "case sys_send os fd buf k of ((r, e), k1) \<Rightarrow>
      (0 < r \<longrightarrow> nat r \<le> length buf \<and> sent k1 = (sent k)(fd := sent k fd @ take (nat r) buf))
      \<and> (r \<le> 0 \<longrightarrow> sent k1 = sent k)"
    by (rule assms(1) [unfolded send_spec_def, THEN spec [of _ fd], THEN spec [of _ buf], THEN spec [of _ k]])
  then have "(0 < r0 \<longrightarrow> nat r0 \<le> length buf \<and> sent k0 = (sent k)(fd := sent k fd @ take (nat r0) buf))
      \<and> (r0 \<le> 0 \<longrightarrow> sent k0 = sent k)"
    using s by simp
  then show "0 < r \<Longrightarrow> nat r \<le> length buf \<and> sent k1 = (sent k)(fd := sent k fd @ take (nat r) buf)"
    and "r \<le> 0 \<Longrightarrow> sent k1 = sent k"
    using assms(2) s by (auto simp: aesocwrite_def split: if_splits)
qed

section \<open>Descriptors\<close>

text \<open>
  What the system calls do to the descriptors, as documented: \<open>fst (kv k)\<close> are the events the
  kernel watches on each descriptor, \<open>snd (kv k)\<close> the open descriptors. Closing a descriptor ends
  the watch; a new descriptor is not open and not watched.
\<close>

type_synonym kview = "(int \<Rightarrow> u32 option) \<times> int set"

definition new_fd :: "('k \<Rightarrow> kview) \<Rightarrow> int \<Rightarrow> 'k \<Rightarrow> 'k \<Rightarrow> bool" where
  "new_fd kv fd k k1 \<longleftrightarrow> 0 \<le> fd \<and> fd \<notin> snd (kv k) \<and> fst (kv k) fd = None
     \<and> kv k1 = (fst (kv k), insert fd (snd (kv k)))"

definition os_quiet :: "'k os \<Rightarrow> ('k \<Rightarrow> kview) \<Rightarrow> bool" where
  "os_quiet os kv \<longleftrightarrow> (\<forall>k. kv (snd (sys_time os k)) = kv k)
     \<and> (\<forall>n t k. kv (snd (sys_epoll_wait os n t k)) = kv k)
     \<and> (\<forall>fd n k. kv (snd (sys_recv os fd n k)) = kv k)
     \<and> (\<forall>fd buf k. kv (snd (sys_send os fd buf k)) = kv k)
     \<and> (\<forall>fd six ip port k. kv (snd (sys_connect os fd six ip port k)) = kv k)
     \<and> (\<forall>fd k. kv (snd (sys_reuseaddr os fd k)) = kv k)
     \<and> (\<forall>fd k. kv (snd (sys_getfl os fd k)) = kv k)
     \<and> (\<forall>fd fl k. kv (snd (sys_setfl os fd fl k)) = kv k)
     \<and> (\<forall>fd port k. kv (snd (sys_bind os fd port k)) = kv k)
     \<and> (\<forall>fd n k. kv (snd (sys_listen os fd n k)) = kv k)
     \<and> (\<forall>fd n k. kv (snd (sys_read os fd n k)) = kv k)
     \<and> (\<forall>fd buf k. kv (snd (sys_write os fd buf k)) = kv k)"

definition os_opens :: "'k os \<Rightarrow> ('k \<Rightarrow> kview) \<Rightarrow> bool" where
  "os_opens os kv \<longleftrightarrow>
     (\<forall>k. case sys_epoll_create os k of (fd, k1) \<Rightarrow> if fd = -1 then kv k1 = kv k else new_fd kv fd k k1)
     \<and> (\<forall>family k. case sys_socket os family k of (fd, k1) \<Rightarrow> if fd = -1 then kv k1 = kv k else new_fd kv fd k k1)
     \<and> (\<forall>s k. case sys_accept os s k of ((fd, e, ip, port), k1) \<Rightarrow>
          if fd = -1 then kv k1 = kv k else new_fd kv fd k k1 \<and> length ip < 128)
     \<and> (\<forall>k. case sys_pipe os k of ((r, rd, wr), k1) \<Rightarrow>
          if r = 0 then \<exists>k0. new_fd kv rd k k0 \<and> new_fd kv wr k0 k1 else kv k1 = kv k)"

definition os_spec :: "'k os \<Rightarrow> ('k \<Rightarrow> kview) \<Rightarrow> bool" where
  "os_spec os kv \<longleftrightarrow> epoll_spec (sys_epoll_ctl os) (\<lambda>k. fst (kv k))
     \<and> (\<forall>op fd ev k. snd (kv (snd (sys_epoll_ctl os op fd ev k))) = snd (kv k))
     \<and> (\<forall>fd k. kv (sys_close os fd k) = ((fst (kv k))(fd := None), snd (kv k) - {fd}))
     \<and> os_quiet os kv \<and> os_opens os kv"

lemma os_specD:
  assumes "os_spec os kv"
  shows "epoll_spec (sys_epoll_ctl os) (\<lambda>k. fst (kv k))"
    and "snd (kv (snd (sys_epoll_ctl os op fd ev k))) = snd (kv k)"
    and "kv (aesocclose os fd k) = ((fst (kv k))(fd := None), snd (kv k) - {fd})"
    and "os_quiet os kv" and "os_opens os kv"
  using assms by (simp_all add: os_spec_def aesocclose_def)

text \<open>Calls that leave the descriptors as they are.\<close>

lemma os_quiet_calls:
  assumes "os_quiet os kv"
  shows "sys_time os k = (now, k1) \<Longrightarrow> kv k1 = kv k"
    and "sys_epoll_wait os m tmo k = (evs, k1) \<Longrightarrow> kv k1 = kv k"
    and "sys_recv os fd n k = (rb, k1) \<Longrightarrow> kv k1 = kv k"
    and "sys_send os fd buf k = (re, k1) \<Longrightarrow> kv k1 = kv k"
    and "sys_connect os fd six ip port k = (re, k1) \<Longrightarrow> kv k1 = kv k"
    and "sys_reuseaddr os fd k = (r, k1) \<Longrightarrow> kv k1 = kv k"
    and "sys_getfl os fd k = (r, k1) \<Longrightarrow> kv k1 = kv k"
    and "sys_setfl os fd fl k = (r, k1) \<Longrightarrow> kv k1 = kv k"
    and "sys_bind os fd port k = (r, k1) \<Longrightarrow> kv k1 = kv k"
    and "sys_listen os fd bl k = (r, k1) \<Longrightarrow> kv k1 = kv k"
    and "sys_read os fd n k = (r, k1) \<Longrightarrow> kv k1 = kv k"
    and "sys_write os fd buf k = (r, k1) \<Longrightarrow> kv k1 = kv k"
  using assms unfolding os_quiet_def by (metis snd_conv)+

lemma os_quietD:
  assumes "os_spec os kv"
  shows "unix_time os k = (t, k1) \<Longrightarrow> kv k1 = kv k"
    and "aesocread os fd n k = (rb, k1) \<Longrightarrow> kv k1 = kv k"
    and "aesocwrite os fd buf k = (r, k1) \<Longrightarrow> kv k1 = kv k"
    and "aesocconnect os fd ip port k = (r, k1) \<Longrightarrow> kv k1 = kv k"
    and "aesoclisten os fd port k = (r, k1) \<Longrightarrow> kv k1 = kv k"
    and "aesocnoblock os fd k = (ok, k1) \<Longrightarrow> kv k1 = kv k"
proof -
  note calls = os_quiet_calls [OF os_specD(4) [OF assms]]
  show "unix_time os k = (t, k1) \<Longrightarrow> kv k1 = kv k"
    by (auto simp: unix_time_def split: prod.splits dest: calls(1))
  show "aesocread os fd n k = (rb, k1) \<Longrightarrow> kv k1 = kv k"
    by (auto simp: aesocread_def split: if_splits prod.splits dest: calls(3))
  show "aesocwrite os fd buf k = (r, k1) \<Longrightarrow> kv k1 = kv k"
    by (auto simp: aesocwrite_def split: if_splits prod.splits dest: calls(4))
  show "aesocconnect os fd ip port k = (r, k1) \<Longrightarrow> kv k1 = kv k"
    by (auto simp: aesocconnect_def split: if_splits prod.splits dest: calls(5))
  show "aesoclisten os fd port k = (r, k1) \<Longrightarrow> kv k1 = kv k"
    by (auto simp: aesoclisten_def Let_def split: if_splits prod.splits dest!: calls(9,10))
  show "aesocnoblock os fd k = (ok, k1) \<Longrightarrow> kv k1 = kv k"
    by (auto simp: aesocnoblock_def Let_def split: if_splits prod.splits dest!: calls(7,8))
qed

text \<open>Calls that open a descriptor leave it open exactly when they say so.\<close>

lemma os_opensD:
  assumes "os_spec os kv"
  shows "sys_socket os family k = (fd, k1) \<Longrightarrow> if fd = -1 then kv k1 = kv k else new_fd kv fd k k1"
    and "sys_accept os s k = ((fd, e, ip, port), k1) \<Longrightarrow>
      if fd = -1 then kv k1 = kv k else new_fd kv fd k k1 \<and> length ip < 128"
    and "sys_pipe os k = ((r, rd, wr), k1) \<Longrightarrow>
      if r = 0 then \<exists>k0. new_fd kv rd k k0 \<and> new_fd kv wr k0 k1 else kv k1 = kv k"
    and "sys_epoll_create os k = (fd, k1) \<Longrightarrow> if fd = -1 then kv k1 = kv k else new_fd kv fd k k1"
proof -
  note laws = os_specD(5) [OF assms, unfolded os_opens_def]
  have s: "case sys_socket os family k of (fd, k1) \<Rightarrow> if fd = -1 then kv k1 = kv k else new_fd kv fd k k1"
    by (rule laws [THEN conjunct2, THEN conjunct1, THEN spec [of _ family], THEN spec [of _ k]])
  have a: "case sys_accept os s k of ((fd, e, ip, port), k1) \<Rightarrow>
          if fd = -1 then kv k1 = kv k else new_fd kv fd k k1 \<and> length ip < 128"
    by (rule laws [THEN conjunct2, THEN conjunct2, THEN conjunct1, THEN spec [of _ s], THEN spec [of _ k]])
  have p: "case sys_pipe os k of ((r, rd, wr), k1) \<Rightarrow>
          if r = 0 then \<exists>k0. new_fd kv rd k k0 \<and> new_fd kv wr k0 k1 else kv k1 = kv k"
    by (rule laws [THEN conjunct2, THEN conjunct2, THEN conjunct2, THEN spec [of _ k]])
  have e: "case sys_epoll_create os k of (fd, k1) \<Rightarrow> if fd = -1 then kv k1 = kv k else new_fd kv fd k k1"
    by (rule laws [THEN conjunct1, THEN spec [of _ k]])
  show "sys_epoll_create os k = (fd, k1) \<Longrightarrow> if fd = -1 then kv k1 = kv k else new_fd kv fd k k1"
    using e by simp
  show "sys_socket os family k = (fd, k1) \<Longrightarrow> if fd = -1 then kv k1 = kv k else new_fd kv fd k k1"
    using s by simp
  show "sys_accept os s k = ((fd, e, ip, port), k1) \<Longrightarrow>
      if fd = -1 then kv k1 = kv k else new_fd kv fd k k1 \<and> length ip < 128"
    using a by simp
  show "sys_pipe os k = ((r, rd, wr), k1) \<Longrightarrow>
      if r = 0 then \<exists>k0. new_fd kv rd k k0 \<and> new_fd kv wr k0 k1 else kv k1 = kv k"
    using p by simp
qed

lemma new_fd_close: "os_spec os kv \<Longrightarrow> new_fd kv fd k k1 \<Longrightarrow> kv k2 = kv k1 \<Longrightarrow> kv (sys_close os fd k2) = kv k"
  using os_specD(3) [of os kv fd k2] by (auto simp: new_fd_def aesocclose_def fun_upd_idem prod_eq_iff)

lemma new_fd_kv: "new_fd kv fd k k1 \<Longrightarrow> kv k2 = kv k1 \<Longrightarrow> new_fd kv fd k k2"
  by (simp add: new_fd_def)

lemma aesoccreate_fd:
  assumes os: "os_spec os kv" and "aesoccreate os family acceptor k = (fd, k1)"
  shows "if fd = INVALIDFD then kv k1 = kv k else new_fd kv fd k k1"
proof -
  obtain soc k0 where s: "sys_socket os family k = (soc, k0)" by fastforce
  show ?thesis
  proof (cases "soc = -1")
    case True
    then show ?thesis using assms(2) s os_opensD(1) [OF os s] by (simp add: aesoccreate_def INVALIDFD_def)
  next
    case False
    then have new: "new_fd kv soc k k0" using os_opensD(1) [OF os s] by simp
    obtain r k2 where r: "(if acceptor then sys_reuseaddr os soc k0 else (0, k0)) = (r, k2)" by fastforce
    then have k2: "kv k2 = kv k0" using os_quiet_calls(6) [OF os_specD(4) [OF os]] by (auto split: if_splits)
    obtain ok k3 where nb: "aesocnoblock os soc k2 = (ok, k3)" by fastforce
    then have k3: "kv k3 = kv k0" using os_quietD(6) [OF os nb] k2 by simp
    have valid: "soc \<noteq> INVALIDFD" using new by (simp add: new_fd_def INVALIDFD_def)
    have res: "aesoccreate os family acceptor k = (if r = -1 then (INVALIDFD, sys_close os soc k2)
        else if \<not> ok then (INVALIDFD, sys_close os soc k3) else (soc, k3))"
      unfolding aesoccreate_def Let_def s prod.case r nb using False by simp
    consider "r = -1" | "r \<noteq> -1" "\<not> ok" | "r \<noteq> -1" ok by blast
    then show ?thesis
      using assms(2) res valid new_fd_close [OF os new k2] new_fd_close [OF os new k3] new_fd_kv [OF new k3]
      by cases auto
  qed
qed

lemma aesocaccept_fd:
  assumes os: "os_spec os kv" and "aesocaccept os s k = ((r, x), k1)"
  shows "if r = 0 then \<exists>fd ip port. x = Some (fd, ip, port) \<and> new_fd kv fd k k1 \<and> length ip < 128
    else kv k1 = kv k"
proof -
  obtain fd e ip port k0 where a: "sys_accept os s k = ((fd, e, ip, port), k0)" by (metis surj_pair)
  show ?thesis
  proof (cases "fd = -1")
    case True
    then show ?thesis using assms(2) a os_opensD(2) [OF os a] by (auto simp: aesocaccept_def wouldblock_def)
  next
    case False
    then have new: "new_fd kv fd k k0" "length ip < 128" using os_opensD(2) [OF os a] by simp_all
    obtain ok k3 where nb: "aesocnoblock os fd k0 = (ok, k3)" by fastforce
    have k3: "kv k3 = kv k0" using os_quietD(6) [OF os nb] .
    have "\<not> fd < 0" using new by (simp add: new_fd_def)
    then show ?thesis
      using assms(2) a False nb new_fd_close [OF os new(1) k3] new_fd_kv [OF new(1) k3] new(2)
      by (auto simp: aesocaccept_def Let_def split: if_splits)
  qed
qed

end
