(* ===== verification/Channel.thy ===== *)
theory Channel
  imports Sockets Dataqueue
begin

text \<open>
  Channels (\<^verbatim>\<open>channel.h\<close>, \<^verbatim>\<open>channel.c\<close>, without \<^verbatim>\<open>SSL_SUPPORT\<close>) and the global state of the
  library, \<^verbatim>\<open>g_libnet\<close>. A channel is an object in memory at an address; the channels form a doubly
  linked ring through their \<^verbatim>\<open>next\<close> and \<^verbatim>\<open>prev\<close> pointers. Every access goes through the address and
  yields \<open>None\<close> when the object is not (or no longer) allocated.

  What the layers above register is given by \<open>hnd\<close>, which runs the handler of a channel on the
  whole state: a handler may call back into every operation of this theory.
\<close>

section \<open>State\<close>

datatype ev_proc = Read_Callback | Write_Callback | Accept_Handler | Evpipe_Dummy

record ('h, 'u) channel =
  ch_next :: nat
  ch_prev :: nat
  ch_handler :: "'h option"
  ch_pUsr :: "'u option"
  inDataqueue :: dataqueue
  outDataqueue :: dataqueue
  lastinteraction :: u32
  timeouts :: u32
  ch_fd :: int
  ipStr :: "byte list"
  ch_port :: u16
  flg :: u32
  upstream :: bool
  connected :: bool

record ('h, 'u) acceptor =
  ac_handler :: 'h
  ac_fd :: int
  ac_pUsr :: 'u

text \<open>
  \<open>app\<close> is the state of the layers above, \<open>kernel\<close> that of the operating system, \<open>lastCrondTime\<close>
  the static variable of \<^verbatim>\<open>evnet_loop\<close>; \<open>has_loop\<close> says that the pointer to the loop, whose epoll
  descriptor is \<open>epfd\<close>, is not \<^verbatim>\<open>NULL\<close>. Channels and acceptors share the addresses.
\<close>

record ('h, 'u, 'k, 'a) libnet =
  channelHead :: nat
  has_loop :: bool
  epfd :: int
  evLoop :: "(ev_proc, nat) aeEventLoop"
  channels :: "nat \<Rightarrow> ('h, 'u) channel option"
  acceptors :: "nat \<Rightarrow> ('h, 'u) acceptor option"
  next_free :: nat
  pipe_rd :: int
  pipe_wr :: int
  lastCrondTime :: int
  kernel :: 'k
  app :: 'a

text \<open>
  The messages to the handler of a channel or, for \<open>EVACCEPTED\<close>, of an acceptor; the data queue of
  \<open>EVDATA\<close> is that of the channel.
\<close>

datatype ev_msg = EVDATA nat | EVCLOSED nat int | EVSENT nat int | EVACCEPTED nat

type_synonym ('h, 'u, 'k, 'a) dispatch =
  "'h \<Rightarrow> 'u option \<Rightarrow> ev_msg \<Rightarrow> ('h, 'u, 'k, 'a) libnet \<Rightarrow> ('h, 'u, 'k, 'a) libnet option"

definition FLG_RECV_ENABLED :: u32 where "FLG_RECV_ENABLED = 1"
definition FLG_SEND_ENABLED :: u32 where "FLG_SEND_ENABLED = 2"
definition MAX_CONNECTING_SECS :: u32 where "MAX_CONNECTING_SECS = 3"
definition BUFF_LEN :: nat where "BUFF_LEN = 32 * 1024"
definition IPSTRSIZE :: nat where "IPSTRSIZE = 128"

definition flag_set :: "u32 \<Rightarrow> u32 \<Rightarrow> bool" where "flag_set f b \<longleftrightarrow> f AND b \<noteq> 0"

section \<open>Memory\<close>

definition upd_channel :: "('h, 'u, 'k, 'a) libnet \<Rightarrow> nat \<Rightarrow> (('h, 'u) channel \<Rightarrow> ('h, 'u) channel)
    \<Rightarrow> ('h, 'u, 'k, 'a) libnet option" where
  "upd_channel w a f = (case channels w a of
       None \<Rightarrow> None
     | Some c \<Rightarrow> Some (w\<lparr>channels := (channels w)(a \<mapsto> f c)\<rparr>))"

section \<open>The ring\<close>

definition link_channel :: "nat \<Rightarrow> ('h, 'u, 'k, 'a) libnet \<Rightarrow> ('h, 'u, 'k, 'a) libnet option" where
  "link_channel a w =
     (if channelHead w \<noteq> 0 then do {
        let h = channelHead w;
        hc \<leftarrow> channels w h;
        w1 \<leftarrow> upd_channel w a (\<lambda>c. c\<lparr>ch_next := h, ch_prev := ch_prev hc\<rparr>);
        w2 \<leftarrow> upd_channel w1 (ch_prev hc) (\<lambda>c. c\<lparr>ch_next := a\<rparr>);
        w3 \<leftarrow> upd_channel w2 h (\<lambda>c. c\<lparr>ch_prev := a\<rparr>);
        Some (w3\<lparr>channelHead := a\<rparr>)
      }
      else do {
        w1 \<leftarrow> upd_channel w a (\<lambda>c. c\<lparr>ch_next := a, ch_prev := a\<rparr>);
        Some (w1\<lparr>channelHead := a\<rparr>)
      })"

definition unlink_channel :: "nat \<Rightarrow> ('h, 'u, 'k, 'a) libnet \<Rightarrow> ('h, 'u, 'k, 'a) libnet option" where
  "unlink_channel a w = do {
     c \<leftarrow> channels w a;
     let w1 = (if a = channelHead w then w\<lparr>channelHead := ch_next c\<rparr> else w);
     w2 \<leftarrow> (if a = channelHead w1 then Some (w1\<lparr>channelHead := 0\<rparr>)
            else do {
              w2 \<leftarrow> upd_channel w1 (ch_prev c) (\<lambda>d. d\<lparr>ch_next := ch_next c\<rparr>);
              upd_channel w2 (ch_next c) (\<lambda>d. d\<lparr>ch_prev := ch_prev c\<rparr>)
            });
     upd_channel w2 a (\<lambda>d. d\<lparr>ch_next := 0, ch_prev := 0\<rparr>)
   }"

section \<open>Creation\<close>

text \<open>
  \<^verbatim>\<open>malloc\<close> is taken to succeed and gives an address never used before; \<^verbatim>\<open>strcpy\<close> into \<^verbatim>\<open>ipStr\<close> has
  room for \<open>IPSTRSIZE\<close> bytes with the terminator.
\<close>

definition channel_create :: "int \<Rightarrow> byte list \<Rightarrow> u16 \<Rightarrow> bool \<Rightarrow> ('h, 'u, 'k, 'a) libnet
    \<Rightarrow> (nat \<times> ('h, 'u, 'k, 'a) libnet) option" where
  "channel_create fd ip port ups w =
     (if IPSTRSIZE \<le> length ip then None
      else do {
        let a = next_free w;
        let c = \<lparr>ch_next = 0, ch_prev = 0, ch_handler = None, ch_pUsr = None, inDataqueue = dq_init,
                 outDataqueue = dq_init, lastinteraction = 0, timeouts = 0, ch_fd = fd, ipStr = ip,
                 ch_port = port, flg = 0, upstream = ups, connected = False\<rparr>;
        w1 \<leftarrow> link_channel a (w\<lparr>channels := (channels w)(a \<mapsto> c), next_free := a + 1\<rparr>);
        Some (a, w1)
      })"

definition upstream_channel :: "'k os \<Rightarrow> byte list \<Rightarrow> u16 \<Rightarrow> ('h, 'u, 'k, 'a) libnet
    \<Rightarrow> (nat \<times> ('h, 'u, 'k, 'a) libnet) option" where
  "upstream_channel os ip port w =
     (let (fd, k1) = aesoccreate os (if isIPv6Addr ip then AF_INET6 else AF_INET) False (kernel w);
          w1 = w\<lparr>kernel := k1\<rparr>
      in if fd = INVALIDFD then Some (0, w1) else channel_create fd ip port True w1)"

section \<open>Events of a channel\<close>

definition add_event :: "'k os \<Rightarrow> int \<Rightarrow> u32 \<Rightarrow> ev_proc \<Rightarrow> nat \<Rightarrow> ('h, 'u, 'k, 'a) libnet
    \<Rightarrow> (int \<times> ('h, 'u, 'k, 'a) libnet) option" where
  "add_event os fd msk p a w = do {
     (r, l1, k1) \<leftarrow> aeCreateFileEvent (sys_epoll_ctl os) fd msk p a (evLoop w, kernel w);
     Some (r, w\<lparr>evLoop := l1, kernel := k1\<rparr>)
   }"

definition del_event :: "'k os \<Rightarrow> int \<Rightarrow> u32 \<Rightarrow> ('h, 'u, 'k, 'a) libnet \<Rightarrow> ('h, 'u, 'k, 'a) libnet option" where
  "del_event os fd msk w = do {
     (l1, k1) \<leftarrow> aeDeleteFileEvent (sys_epoll_ctl os) fd msk (evLoop w, kernel w);
     Some (w\<lparr>evLoop := l1, kernel := k1\<rparr>)
   }"

text \<open>\<^verbatim>\<open>if(channel->flg \& bit) {aeDeleteFileEvent(..); channel->flg \&= ~bit;}\<close>\<close>

definition disable :: "'k os \<Rightarrow> u32 \<Rightarrow> u32 \<Rightarrow> nat \<Rightarrow> ('h, 'u, 'k, 'a) libnet \<Rightarrow> ('h, 'u, 'k, 'a) libnet option" where
  "disable os fl msk a w = do {
     c \<leftarrow> channels w a;
     if flag_set (flg c) fl then do {
       w1 \<leftarrow> del_event os (ch_fd c) msk w;
       upd_channel w1 a (\<lambda>d. d\<lparr>flg := flg d AND NOT fl\<rparr>)
     }
     else Some w
   }"

section \<open>Closing\<close>

definition channel_close :: "'k os \<Rightarrow> ('h, 'u, 'k, 'a) dispatch \<Rightarrow> nat \<Rightarrow> int \<Rightarrow> ('h, 'u, 'k, 'a) libnet
    \<Rightarrow> ('h, 'u, 'k, 'a) libnet option" where
  "channel_close os hnd a errcode w = do {
     c \<leftarrow> channels w a;
     w1 \<leftarrow> unlink_channel a w;
     w2 \<leftarrow> (case ch_handler c of None \<Rightarrow> Some w1 | Some h \<Rightarrow> hnd h (ch_pUsr c) (EVCLOSED a errcode) w1);
     w3 \<leftarrow> disable os FLG_RECV_ENABLED AE_READABLE a w2;
     w4 \<leftarrow> disable os FLG_SEND_ENABLED AE_WRITABLE a w3;
     w5 \<leftarrow> upd_channel w4 a (\<lambda>d. d\<lparr>inDataqueue := dataqueue_remove_data (inDataqueue d) True,
                                outDataqueue := dataqueue_remove_data (outDataqueue d) True\<rparr>);
     d \<leftarrow> channels w5 a;
     let w6 = (if ch_fd d \<noteq> INVALIDFD then w5\<lparr>kernel := aesocclose os (ch_fd d) (kernel w5)\<rparr> else w5);
     Some (w6\<lparr>channels := (channels w6)(a := None)\<rparr>)
   }"

section \<open>Connecting, reading, writing\<close>

definition channel_handshake :: "'k os \<Rightarrow> ('h, 'u, 'k, 'a) dispatch \<Rightarrow> nat \<Rightarrow> ('h, 'u, 'k, 'a) libnet
    \<Rightarrow> (bool \<times> ('h, 'u, 'k, 'a) libnet) option" where
  "channel_handshake os hnd a w = do {
     c \<leftarrow> channels w a;
     (ok, w1) \<leftarrow>
       (if upstream c \<and> flg c AND FLG_RECV_ENABLED = 0 then do {
          (r, w1) \<leftarrow> add_event os (ch_fd c) AE_READABLE Read_Callback a w;
          if r \<noteq> 0 then do { w2 \<leftarrow> channel_close os hnd a (-1) w1; Some (False, w2) }
          else do { w2 \<leftarrow> upd_channel w1 a (\<lambda>d. d\<lparr>flg := flg d OR FLG_RECV_ENABLED\<rparr>); Some (True, w2) }
        }
        else Some (True, w));
     if ok then do { w2 \<leftarrow> upd_channel w1 a (\<lambda>d. d\<lparr>connected := True\<rparr>); Some (True, w2) }
     else Some (False, w1)
   }"

text \<open>A handler that has not been assigned is called through a null pointer: \<open>None\<close>.\<close>

definition call_handler :: "('h, 'u, 'k, 'a) dispatch \<Rightarrow> 'h option \<Rightarrow> 'u option \<Rightarrow> ev_msg
    \<Rightarrow> ('h, 'u, 'k, 'a) libnet \<Rightarrow> ('h, 'u, 'k, 'a) libnet option" where
  "call_handler hnd h u msg w = (case h of None \<Rightarrow> None | Some f \<Rightarrow> hnd f u msg w)"

text \<open>
  What \<^verbatim>\<open>_read_callback\<close> does once the channel is connected; \<open>c\<close> holds the handler that was read
  on entry.
\<close>

definition read_data :: "'k os \<Rightarrow> ('h, 'u, 'k, 'a) dispatch \<Rightarrow> nat \<Rightarrow> ('h, 'u) channel \<Rightarrow> ('h, 'u, 'k, 'a) libnet
    \<Rightarrow> ('h, 'u, 'k, 'a) libnet option" where
  "read_data os hnd a c w1 =
     (let ((r, buf), k1) = aesocread os (ch_fd c) BUFF_LEN (kernel w1);
          w2 = w1\<lparr>kernel := k1\<rparr>
      in if r \<le> 0 then channel_close os hnd a (-1) w2
         else do {
           let (now, k2) = unix_time os (kernel w2);
           d \<leftarrow> channels w2 a;
           q \<leftarrow> dataqueue_insert_data (inDataqueue d) buf;
           w3 \<leftarrow> upd_channel (w2\<lparr>kernel := k2\<rparr>) a (\<lambda>d. d\<lparr>lastinteraction := now, inDataqueue := q\<rparr>);
           call_handler hnd (ch_handler c) (ch_pUsr c) (EVDATA a) w3
         })"

definition read_callback :: "'k os \<Rightarrow> ('h, 'u, 'k, 'a) dispatch \<Rightarrow> nat \<Rightarrow> ('h, 'u, 'k, 'a) libnet
    \<Rightarrow> ('h, 'u, 'k, 'a) libnet option" where
  "read_callback os hnd a w = do {
     c \<leftarrow> channels w a;
     (ok, w1) \<leftarrow> (if connected c then Some (True, w)
                 else if \<not> upstream c then channel_handshake os hnd a w
                 else Some (False, w));
     if \<not> ok then Some w1 else read_data os hnd a c w1
   }"

text \<open>
  The write half of \<^verbatim>\<open>_write_callback\<close>: what \<^verbatim>\<open>aesocwrite\<close> returned (0 when there was nothing to
  write), and whether the channel is still there.
\<close>

definition write_out :: "'k os \<Rightarrow> ('h, 'u, 'k, 'a) dispatch \<Rightarrow> nat \<Rightarrow> ('h, 'u, 'k, 'a) libnet
    \<Rightarrow> (bool \<times> int \<times> ('h, 'u, 'k, 'a) libnet) option" where
  "write_out os hnd a w = do {
     c \<leftarrow> channels w a;
     if 0 < dataSize (outDataqueue c) then do {
       (q, chunk) \<leftarrow> dq_peek (outDataqueue c);
       let (r, k1) = aesocwrite os (ch_fd c) chunk (kernel w);
       w1 \<leftarrow> upd_channel (w\<lparr>kernel := k1\<rparr>) a (\<lambda>d. d\<lparr>outDataqueue := q\<rparr>);
       if r \<le> 0 then do { w2 \<leftarrow> channel_close os hnd a (-1) w1; Some (False, r, w2) }
       else do {
         let (now, k2) = unix_time os (kernel w1);
         w2 \<leftarrow> upd_channel (w1\<lparr>kernel := k2\<rparr>) a
                 (\<lambda>d. d\<lparr>lastinteraction := now,
                        outDataqueue := dataqueue_distill_data (outDataqueue d) (word_of_int r)\<rparr>);
         Some (True, r, w2)
       }
     }
     else Some (True, 0, w)
   }"

text \<open>The rest: with nothing left to write the event is switched off; the handler is told.\<close>

definition write_done :: "'k os \<Rightarrow> ('h, 'u, 'k, 'a) dispatch \<Rightarrow> nat \<Rightarrow> ('h, 'u) channel \<Rightarrow> int
    \<Rightarrow> ('h, 'u, 'k, 'a) libnet \<Rightarrow> ('h, 'u, 'k, 'a) libnet option" where
  "write_done os hnd a c r w2 = do {
     d \<leftarrow> channels w2 a;
     w3 \<leftarrow> (if dataSize (outDataqueue d) = 0 then disable os FLG_SEND_ENABLED AE_WRITABLE a w2 else Some w2);
     if 0 < r then call_handler hnd (ch_handler c) (ch_pUsr c) (EVSENT a r) w3 else Some w3
   }"

definition write_data :: "'k os \<Rightarrow> ('h, 'u, 'k, 'a) dispatch \<Rightarrow> nat \<Rightarrow> ('h, 'u) channel
    \<Rightarrow> ('h, 'u, 'k, 'a) libnet \<Rightarrow> ('h, 'u, 'k, 'a) libnet option" where
  "write_data os hnd a c w1 = do {
     (alive, r, w2) \<leftarrow> write_out os hnd a w1;
     if \<not> alive then Some w2 else write_done os hnd a c r w2
   }"

definition write_callback :: "'k os \<Rightarrow> ('h, 'u, 'k, 'a) dispatch \<Rightarrow> nat \<Rightarrow> ('h, 'u, 'k, 'a) libnet
    \<Rightarrow> ('h, 'u, 'k, 'a) libnet option" where
  "write_callback os hnd a w = do {
     c \<leftarrow> channels w a;
     (ok, w1) \<leftarrow> (if connected c then Some (True, w)
                 else if upstream c then channel_handshake os hnd a w
                 else Some (False, w));
     if \<not> ok then Some w1 else write_data os hnd a c w1
   }"

section \<open>Binding and sending\<close>

definition channel_bind :: "'k os \<Rightarrow> nat \<Rightarrow> 'h \<Rightarrow> u32 \<Rightarrow> 'u \<Rightarrow> ('h, 'u, 'k, 'a) libnet
    \<Rightarrow> (bool \<times> ('h, 'u, 'k, 'a) libnet) option" where
  "channel_bind os a h tmo usr w = do {
     c \<leftarrow> channels w a;
     (ok, w1) \<leftarrow>
       (if \<not> upstream c then do {
          (r, w1) \<leftarrow> add_event os (ch_fd c) AE_READABLE Read_Callback a w;
          if r \<noteq> 0 then Some (False, w1)
          else do { w2 \<leftarrow> upd_channel w1 a (\<lambda>d. d\<lparr>flg := flg d OR FLG_RECV_ENABLED\<rparr>); Some (True, w2) }
        }
        else do {
          let (r, k1) = aesocconnect os (ch_fd c) (ipStr c) (ch_port c) (kernel w);
          let w1 = w\<lparr>kernel := k1\<rparr>;
          if r \<noteq> 0 then Some (False, w1)
          else do {
            (r, w2) \<leftarrow> add_event os (ch_fd c) AE_WRITABLE Write_Callback a w1;
            if r \<noteq> 0 then Some (False, w2)
            else do { w3 \<leftarrow> upd_channel w2 a (\<lambda>d. d\<lparr>flg := flg d OR FLG_SEND_ENABLED\<rparr>); Some (True, w3) }
          }
        });
     if ok then do {
       let (now, k1) = unix_time os (kernel w1);
       w2 \<leftarrow> upd_channel (w1\<lparr>kernel := k1\<rparr>) a
               (\<lambda>d. d\<lparr>ch_handler := Some h, timeouts := tmo, ch_pUsr := Some usr, lastinteraction := now\<rparr>);
       Some (True, w2)
     }
     else Some (False, w1)
   }"

definition channel_send :: "'k os \<Rightarrow> nat \<Rightarrow> byte list \<Rightarrow> ('h, 'u, 'k, 'a) libnet
    \<Rightarrow> (bool \<times> ('h, 'u, 'k, 'a) libnet) option" where
  "channel_send os a data w = do {
     c \<leftarrow> channels w a;
     q \<leftarrow> dataqueue_insert_data (outDataqueue c) data;
     w1 \<leftarrow> upd_channel w a (\<lambda>d. d\<lparr>outDataqueue := q\<rparr>);
     if flag_set (flg c) FLG_SEND_ENABLED then Some (True, w1)
     else do {
       (r, w2) \<leftarrow> add_event os (ch_fd c) AE_WRITABLE Write_Callback a w1;
       if r = 0 then do {
         w3 \<leftarrow> upd_channel w2 a (\<lambda>d. d\<lparr>flg := flg d OR FLG_SEND_ENABLED\<rparr>);
         Some (True, w3)
       }
       else Some (False, w2)
     }
   }"

section \<open>Time-outs\<close>

definition expired :: "('h, 'u) channel \<Rightarrow> u32 \<Rightarrow> bool" where
  "expired c now \<longleftrightarrow>
     timeouts c = -1 \<and> \<not> connected c \<and> lastinteraction c + MAX_CONNECTING_SECS < now
     \<or> timeouts c \<noteq> -1 \<and> lastinteraction c + timeouts c < now"

text \<open>The ring has fewer nodes than addresses were ever given out: these are the fuel.\<close>

fun timeouts_loop :: "'k os \<Rightarrow> ('h, 'u, 'k, 'a) dispatch \<Rightarrow> nat \<Rightarrow> nat \<Rightarrow> nat \<Rightarrow> u32
    \<Rightarrow> ('h, 'u, 'k, 'a) libnet \<Rightarrow> ('h, 'u, 'k, 'a) libnet option" where
  "timeouts_loop os hnd 0 node tail now w = None"
| "timeouts_loop os hnd (Suc f) node tail now w = do {
     c \<leftarrow> channels w node;
     w1 \<leftarrow> (if expired c now then channel_close os hnd node (-1) w else Some w);
     if ch_next c = tail then Some w1 else timeouts_loop os hnd f (ch_next c) tail now w1
   }"

definition check_timeouts :: "'k os \<Rightarrow> ('h, 'u, 'k, 'a) dispatch \<Rightarrow> nat \<Rightarrow> ('h, 'u, 'k, 'a) libnet
    \<Rightarrow> ('h, 'u, 'k, 'a) libnet option" where
  "check_timeouts os hnd head w = do {
     c \<leftarrow> channels w head;
     let (now, k1) = unix_time os (kernel w);
     timeouts_loop os hnd (next_free w) head (ch_prev c) now (w\<lparr>kernel := k1\<rparr>)
   }"

definition channel_crond :: "'k os \<Rightarrow> ('h, 'u, 'k, 'a) dispatch \<Rightarrow> ('h, 'u, 'k, 'a) libnet
    \<Rightarrow> ('h, 'u, 'k, 'a) libnet option" where
  "channel_crond os hnd w = (if channelHead w \<noteq> 0 then check_timeouts os hnd (channelHead w) w else Some w)"

end
