(* ===== verification/Channel_Ring.thy ===== *)
theory Channel_Ring
  imports Channel
begin

text \<open>
  The ring of channels as a list: what \<^verbatim>\<open>channel_create\<close> and \<^verbatim>\<open>channel_close\<close> do to the pointers
  is consing onto the list and removing from it.
\<close>

section \<open>Linked lists\<close>

fun links :: "(nat \<Rightarrow> nat) \<Rightarrow> (nat \<Rightarrow> nat) \<Rightarrow> nat list \<Rightarrow> bool" where
  "links nx pv (x # y # zs) \<longleftrightarrow> nx x = y \<and> pv y = x \<and> links nx pv (y # zs)"
| "links nx pv _ \<longleftrightarrow> True"

lemma links_append: "links nx pv (xs @ y # ys) \<longleftrightarrow> links nx pv (xs @ [y]) \<and> links nx pv (y # ys)"
proof (induction xs)
  case Nil
  then show ?case by simp
next
  case (Cons x xs)
  then show ?case by (cases xs) auto
qed

lemma links_appendD:
  assumes "links nx pv (xs @ y # ys)"
  shows "links nx pv (xs @ [y])" and "links nx pv (y # ys)"
  using assms links_append [of nx pv xs y ys] by simp_all

lemma links_cong:
  "(\<And>x. x \<in> set (butlast xs) \<Longrightarrow> nx x = nx' x) \<Longrightarrow> (\<And>x. x \<in> set (tl xs) \<Longrightarrow> pv x = pv' x) \<Longrightarrow>
   links nx pv xs \<longleftrightarrow> links nx' pv' xs"
  by (induction nx pv xs rule: links.induct) auto

definition ring :: "(nat \<Rightarrow> nat) \<Rightarrow> (nat \<Rightarrow> nat) \<Rightarrow> nat list \<Rightarrow> bool" where
  "ring nx pv xs \<longleftrightarrow> distinct xs \<and> (xs \<noteq> [] \<longrightarrow> links nx pv (xs @ [hd xs]))"

lemma ring_ends: "ring nx pv xs \<Longrightarrow> xs \<noteq> [] \<Longrightarrow> pv (hd xs) = last xs \<and> nx (last xs) = hd xs"
proof -
  assume r: "ring nx pv xs" and ne: "xs \<noteq> []"
  have "xs @ [hd xs] = butlast xs @ last xs # [hd xs]" using ne by simp
  then have "links nx pv [last xs, hd xs]" using r ne links_append by (metis ring_def)
  then show ?thesis by simp
qed

lemma ring_cons:
  assumes "ring nx pv xs" and "xs \<noteq> []" and "a \<notin> set xs"
  shows "ring (nx(a := hd xs, last xs := a)) (pv(a := last xs, hd xs := a)) (a # xs)"
proof -
  let ?nx = "nx(a := hd xs, last xs := a)" and ?pv = "pv(a := last xs, hd xs := a)"
  have d: "distinct xs" using assms(1) by (simp add: ring_def)
  have last: "last xs \<in> set xs" "hd xs \<in> set xs" using assms(2) by simp_all
  have "links nx pv xs"
  proof -
    have "xs @ [hd xs] = butlast xs @ last xs # [hd xs]" using assms(2) by simp
    then have "links nx pv (butlast xs @ [last xs])" using assms(1,2) links_append by (metis ring_def)
    then show ?thesis using assms(2) by simp
  qed
  moreover have "links nx pv xs \<longleftrightarrow> links ?nx ?pv xs"
  proof (rule links_cong)
    fix x assume "x \<in> set (butlast xs)"
    moreover have "last xs \<notin> set (butlast xs)"
      using d assms(2) by (metis append_butlast_last_id distinct_append distinct.simps(2) disjoint_iff list.set_intros(1))
    ultimately show "nx x = ?nx x" using assms(3) by (auto dest: in_set_butlastD)
  next
    fix x assume "x \<in> set (tl xs)"
    moreover have "hd xs \<notin> set (tl xs)" using d assms(2) by (cases xs) auto
    ultimately show "pv x = ?pv x" using assms(2,3) by (auto dest: list.set_sel(2))
  qed
  ultimately have 1: "links ?nx ?pv (butlast xs @ [last xs])" using assms(2) by simp
  have "a \<noteq> last xs" "a \<noteq> hd xs" using assms(3) last by auto
  then have 2: "links ?nx ?pv [last xs, a]" by simp
  have "links ?nx ?pv (xs @ [a])"
    using links_append [of ?nx ?pv "butlast xs" "last xs" "[a]", THEN iffD2, OF conjI, OF 1 2] assms(2)
    by (metis append_assoc append_Cons append_Nil append_butlast_last_id)
  then have "links ?nx ?pv (a # xs @ [a])" using assms(2) \<open>a \<noteq> last xs\<close> by (cases xs) auto
  then show ?thesis using d assms(3) by (simp add: ring_def)
qed

lemma ring_single: "nx a = a \<Longrightarrow> pv a = a \<Longrightarrow> ring nx pv [a]"
  by (simp add: ring_def)

lemma ring_rotate:
  assumes "ring nx pv (xs @ ys)"
  shows "ring nx pv (ys @ xs)"
proof (cases "xs = [] \<or> ys = []")
  case True
  then show ?thesis using assms by auto
next
  case False
  then obtain x xs' y ys' where eq: "xs = x # xs'" "ys = y # ys'" by (auto simp: neq_Nil_conv)
  have 1: "links nx pv ((x # xs') @ y # (ys' @ [x]))" using assms eq by (simp add: ring_def del: links.simps)
  have "links nx pv ((y # ys') @ [x])" "links nx pv (x # xs' @ [y])"
    using links_appendD [OF 1] by (simp_all del: links.simps)
  then have "links nx pv ((y # ys') @ x # (xs' @ [y]))"
    using links_append [of nx pv "y # ys'" x "xs' @ [y]"] by blast
  then show ?thesis using assms eq by (auto simp: ring_def simp del: links.simps)
qed

lemma ring_uncons:
  assumes "ring nx pv (c # zs)" and "zs \<noteq> []"
  shows "nx c = hd zs" and "pv c = last zs" and "ring (nx(last zs := hd zs)) (pv(hd zs := last zs)) zs"
proof -
  let ?nx = "nx(last zs := hd zs)" and ?pv = "pv(hd zs := last zs)"
  have d: "distinct zs" using assms(1) by (simp add: ring_def)
  have "links nx pv (c # zs @ [c])" using assms by (simp add: ring_def del: links.simps)
  then have 1: "nx c = hd zs" "links nx pv (zs @ [c])" using assms(2) by (cases zs; simp)+
  have "zs @ [c] = butlast zs @ last zs # [c]" using assms(2) by simp
  then have 3: "links nx pv (butlast zs @ last zs # [c])" using 1(2) by (simp only:)
  note 2 = links_appendD [OF 3]
  show "nx c = hd zs" "pv c = last zs" using 1(1) 2(2) by simp_all
  have "links nx pv zs \<longleftrightarrow> links ?nx ?pv zs"
  proof (rule links_cong)
    fix x assume "x \<in> set (butlast zs)"
    moreover have "last zs \<notin> set (butlast zs)"
      using d assms(2) by (metis append_butlast_last_id distinct_append distinct.simps(2) disjoint_iff list.set_intros(1))
    ultimately show "nx x = ?nx x" by auto
  next
    fix x assume "x \<in> set (tl zs)"
    moreover have "hd zs \<notin> set (tl zs)" using d assms(2) by (cases zs) auto
    ultimately show "pv x = ?pv x" by auto
  qed
  then have "links ?nx ?pv (butlast zs @ [last zs])" using 2(1) assms(2) by simp
  moreover have "links ?nx ?pv [last zs, hd zs]" by simp
  ultimately have "links ?nx ?pv (zs @ [hd zs])"
    using links_append [of ?nx ?pv "butlast zs" "last zs" "[hd zs]"] assms(2)
    by (metis append_assoc append_Cons append_Nil append_butlast_last_id)
  then show "ring ?nx ?pv zs" using d assms(2) by (simp add: ring_def)
qed

lemma ring_remove:
  assumes "ring nx pv (xs @ c # ys)" and "xs @ ys \<noteq> []"
  shows "ring (nx(pv c := nx c)) (pv(nx c := pv c)) (xs @ ys)"
proof -
  have "ring nx pv (c # ys @ xs)" using ring_rotate [of nx pv xs "c # ys"] assms(1) by simp
  moreover have "ys @ xs \<noteq> []" using assms(2) by auto
  ultimately have "ring (nx(pv c := nx c)) (pv(nx c := pv c)) (ys @ xs)"
    using ring_uncons [of nx pv c "ys @ xs"] by simp
  then show ?thesis by (rule ring_rotate)
qed

lemma ring_next:
  assumes "ring nx pv (xs @ c # ys)"
  shows "nx c = (if ys \<noteq> [] then hd ys else hd (xs @ [c]))"
proof (cases ys)
  case Nil
  then show ?thesis using ring_ends [OF assms] by (cases xs) auto
next
  case (Cons y zs)
  have "links nx pv (xs @ c # (y # zs @ [hd (xs @ [c])]))"
    using assms Cons by (cases xs) (simp_all add: ring_def del: links.simps)
  then have "links nx pv (c # (y # zs @ [hd (xs @ [c])]))" by (rule links_appendD)
  then show ?thesis using Cons by simp
qed

section \<open>The ring of channels\<close>

definition nx_of :: "('h, 'u, 'k, 'a) libnet \<Rightarrow> nat \<Rightarrow> nat" where
  "nx_of w a = (case channels w a of None \<Rightarrow> 0 | Some c \<Rightarrow> ch_next c)"

definition pv_of :: "('h, 'u, 'k, 'a) libnet \<Rightarrow> nat \<Rightarrow> nat" where
  "pv_of w a = (case channels w a of None \<Rightarrow> 0 | Some c \<Rightarrow> ch_prev c)"

definition channel_ring :: "('h, 'u, 'k, 'a) libnet \<Rightarrow> nat list \<Rightarrow> bool" where
  "channel_ring w xs \<longleftrightarrow> ring (nx_of w) (pv_of w) xs \<and> channelHead w = (if xs = [] then 0 else hd xs)
     \<and> 0 \<notin> set xs \<and> set xs \<subseteq> dom (channels w)"

text \<open>A channel without its place in the ring.\<close>

definition unlinked :: "('h, 'u) channel \<Rightarrow> ('h, 'u) channel" where
  "unlinked c = c\<lparr>ch_next := 0, ch_prev := 0\<rparr>"

text \<open>Two states that differ in the ring only.\<close>

definition relinked :: "('h, 'u, 'k, 'a) libnet \<Rightarrow> ('h, 'u, 'k, 'a) libnet \<Rightarrow> bool" where
  "relinked w w' \<longleftrightarrow> evLoop w' = evLoop w \<and> kernel w' = kernel w \<and> app w' = app w \<and> next_free w' = next_free w
     \<and> acceptors w' = acceptors w \<and> pipe_rd w' = pipe_rd w \<and> pipe_wr w' = pipe_wr w
     \<and> lastCrondTime w' = lastCrondTime w
     \<and> (\<forall>a. map_option unlinked (channels w' a) = map_option unlinked (channels w a))"

lemma relinked_refl [simp]: "relinked w w"
  by (simp add: relinked_def)

lemma relinked_trans: "relinked w1 w2 \<Longrightarrow> relinked w2 w3 \<Longrightarrow> relinked w1 w3"
  by (simp add: relinked_def)

lemma relinked_head [simp]: "relinked w (w'\<lparr>channelHead := h\<rparr>) \<longleftrightarrow> relinked w w'"
  "relinked (w\<lparr>channelHead := h\<rparr>) w' \<longleftrightarrow> relinked w w'"
  by (simp_all add: relinked_def)

lemma relinked_dom: "relinked w w' \<Longrightarrow> dom (channels w') = dom (channels w)"
  by (auto simp: relinked_def dom_def) (metis map_option_is_None not_None_eq)+

lemma ring_member: "channel_ring w xs \<Longrightarrow> a \<in> set xs \<Longrightarrow> \<exists>c. channels w a = Some c \<and> nx_of w a = ch_next c \<and> pv_of w a = ch_prev c"
  by (auto simp: channel_ring_def nx_of_def pv_of_def)

lemma unlinked_simps [simp]:
  "unlinked (c\<lparr>ch_next := x\<rparr>) = unlinked c" "unlinked (c\<lparr>ch_prev := x\<rparr>) = unlinked c"
  by (simp_all add: unlinked_def)

lemma unlinked_upd [simp]:
  "unlinked (c\<lparr>ch_next := x, ch_prev := y\<rparr>) = unlinked c"
  by (simp add: unlinked_def)

text \<open>What writing a pointer changes.\<close>

lemma upd_channel_links:
  assumes "channels w a = Some c" and "\<And>d. unlinked (f d) = unlinked d"
  shows "\<exists>w'. upd_channel w a f = Some w' \<and> relinked w w' \<and> channelHead w' = channelHead w
    \<and> nx_of w' = (nx_of w)(a := ch_next (f c)) \<and> pv_of w' = (pv_of w)(a := ch_prev (f c))
    \<and> dom (channels w') = dom (channels w)"
  using assms by (auto simp: upd_channel_def relinked_def nx_of_def pv_of_def fun_eq_iff)

lemma set_next:
  assumes "p \<in> dom (channels w)"
  obtains w' where "upd_channel w p (\<lambda>d. d\<lparr>ch_next := v\<rparr>) = Some w'" "relinked w w'" "channelHead w' = channelHead w"
    "nx_of w' = (nx_of w)(p := v)" "pv_of w' = pv_of w" "dom (channels w') = dom (channels w)"
proof -
  obtain c where c: "channels w p = Some c" using assms by blast
  then have "nx_of w p = ch_next c" "pv_of w p = ch_prev c" by (simp_all add: nx_of_def pv_of_def)
  then show thesis using that upd_channel_links [OF c, of "\<lambda>d. d\<lparr>ch_next := v\<rparr>"] by (auto simp: fun_upd_idem)
qed

lemma set_prev:
  assumes "p \<in> dom (channels w)"
  obtains w' where "upd_channel w p (\<lambda>d. d\<lparr>ch_prev := v\<rparr>) = Some w'" "relinked w w'" "channelHead w' = channelHead w"
    "nx_of w' = nx_of w" "pv_of w' = (pv_of w)(p := v)" "dom (channels w') = dom (channels w)"
proof -
  obtain c where c: "channels w p = Some c" using assms by blast
  then have "nx_of w p = ch_next c" "pv_of w p = ch_prev c" by (simp_all add: nx_of_def pv_of_def)
  then show thesis using that upd_channel_links [OF c, of "\<lambda>d. d\<lparr>ch_prev := v\<rparr>"] by (auto simp: fun_upd_idem)
qed

lemma set_both:
  assumes "p \<in> dom (channels w)"
  obtains w' where "upd_channel w p (\<lambda>d. d\<lparr>ch_next := u, ch_prev := v\<rparr>) = Some w'" "relinked w w'" "channelHead w' = channelHead w"
    "nx_of w' = (nx_of w)(p := u)" "pv_of w' = (pv_of w)(p := v)" "dom (channels w') = dom (channels w)"
proof -
  obtain c where c: "channels w p = Some c" using assms by blast
  then have "nx_of w p = ch_next c" "pv_of w p = ch_prev c" by (simp_all add: nx_of_def pv_of_def)
  then show thesis using that upd_channel_links [OF c, of "\<lambda>d. d\<lparr>ch_next := u, ch_prev := v\<rparr>"] by (auto simp: fun_upd_idem)
qed

lemma head_update [simp]:
  "nx_of (w\<lparr>channelHead := h\<rparr>) = nx_of w" "pv_of (w\<lparr>channelHead := h\<rparr>) = pv_of w"
  by (simp_all add: nx_of_def pv_of_def fun_eq_iff)

lemma ring_untouched:
  assumes "ring nx pv xs" and "a \<notin> set xs"
  shows "ring (nx(a := u)) (pv(a := v)) xs"
proof (cases xs)
  case (Cons x ys)
  have "links nx pv (xs @ [hd xs]) \<longleftrightarrow> links (nx(a := u)) (pv(a := v)) (xs @ [hd xs])"
    by (rule links_cong) (use assms(2) Cons in \<open>auto simp: butlast_append split: if_splits\<close>)
  then show ?thesis using assms(1) by (simp add: ring_def del: links.simps)
qed (simp add: ring_def)

lemma link_correct:
  assumes ring: "channel_ring w xs" and a: "a \<in> dom (channels w)" "a \<notin> set xs" "a \<noteq> 0"
  shows "\<exists>w'. link_channel a w = Some w' \<and> channel_ring w' (a # xs) \<and> relinked w w'"
proof (cases "xs = []")
  case True
  obtain w1 where w1: "upd_channel w a (\<lambda>c. c\<lparr>ch_next := a, ch_prev := a\<rparr>) = Some w1" "relinked w w1"
    "nx_of w1 = (nx_of w)(a := a)" "pv_of w1 = (pv_of w)(a := a)" "dom (channels w1) = dom (channels w)"
    by (rule set_both [OF a(1)])
  have "channel_ring (w1\<lparr>channelHead := a\<rparr>) [a]"
    using w1(3-5) a by (auto simp: channel_ring_def ring_single)
  moreover have "link_channel a w = Some (w1\<lparr>channelHead := a\<rparr>)"
    using w1(1) True ring by (simp add: link_channel_def channel_ring_def)
  ultimately show ?thesis using w1(2) True by simp
next
  case False
  let ?h = "hd xs"
  have mem: "?h \<in> set xs" "last xs \<in> set xs" using False by simp_all
  have r: "ring (nx_of w) (pv_of w) xs" "channelHead w = ?h" using ring False by (simp_all add: channel_ring_def)
  have nz: "?h \<noteq> 0" using ring mem(1) unfolding channel_ring_def by metis
  have d: "?h \<in> dom (channels w)" "last xs \<in> dom (channels w)" using ring mem unfolding channel_ring_def by blast+
  obtain hc where hc: "channels w ?h = Some hc" "ch_prev hc = last xs"
    using ring_member [OF ring mem(1)] ring_ends [OF r(1) False] by auto
  obtain w1 where w1: "upd_channel w a (\<lambda>c. c\<lparr>ch_next := ?h, ch_prev := last xs\<rparr>) = Some w1" "relinked w w1"
    "nx_of w1 = (nx_of w)(a := ?h)" "pv_of w1 = (pv_of w)(a := last xs)" "dom (channels w1) = dom (channels w)"
    by (rule set_both [OF a(1)])
  obtain w2 where w2: "upd_channel w1 (last xs) (\<lambda>c. c\<lparr>ch_next := a\<rparr>) = Some w2" "relinked w1 w2"
    "nx_of w2 = (nx_of w1)(last xs := a)" "pv_of w2 = pv_of w1" "dom (channels w2) = dom (channels w1)"
    by (rule set_next [of "last xs" w1]) (use d w1(5) in auto)
  obtain w3 where w3: "upd_channel w2 ?h (\<lambda>c. c\<lparr>ch_prev := a\<rparr>) = Some w3" "relinked w2 w3"
    "nx_of w3 = nx_of w2" "pv_of w3 = (pv_of w2)(?h := a)" "dom (channels w3) = dom (channels w2)"
    by (rule set_prev [of ?h w2]) (use d w1(5) w2(5) in auto)
  have "ring (nx_of w3) (pv_of w3) (a # xs)"
    using ring_cons [OF r(1) False a(2)] w1 w2 w3 by simp
  then have "channel_ring (w3\<lparr>channelHead := a\<rparr>) (a # xs)"
    using ring a w1(5) w2(5) w3(5) by (auto simp: channel_ring_def)
  moreover have "link_channel a w = Some (w3\<lparr>channelHead := a\<rparr>)"
    using w1(1) w2(1) w3(1) hc r(2) nz by (simp add: link_channel_def Let_def)
  moreover have "relinked w w3" using w1(2) w2(2) w3(2) relinked_trans by blast
  ultimately show ?thesis by simp
qed

text \<open>What a member of the ring points to.\<close>

lemma ring_around:
  assumes "channel_ring w (ys @ a # zs)"
  obtains c where "channels w a = Some c" "ch_next c = (if zs \<noteq> [] then hd zs else hd (ys @ [a]))"
    "ch_next c = nx_of w a" "ch_prev c = pv_of w a"
    "ys @ zs \<noteq> [] \<Longrightarrow> ch_next c \<in> set (ys @ zs) \<and> ch_prev c \<in> set (ys @ zs)"
proof -
  have r: "ring (nx_of w) (pv_of w) (ys @ a # zs)" using assms by (simp add: channel_ring_def)
  obtain c where c: "channels w a = Some c" "nx_of w a = ch_next c" "pv_of w a = ch_prev c"
    using ring_member [OF assms, of a] by auto
  have "ring (nx_of w) (pv_of w) (a # zs @ ys)"
    using ring_rotate [of "nx_of w" "pv_of w" ys "a # zs"] r by simp
  then have "ys @ zs \<noteq> [] \<Longrightarrow> nx_of w a = hd (zs @ ys) \<and> pv_of w a = last (zs @ ys)"
    using ring_uncons(1,2) by (metis append_is_Nil_conv)
  moreover have "ys @ zs \<noteq> [] \<Longrightarrow> hd (zs @ ys) \<in> set (zs @ ys) \<and> last (zs @ ys) \<in> set (zs @ ys)"
    by (intro conjI hd_in_set last_in_set) auto
  moreover have "set (zs @ ys) = set (ys @ zs)" by auto
  ultimately have e: "ys @ zs \<noteq> [] \<Longrightarrow> ch_next c \<in> set (ys @ zs) \<and> ch_prev c \<in> set (ys @ zs)"
    using c(2,3) by metis
  show ?thesis
    by (rule that [OF c(1) _ c(2) [symmetric] c(3) [symmetric] e]) (use ring_next [OF r] c(2) in simp)
qed

lemma unlink_correct:
  assumes ring: "channel_ring w xs" and a: "a \<in> set xs"
  shows "\<exists>w'. unlink_channel a w = Some w' \<and> channel_ring w' (remove1 a xs) \<and> relinked w w'"
proof -
  obtain ys zs where xs: "xs = ys @ a # zs" "a \<notin> set ys" using a by (meson split_list_first)
  have d: "distinct xs" and h: "channelHead w = hd xs" and r: "ring (nx_of w) (pv_of w) xs"
    and dom: "set xs \<subseteq> dom (channels w)" "0 \<notin> set xs"
    using ring xs by (auto simp: channel_ring_def ring_def)
  have rem: "remove1 a xs = ys @ zs" using xs by (simp add: remove1_append)
  have an: "a \<notin> set (ys @ zs)" using d xs by auto
  obtain c where c: "channels w a = Some c" "ch_next c = (if zs \<noteq> [] then hd zs else hd (ys @ [a]))"
    "ch_next c = nx_of w a" "ch_prev c = pv_of w a"
    and ends: "ys @ zs \<noteq> [] \<Longrightarrow> ch_next c \<in> set (ys @ zs) \<and> ch_prev c \<in> set (ys @ zs)"
    by (rule ring_around [of w ys a zs]) (use ring xs in auto)
  let ?w1 = "if a = channelHead w then w\<lparr>channelHead := ch_next c\<rparr> else w"
  have head1: "channelHead ?w1 = hd ((ys @ zs) @ [a])"
    using h xs c(2) an by (cases ys) auto
  then have last: "a = channelHead ?w1 \<longleftrightarrow> ys @ zs = []" using an by (cases "ys @ zs") auto
  have same: "nx_of ?w1 = nx_of w" "pv_of ?w1 = pv_of w" "channels ?w1 = channels w" "relinked w ?w1"
    by simp_all
  show ?thesis
  proof (cases "ys @ zs = []")
    case True
    let ?w2 = "?w1\<lparr>channelHead := 0\<rparr>"
    obtain w3 where w3: "upd_channel ?w2 a (\<lambda>d. d\<lparr>ch_next := 0, ch_prev := 0\<rparr>) = Some w3" "relinked ?w2 w3"
      "channelHead w3 = channelHead ?w2"
      by (rule set_both [of a ?w2]) (use c(1) same in auto)
    have "unlink_channel a w = Some w3" using True c(1) last w3(1) by (simp add: unlink_channel_def Let_def)
    moreover have "relinked w w3" using w3(2) by (auto split: if_splits)
    ultimately show ?thesis using True rem w3(3) by (simp add: channel_ring_def ring_def)
  next
    case False
    obtain w2 where w2: "upd_channel ?w1 (ch_prev c) (\<lambda>d. d\<lparr>ch_next := ch_next c\<rparr>) = Some w2" "relinked ?w1 w2"
      "channelHead w2 = channelHead ?w1" "nx_of w2 = (nx_of w)(ch_prev c := ch_next c)" "pv_of w2 = pv_of w"
      "dom (channels w2) = dom (channels w)"
    proof (rule set_next [of "ch_prev c" ?w1])
      show "ch_prev c \<in> dom (channels ?w1)" using ends [OF False] dom(1) xs(1) same(3) by auto
    qed (use same in \<open>simp only:\<close>)
    obtain w3 where w3: "upd_channel w2 (ch_next c) (\<lambda>d. d\<lparr>ch_prev := ch_prev c\<rparr>) = Some w3" "relinked w2 w3"
      "channelHead w3 = channelHead w2" "nx_of w3 = nx_of w2" "pv_of w3 = (pv_of w2)(ch_next c := ch_prev c)"
      "dom (channels w3) = dom (channels w2)"
      by (rule set_prev [of "ch_next c" w2]) (use ends [OF False] dom xs w2(6) in auto)
    obtain w4 where w4: "upd_channel w3 a (\<lambda>d. d\<lparr>ch_next := 0, ch_prev := 0\<rparr>) = Some w4" "relinked w3 w4"
      "channelHead w4 = channelHead w3" "nx_of w4 = (nx_of w3)(a := 0)" "pv_of w4 = (pv_of w3)(a := 0)"
      "dom (channels w4) = dom (channels w3)"
      by (rule set_both [of a w3]) (use c(1) w2(6) w3(6) in auto)
    have "ring (nx_of w4) (pv_of w4) (ys @ zs)"
      using ring_untouched [OF ring_remove [of "nx_of w" "pv_of w" ys a zs] an] r xs False c(3,4)
        w2(4,5) w3(4,5) w4(4,5) by simp
    moreover have "channelHead w4 = hd (ys @ zs)"
    proof -
      have "channelHead w4 = channelHead ?w1" using w2(3) w3(3) w4(3) by simp
      then show ?thesis using head1 False by (simp only: hd_append if_False)
    qed
    ultimately have "channel_ring w4 (ys @ zs)"
      using dom xs False w2(6) w3(6) w4(6) by (auto simp: channel_ring_def)
    moreover have "unlink_channel a w = Some w4"
    proof -
      have "(a = channelHead ?w1) = False" using last False by simp
      then show ?thesis using c(1) w2(1) w3(1) w4(1) by (simp add: unlink_channel_def Let_def)
    qed
    moreover have "relinked w w4" using same(4) w2(2) w3(2) w4(2) relinked_trans by blast
    ultimately show ?thesis using rem by simp
  qed
qed

text \<open>The ring depends on the pointers of its members only.\<close>

lemma ring_frame:
  assumes "channel_ring w xs" and "channelHead w' = channelHead w"
    and "\<And>b c. b \<in> set xs \<Longrightarrow> channels w b = Some c \<Longrightarrow>
      \<exists>d. channels w' b = Some d \<and> ch_next d = ch_next c \<and> ch_prev d = ch_prev c"
  shows "channel_ring w' xs"
proof -
  have mem: "b \<in> dom (channels w') \<and> nx_of w b = nx_of w' b \<and> pv_of w b = pv_of w' b" if b: "b \<in> set xs" for b
  proof -
    obtain c where c: "channels w b = Some c" using assms(1) b unfolding channel_ring_def by blast
    then show ?thesis using assms(3) [OF b c] by (auto simp: nx_of_def pv_of_def)
  qed
  have "links (nx_of w) (pv_of w) (xs @ [hd xs]) \<longleftrightarrow> links (nx_of w') (pv_of w') (xs @ [hd xs])" if ne: "xs \<noteq> []"
  proof (rule links_cong)
    show "nx_of w x = nx_of w' x" if "x \<in> set (butlast (xs @ [hd xs]))" for x using mem that by simp
    show "pv_of w x = pv_of w' x" if "x \<in> set (tl (xs @ [hd xs]))" for x using mem that ne by (cases xs) auto
  qed
  then show ?thesis using assms(1,2) mem by (auto simp: channel_ring_def ring_def simp del: links.simps)
qed

end
