(* ===== verification/Channel_Invariant.thy ===== *)
theory Channel_Invariant
  imports Channel_Ring
begin

text \<open>
  The invariant of the library's state: the ring holds the channels, the events registered for a
  descriptor are the flags of its channel, and every channel handler in the table of events leads
  to a channel that is allocated. Every operation keeps it, provided the handlers of the layers
  above do.
\<close>

section \<open>The invariant\<close>

text \<open>
  The queue of received bytes. Its handlers empty it, so that it stays within three times what
  \<^verbatim>\<open>_read_callback\<close> reads in one go.
\<close>

definition in_inv :: "dataqueue \<Rightarrow> bool" where
  "in_inv q \<longleftrightarrow> dq_inv q \<and> unat (bufferSize q) \<le> 3 * BUFF_LEN"

lemma in_inv_init: "in_inv dq_init"
  by (simp add: in_inv_def dq_inv_init) (simp add: dq_init_def)

lemma in_inv_remove_data: "in_inv q \<Longrightarrow> in_inv (dataqueue_remove_data q b)"
  using dq_remove_data_inv [of q b] by (simp add: in_inv_def) (simp add: dataqueue_remove_data_def Let_def)

text \<open>Nothing is left in the queue.\<close>

definition drained :: "dataqueue \<Rightarrow> bool" where
  "drained q \<longleftrightarrow> dataSize q = 0"

text \<open>Both pairs of flags have the same values, so the mask of the events is the flags.\<close>

definition chan_ok :: "(ev_proc, nat) aeEventLoop \<Rightarrow> nat \<Rightarrow> ('h, 'u) channel \<Rightarrow> bool" where
  "chan_ok l a c \<longleftrightarrow> 0 \<le> ch_fd c \<and> flg c \<in> {0, 1, 2, 3}
     \<and> (case event_at l (ch_fd c) of
          None \<Rightarrow> flg c = 0
        | Some fe \<Rightarrow> fe_mask fe = flg c \<and> (flg c \<noteq> 0 \<longrightarrow> clientData fe = Some a)
            \<and> (flag_set (flg c) FLG_RECV_ENABLED \<longrightarrow> rfileProc fe = Some Read_Callback)
            \<and> (flag_set (flg c) FLG_SEND_ENABLED \<longrightarrow> wfileProc fe = Some Write_Callback))
     \<and> (flg c \<noteq> 0 \<longrightarrow> ch_handler c \<noteq> None)
     \<and> in_inv (inDataqueue c) \<and> dq_inv (outDataqueue c)"

text \<open>The descriptors that belong to acceptors and to the event pipe, and their events.\<close>

definition owned :: "('h, 'u, 'k, 'a) libnet \<Rightarrow> int set" where
  "owned w = {ac_fd ac | a ac. acceptors w a = Some ac} \<union> ({pipe_rd w, pipe_wr w} - {-1})"

definition served :: "('h, 'u, 'k, 'a) libnet \<Rightarrow> int \<Rightarrow> (ev_proc, nat) aeFileEvent \<Rightarrow> bool" where
  "served w fd fe \<longleftrightarrow> fe_mask fe = AE_READABLE
     \<and> (rfileProc fe = Some Accept_Handler
          \<and> map_option ac_fd (Option.bind (clientData fe) (acceptors w)) = Some fd
        \<or> rfileProc fe = Some Evpipe_Dummy \<and> clientData fe \<noteq> None \<and> fd = pipe_rd w \<and> fd \<noteq> -1)"

text \<open>Two states with the same acceptors and the same pipe.\<close>

definition same_owned :: "('h, 'u, 'k, 'a) libnet \<Rightarrow> ('h, 'u, 'k, 'a) libnet \<Rightarrow> bool" where
  "same_owned w w' \<longleftrightarrow> acceptors w' = acceptors w \<and> pipe_rd w' = pipe_rd w \<and> pipe_wr w' = pipe_wr w"

lemma same_owned_cong:
  assumes "same_owned w w'"
  shows "owned w' = owned w" and "served w' = served w" and "acceptors w' = acceptors w"
proof -
  show a: "acceptors w' = acceptors w" using assms by (simp add: same_owned_def)
  show "owned w' = owned w" using assms by (simp add: same_owned_def owned_def)
  show "served w' = served w" by (intro ext) (use assms in \<open>simp only: served_def a same_owned_def\<close>)
qed

text \<open>
  The acceptors are at allocated addresses with descriptors of their own, all open; so are those
  of the channels.
\<close>

definition acceptors_ok :: "('h, 'u, 'k, 'a) libnet \<Rightarrow> bool" where
  "acceptors_ok w \<longleftrightarrow> (\<forall>a ac. acceptors w a = Some ac \<longrightarrow> 0 \<le> ac_fd ac \<and> ac_fd ac \<notin> {pipe_rd w, pipe_wr w}
       \<and> a \<noteq> 0 \<and> a < next_free w)
     \<and> (\<forall>a b ac bc. acceptors w a = Some ac \<and> acceptors w b = Some bc \<and> ac_fd ac = ac_fd bc \<longrightarrow> a = b)"

lemma acceptors_okD:
  assumes "acceptors_ok w" and "acceptors w a = Some ac"
  shows "0 \<le> ac_fd ac" and "ac_fd ac \<noteq> pipe_rd w" and "ac_fd ac \<noteq> pipe_wr w" and "a \<noteq> 0" and "a < next_free w"
    and "acceptors w b = Some bc \<Longrightarrow> ac_fd bc = ac_fd ac \<Longrightarrow> b = a"
  using assms unfolding acceptors_ok_def by blast+

lemma acceptors_ok_cong:
  "acceptors_ok w \<Longrightarrow> same_owned w w' \<Longrightarrow> next_free w \<le> next_free w' \<Longrightarrow> acceptors_ok w'"
  unfolding acceptors_ok_def same_owned_def by fastforce

definition fds_ok :: "('k \<Rightarrow> kview) \<Rightarrow> ('h, 'u, 'k, 'a) libnet \<Rightarrow> bool" where
  "fds_ok kv w \<longleftrightarrow> owned w \<subseteq> snd (kv (kernel w)) \<and> acceptors_ok w
     \<and> (\<forall>a c. channels w a = Some c \<longrightarrow> ch_fd c \<in> snd (kv (kernel w)) - owned w)"

lemma fds_okD:
  assumes "fds_ok kv w"
  shows "owned w \<subseteq> snd (kv (kernel w))" and "acceptors_ok w"
    and "channels w a = Some c \<Longrightarrow> ch_fd c \<in> snd (kv (kernel w))" and "channels w a = Some c \<Longrightarrow> ch_fd c \<notin> owned w"
  using assms unfolding fds_ok_def by blast+

text \<open>The channels keep their descriptors.\<close>

lemma fds_ok_cong:
  assumes "fds_ok kv w" and "same_owned w w'" and "next_free w \<le> next_free w'"
    and "snd (kv (kernel w')) = snd (kv (kernel w))"
    and "\<And>a c'. channels w' a = Some c' \<Longrightarrow> \<exists>b c. channels w b = Some c \<and> ch_fd c = ch_fd c'"
  shows "fds_ok kv w'"
proof -
  have "ch_fd c' \<in> snd (kv (kernel w')) - owned w'" if "channels w' a = Some c'" for a c'
    using assms(5) [OF that] fds_okD(3,4) [OF assms(1)] assms(4) same_owned_cong(1) [OF assms(2)] by force
  then show ?thesis
    using fds_okD(1,2) [OF assms(1)] assms(2-4) same_owned_cong(1) [OF assms(2)] acceptors_ok_cong
    unfolding fds_ok_def by simp
qed

text \<open>
  \<open>N\<close> is the size of the table of events, \<open>D\<close> are the channels that have left the ring and are still to be freed, \<open>R\<close> those whose input
  is being handled: the handlers of the others have taken everything out of the queue.
\<close>

definition net_inv :: "int \<Rightarrow> ('k \<Rightarrow> kview) \<Rightarrow> nat set \<Rightarrow> nat set \<Rightarrow> ('h, 'u, 'k, 'a) libnet \<Rightarrow> bool" where
  "net_inv N kv R D w \<longleftrightarrow>
     setsize (evLoop w) = N \<and> ae_inv (\<lambda>k. fst (kv k)) (evLoop w, kernel w)
     \<and> (\<exists>xs. channel_ring w xs \<and> set xs \<inter> D = {} \<and> dom (channels w) = set xs \<union> D)
     \<and> 0 < next_free w \<and> channels w 0 = None \<and> (\<forall>a. next_free w \<le> a \<longrightarrow> channels w a = None)
     \<and> (\<forall>a c. channels w a = Some c \<longrightarrow> chan_ok (evLoop w) a c)
     \<and> (\<forall>a c. channels w a = Some c \<longrightarrow> a \<notin> R \<longrightarrow> drained (inDataqueue c))
     \<and> (\<forall>a b c d. channels w a = Some c \<and> channels w b = Some d \<and> ch_fd c = ch_fd d \<longrightarrow> a = b)
     \<and> (\<forall>fd fe. event_at (evLoop w) fd = Some fe \<and> fe_mask fe \<noteq> AE_NONE \<longrightarrow>
          (\<exists>a c. channels w a = Some c \<and> ch_fd c = fd) \<or> served w fd fe)
     \<and> fds_ok kv w"

lemma net_invD:
  assumes "net_inv N kv R D w"
  shows "ae_inv (\<lambda>k. fst (kv k)) (evLoop w, kernel w)" and "channels w a = Some c \<Longrightarrow> chan_ok (evLoop w) a c"
    and "channels w a = Some c \<Longrightarrow> channels w b = Some d \<Longrightarrow> ch_fd c = ch_fd d \<Longrightarrow> a = b"
    and "event_at (evLoop w) fd = Some fe \<Longrightarrow> fe_mask fe \<noteq> AE_NONE \<Longrightarrow>
      (\<exists>a c. channels w a = Some c \<and> ch_fd c = fd) \<or> served w fd fe"
    and "fds_ok kv w"
    and "channels w a = Some c \<Longrightarrow> a \<notin> R \<Longrightarrow> drained (inDataqueue c)"
  using assms unfolding net_inv_def by blast+

lemma net_inv_size: "net_inv N kv R D w \<Longrightarrow> setsize (evLoop w) = N"
  by (simp add: net_inv_def)

lemma net_invI:
  assumes "setsize (evLoop w) = N" and "ae_inv (\<lambda>k. fst (kv k)) (evLoop w, kernel w)"
    and "channel_ring w xs" "set xs \<inter> D = {}" "dom (channels w) = set xs \<union> D"
    and "0 < next_free w" "channels w 0 = None" "\<And>a. next_free w \<le> a \<Longrightarrow> channels w a = None"
    and "\<And>a c. channels w a = Some c \<Longrightarrow> chan_ok (evLoop w) a c"
    and "\<And>a b c d. channels w a = Some c \<Longrightarrow> channels w b = Some d \<Longrightarrow> ch_fd c = ch_fd d \<Longrightarrow> a = b"
    and "\<And>fd fe. event_at (evLoop w) fd = Some fe \<Longrightarrow> fe_mask fe \<noteq> AE_NONE \<Longrightarrow>
      (\<exists>a c. channels w a = Some c \<and> ch_fd c = fd) \<or> served w fd fe"
    and "fds_ok kv w"
    and "\<And>a c. channels w a = Some c \<Longrightarrow> a \<notin> R \<Longrightarrow> drained (inDataqueue c)"
  shows "net_inv N kv R D w"
  unfolding net_inv_def using assms by blast

lemma net_inv_memD:
  assumes "net_inv N kv R D w"
  shows "0 < next_free w" and "channels w 0 = None" and "next_free w \<le> a \<Longrightarrow> channels w a = None"
    and "\<exists>xs. channel_ring w xs \<and> set xs \<inter> D = {} \<and> dom (channels w) = set xs \<union> D"
  using assms unfolding net_inv_def by blast+

section \<open>Changing one channel\<close>

lemma ring_cong:
  assumes "channel_ring w xs" and "channels w a = Some c" and "ch_next c' = ch_next c" and "ch_prev c' = ch_prev c"
    and "channels w' = (channels w)(a \<mapsto> c')" and "channelHead w' = channelHead w"
  shows "channel_ring w' xs"
proof -
  have "nx_of w' = nx_of w" "pv_of w' = pv_of w"
    using assms(2-5) by (auto simp: nx_of_def pv_of_def fun_eq_iff)
  then show ?thesis using assms(1,5,6) by (auto simp: channel_ring_def)
qed

lemma net_inv_change:
  assumes inv: "net_inv N kv R D w" and a: "channels w a = Some c"
    and same: "ch_fd c' = ch_fd c" "ch_next c' = ch_next c" "ch_prev c' = ch_prev c"
    and ae: "ae_inv (\<lambda>k. fst (kv k)) (l, k)" "setsize l = setsize (evLoop w)" and opened: "snd (kv k) = snd (kv (kernel w))"
    and others: "\<And>fd. fd \<noteq> ch_fd c \<Longrightarrow> event_at l fd = event_at (evLoop w) fd"
    and ok: "chan_ok l a c'" and ready: "a \<notin> R \<Longrightarrow> drained (inDataqueue c')"
    and w': "w' = w\<lparr>evLoop := l, kernel := k, channels := (channels w)(a \<mapsto> c')\<rparr>"
  shows "net_inv N kv R D w'"
proof -
  obtain xs where xs: "channel_ring w xs" "set xs \<inter> D = {}" "dom (channels w) = set xs \<union> D"
    using inv by (auto simp: net_inv_def)
  have fds: "b = a" if "channels w b = Some d" "ch_fd d = ch_fd c" for b d
    using net_invD(3) [OF inv] that a by blast
  show ?thesis
  proof (rule net_invI [of w' N kv xs D])
    show "channel_ring w' xs" by (rule ring_cong [OF xs(1) a same(2,3)]) (simp_all add: w')
    show "dom (channels w') = set xs \<union> D" using a xs(3) by (auto simp: w')
    show "ae_inv (\<lambda>k. fst (kv k)) (evLoop w', kernel w')" using ae by (simp add: w')
    show "0 < next_free w'" using net_inv_memD(1) [OF inv] by (simp add: w')
    show "channels w' 0 = None" using net_inv_memD(2) [OF inv] a by (cases "a = 0") (auto simp: w')
    show "channels w' b = None" if "next_free w' \<le> b" for b
      using net_inv_memD(3) [OF inv, of b] that a by (auto simp: w')
    show "chan_ok (evLoop w') b d" if b: "channels w' b = Some d" for b d
    proof (cases "b = a")
      case True
      then show ?thesis using ok b by (simp add: w')
    next
      case False
      then have d: "channels w b = Some d" using b by (simp add: w')
      then have "ch_fd d \<noteq> ch_fd c" using fds False by blast
      then show ?thesis using net_invD(2) [OF inv d] others by (simp add: chan_ok_def w')
    qed
    have old: "\<exists>b e. channels w b = Some e \<and> ch_fd e = ch_fd d" if "channels w' b = Some d" for b d
      using that a same(1) by (cases "b = a") (auto simp: w')
    show "fds_ok kv w'"
      by (rule fds_ok_cong [OF net_invD(5) [OF inv] _ _ _ old]) (simp_all add: w' same_owned_def opened)
    have sv: "served w' = served w" by (rule same_owned_cong(2)) (simp add: w' same_owned_def)
    show "(\<exists>b d. channels w' b = Some d \<and> ch_fd d = fd) \<or> served w' fd fe"
      if at: "event_at (evLoop w') fd = Some fe" and ev: "fe_mask fe \<noteq> AE_NONE" for fd fe
    proof (cases "fd = ch_fd c")
      case True
      then show ?thesis using same(1) by (auto simp: w')
    next
      case False
      then have e: "event_at (evLoop w) fd = Some fe" using at others [OF False] by (simp add: w')
      from net_invD(4) [OF inv e ev] show ?thesis
      proof
        assume "\<exists>b d. channels w b = Some d \<and> ch_fd d = fd"
        then obtain b d where "channels w b = Some d" "ch_fd d = fd" by blast
        then show ?thesis using False by (intro disjI1 exI [of _ b] exI [of _ d]) (auto simp: w' a)
      qed (simp add: sv)
    qed
    show "b = b'" if b: "channels w' b = Some d" "channels w' b' = Some d'" "ch_fd d = ch_fd d'" for b b' d d'
    proof -
      have old: "\<exists>e. channels w b = Some e \<and> ch_fd e = ch_fd d" if "channels w' b = Some d" for b d
        using that a same(1) by (cases "b = a") (auto simp: w')
      obtain e e' where "channels w b = Some e" "ch_fd e = ch_fd d" "channels w b' = Some e'" "ch_fd e' = ch_fd d'"
        using old [OF b(1)] old [OF b(2)] by blast
      then show ?thesis using net_invD(3) [OF inv, of b e b' e'] b(3) by simp
    qed
    show "drained (inDataqueue d)" if "channels w' b = Some d" "b \<notin> R" for b d
      using net_invD(6) [OF inv] that ready by (cases "b = a") (auto simp: w')
  qed (use xs(2) net_inv_size [OF inv] ae(2) in \<open>simp_all add: w'\<close>)
qed

lemma ae_inv_kernel: "ae_inv (\<lambda>k. fst (kv k)) (l, k) \<Longrightarrow> kv k1 = kv k \<Longrightarrow> ae_inv (\<lambda>k. fst (kv k)) (l, k1)"
  by (simp add: ae_inv_def)

lemma net_inv_kernel:
  assumes inv: "net_inv N kv R D w" and same: "kv k1 = kv (kernel w)"
  shows "net_inv N kv R D (w\<lparr>kernel := k1\<rparr>)"
proof -
  obtain xs where xs: "channel_ring w xs" "set xs \<inter> D = {}" "dom (channels w) = set xs \<union> D"
    using net_inv_memD(4) [OF inv] by blast
  have so: "same_owned w (w\<lparr>kernel := k1\<rparr>)" by (simp add: same_owned_def)
  show ?thesis
  proof (rule net_invI [of "w\<lparr>kernel := k1\<rparr>" N kv xs])
    show "channel_ring (w\<lparr>kernel := k1\<rparr>) xs" by (rule ring_frame [OF xs(1)]) auto
    show "fds_ok kv (w\<lparr>kernel := k1\<rparr>)" by (rule fds_ok_cong [OF net_invD(5) [OF inv] so]) (auto simp: same)
    show "ae_inv (\<lambda>k. fst (kv k)) (evLoop (w\<lparr>kernel := k1\<rparr>), kernel (w\<lparr>kernel := k1\<rparr>))"
      using ae_inv_kernel [OF net_invD(1) [OF inv] same] by simp
    show "(\<exists>b d. channels (w\<lparr>kernel := k1\<rparr>) b = Some d \<and> ch_fd d = fd) \<or> served (w\<lparr>kernel := k1\<rparr>) fd fe"
      if "event_at (evLoop (w\<lparr>kernel := k1\<rparr>)) fd = Some fe" "fe_mask fe \<noteq> AE_NONE" for fd fe
      using net_invD(4) [OF inv, of fd fe] that same_owned_cong(2) [OF so] by simp
    show "b = b'" if "channels (w\<lparr>kernel := k1\<rparr>) b = Some d" "channels (w\<lparr>kernel := k1\<rparr>) b' = Some d'" "ch_fd d = ch_fd d'"
      for b b' d d' using net_invD(3) [OF inv, of b d b' d'] that by simp
  qed (use xs net_inv_size [OF inv] net_inv_memD [OF inv] net_invD(2,6) [OF inv] in auto)
qed

text \<open>Changes that concern neither the events nor the ring.\<close>

lemma net_inv_data:
  assumes "net_inv N kv R D w" and "channels w a = Some c"
    and "ch_fd c' = ch_fd c" "ch_next c' = ch_next c" "ch_prev c' = ch_prev c" "flg c' = flg c"
    and "ch_handler c \<noteq> None \<longrightarrow> ch_handler c' \<noteq> None" and "in_inv (inDataqueue c')" and "dq_inv (outDataqueue c')"
    and "a \<notin> R \<Longrightarrow> drained (inDataqueue c')"
  shows "net_inv N kv R D (w\<lparr>channels := (channels w)(a \<mapsto> c')\<rparr>)"
proof (rule net_inv_change [OF assms(1-5), of "evLoop w" "kernel w"])
  show "ae_inv (\<lambda>k. fst (kv k)) (evLoop w, kernel w)" by (rule net_invD(1) [OF assms(1)])
  show "chan_ok (evLoop w) a c'"
    using net_invD(2) [OF assms(1,2)] assms(3,6-9) by (auto simp: chan_ok_def split: option.splits)
qed (use assms(10) in simp_all)

text \<open>The handler of \<open>a\<close> is done: the queue is empty.\<close>

lemma net_inv_drained:
  assumes inv: "net_inv N kv (insert a R) D w" and "\<And>c. channels w a = Some c \<Longrightarrow> drained (inDataqueue c)"
  shows "net_inv N kv R D w"
proof -
  have "drained (inDataqueue c)" if "channels w b = Some c" "b \<notin> R" for b c
    using net_invD(6) [OF inv that(1)] that assms(2) by (cases "b = a") auto
  then show ?thesis using inv unfolding net_inv_def by blast
qed

section \<open>Entering and leaving the ring\<close>

lemma chan_ok_unlinked:
  "unlinked c = unlinked d \<Longrightarrow> chan_ok l a c = chan_ok l a d \<and> ch_fd c = ch_fd d \<and> inDataqueue c = inDataqueue d"
proof -
  assume u: "unlinked c = unlinked d"
  have "ch_fd c = ch_fd d" "flg c = flg d" "ch_handler c = ch_handler d"
    "inDataqueue c = inDataqueue d" "outDataqueue c = outDataqueue d"
    using arg_cong [OF u, of ch_fd] arg_cong [OF u, of flg] arg_cong [OF u, of ch_handler]
      arg_cong [OF u, of inDataqueue] arg_cong [OF u, of outDataqueue] by (simp_all add: unlinked_def)
  then show ?thesis by (simp add: chan_ok_def split: option.split)
qed

lemma relinkedD:
  assumes "relinked w w'" and "channels w' a = Some d"
  shows "\<exists>c. channels w a = Some c \<and> unlinked c = unlinked d"
proof -
  have "map_option unlinked (channels w a) = Some (unlinked d)"
    using assms by (metis option.simps(9) relinked_def)
  then show ?thesis by (cases "channels w a") auto
qed

lemma relinked_sym: "relinked w w' \<Longrightarrow> relinked w' w"
  by (simp add: relinked_def)

lemma net_inv_relink:
  assumes inv: "net_inv N kv R D w" and rel: "relinked w w'"
    and ring: "channel_ring w' xs" "set xs \<inter> E = {}" "dom (channels w) = set xs \<union> E"
  shows "net_inv N kv R E w'"
proof (rule net_invI [of w' N kv xs E])
  have fields: "evLoop w' = evLoop w" "kernel w' = kernel w" "next_free w' = next_free w"
    using rel by (simp_all add: relinked_def)
  have none: "channels w' b = None \<longleftrightarrow> channels w b = None" for b
    using relinked_dom [OF rel] by (metis domIff)
  show "setsize (evLoop w') = N" using net_inv_size [OF inv] fields(1) by simp
  show "channel_ring w' xs" "set xs \<inter> E = {}" by (rule ring)+
  show "dom (channels w') = set xs \<union> E" using relinked_dom [OF rel] ring(3) by simp
  show "ae_inv (\<lambda>k. fst (kv k)) (evLoop w', kernel w')" using net_invD(1) [OF inv] fields by simp
  show "0 < next_free w'" "channels w' 0 = None" using net_inv_memD(1,2) [OF inv] fields none by simp_all
  show "channels w' b = None" if "next_free w' \<le> b" for b using net_inv_memD(3) [OF inv] that fields none by simp
  show "chan_ok (evLoop w') b d" if "channels w' b = Some d" for b d
    using relinkedD [OF rel that] net_invD(2) [OF inv] chan_ok_unlinked fields by metis
  show "b = b'" if "channels w' b = Some d" "channels w' b' = Some d'" "ch_fd d = ch_fd d'" for b b' d d'
    using relinkedD [OF rel that(1)] relinkedD [OF rel that(2)] that(3) net_invD(3) [OF inv] chan_ok_unlinked by metis
  have so: "same_owned w w'" using rel by (simp add: relinked_def same_owned_def)
  show "fds_ok kv w'"
  proof (rule fds_ok_cong [OF net_invD(5) [OF inv] so])
    show "\<exists>b c. channels w b = Some c \<and> ch_fd c = ch_fd c'" if "channels w' a = Some c'" for a c'
      using relinkedD [OF rel that] chan_ok_unlinked by metis
  qed (simp_all add: fields)
  show "(\<exists>b d. channels w' b = Some d \<and> ch_fd d = fd) \<or> served w' fd fe"
    if at: "event_at (evLoop w') fd = Some fe" and ev: "fe_mask fe \<noteq> AE_NONE" for fd fe
  proof -
    have "(\<exists>b d. channels w b = Some d \<and> ch_fd d = fd) \<or> served w fd fe"
      using net_invD(4) [OF inv, of fd fe] at ev fields by simp
    then show ?thesis
    proof
      assume "\<exists>b d. channels w b = Some d \<and> ch_fd d = fd"
      then obtain b d where b: "channels w b = Some d" "ch_fd d = fd" by blast
      then show ?thesis using relinkedD [OF relinked_sym [OF rel] b(1)] chan_ok_unlinked by metis
    qed (simp add: same_owned_cong(2) [OF so])
  qed
  show "drained (inDataqueue d)" if "channels w' b = Some d" "b \<notin> R" for b d
    using relinkedD [OF rel that(1)] that(2) net_invD(6) [OF inv] chan_ok_unlinked by metis
qed

lemma unlink_inv:
  assumes "net_inv N kv R D w" and "a \<in> dom (channels w)" and "a \<notin> D"
  shows "\<exists>w'. unlink_channel a w = Some w' \<and> net_inv N kv R (insert a D) w' \<and> relinked w w'"
proof -
  obtain xs where xs: "channel_ring w xs" "set xs \<inter> D = {}" "dom (channels w) = set xs \<union> D"
    using net_inv_memD(4) [OF assms(1)] by blast
  then have "a \<in> set xs" "distinct xs" using assms(2,3) by (auto simp: channel_ring_def ring_def)
  then obtain w' where w': "unlink_channel a w = Some w'" "channel_ring w' (remove1 a xs)" "relinked w w'"
    using unlink_correct [OF xs(1)] by blast
  have "set (remove1 a xs) \<inter> insert a D = {}" "dom (channels w) = set (remove1 a xs) \<union> insert a D"
    using xs \<open>a \<in> set xs\<close> \<open>distinct xs\<close> by auto
  then show ?thesis using w' net_inv_relink [OF assms(1) w'(3,2)] by blast
qed

text \<open>An open descriptor that is not in use.\<close>

definition fresh_fd :: "('k \<Rightarrow> kview) \<Rightarrow> ('h, 'u, 'k, 'a) libnet \<Rightarrow> int \<Rightarrow> bool" where
  "fresh_fd kv w fd \<longleftrightarrow> 0 \<le> fd \<and> watched (evLoop w) fd = None \<and> fd \<in> snd (kv (kernel w)) - owned w
     \<and> (\<forall>a c. channels w a = Some c \<longrightarrow> ch_fd c \<noteq> fd)"

lemma drained_init: "drained dq_init"
  by (simp add: drained_def dq_init_def)

text \<open>\<^verbatim>\<open>channel_create\<close> puts the new channel in front.\<close>

definition new_channel :: "int \<Rightarrow> byte list \<Rightarrow> u16 \<Rightarrow> bool \<Rightarrow> ('h, 'u) channel" where
  "new_channel fd ip port ups = \<lparr>ch_next = 0, ch_prev = 0, ch_handler = None, ch_pUsr = None, inDataqueue = dq_init,
      outDataqueue = dq_init, lastinteraction = 0, timeouts = 0, ch_fd = fd, ipStr = ip,
      ch_port = port, flg = 0, upstream = ups, connected = False\<rparr>"

lemma new_channel_simps [simp]:
  "ch_fd (new_channel fd ip port ups) = fd" "flg (new_channel fd ip port ups) = 0"
  "ch_handler (new_channel fd ip port ups) = None" "inDataqueue (new_channel fd ip port ups) = dq_init"
  by (simp_all add: new_channel_def)

lemma create_ring:
  fixes w :: "('h, 'u, 'k, 'a) libnet" and fd port ip ups
  assumes ring: "channel_ring w xs" and new: "channels w (next_free w) = None" "0 < next_free w" and ip: "length ip < IPSTRSIZE"
  defines "w1 \<equiv> w\<lparr>channels := (channels w)(next_free w \<mapsto> new_channel fd ip port ups), next_free := next_free w + 1\<rparr>"
  shows "\<exists>w'. channel_create fd ip port ups w = Some (next_free w, w') \<and> channel_ring w' (next_free w # xs) \<and> relinked w1 w'"
    and "channel_ring w1 xs"
proof -
  have notin: "next_free w \<notin> set xs" using ring new(1) unfolding channel_ring_def by blast
  show ring1: "channel_ring w1 xs" unfolding w1_def by (rule ring_frame [OF ring]) (use notin in auto)
  have "next_free w \<in> dom (channels w1)" by (simp add: w1_def)
  then obtain w' where "link_channel (next_free w) w1 = Some w'" "channel_ring w' (next_free w # xs)" "relinked w1 w'"
    using link_correct [OF ring1 _ notin] new(2) by blast
  then show "\<exists>w'. channel_create fd ip port ups w = Some (next_free w, w') \<and> channel_ring w' (next_free w # xs) \<and> relinked w1 w'"
    using ip by (simp add: channel_create_def new_channel_def w1_def Let_def)
qed

lemma create_inv:
  fixes w :: "('h, 'u, 'k, 'a) libnet"
  assumes inv: "net_inv N kv R D w" and fd: "fresh_fd kv w fd" and ip: "length ip < IPSTRSIZE"
  shows "\<exists>a w'. channel_create fd ip port ups w = Some (a, w') \<and> net_inv N kv R D w' \<and> channels w a = None
    \<and> (\<exists>c. channels w' a = Some c \<and> ch_fd c = fd \<and> ch_handler c = None \<and> flg c = 0)"
proof -
  let ?a = "next_free w"
  let ?c = "new_channel fd ip port ups :: ('h, 'u) channel"
  let ?w1 = "w\<lparr>channels := (channels w)(?a \<mapsto> ?c), next_free := ?a + 1\<rparr>"
  obtain xs where xs: "channel_ring w xs" "set xs \<inter> D = {}" "dom (channels w) = set xs \<union> D"
    using net_inv_memD(4) [OF inv] by blast
  have new: "channels w ?a = None" "?a \<noteq> 0" "?a \<notin> set xs" "?a \<notin> D"
    using net_inv_memD(1,3) [OF inv] xs(3) by auto
  obtain w' where w': "channel_create fd ip port ups w = Some (?a, w')" "channel_ring w' (?a # xs)" "relinked ?w1 w'"
    using create_ring(1) [OF xs(1) new(1) _ ip] new(2) by blast
  have ring1: "channel_ring ?w1 xs" using create_ring(2) [OF xs(1) new(1) _ ip] new(2) by simp
  have ok: "chan_ok (evLoop w) ?a ?c"
    using fd by (auto simp: new_channel_def chan_ok_def fresh_fd_def watched_def AE_NONE_def dq_inv_init in_inv_init flag_set_def
        split: option.splits if_splits)
  have inv1: "net_inv N kv R ({?a} \<union> D) ?w1"
  proof (rule net_invI [of ?w1 N kv xs])
    show "b = b'" if "channels ?w1 b = Some d" "channels ?w1 b' = Some d'" "ch_fd d = ch_fd d'" for b b' d d'
    proof -
      have other: "ch_fd e \<noteq> fd" if "channels w x = Some e" for x e using fd that by (auto simp: fresh_fd_def)
      show ?thesis
      proof (cases "b = ?a \<or> b' = ?a")
        case True
        then show ?thesis using that other [of b d] other [of b' d'] by (auto split: if_splits)
      next
        case False
        then show ?thesis using that net_invD(3) [OF inv, of b d b' d'] by simp
      qed
    qed
    show "chan_ok (evLoop ?w1) b d" if "channels ?w1 b = Some d" for b d
      using that ok net_invD(2) [OF inv, of b d] by (auto split: if_splits)
    show "drained (inDataqueue d)" if "channels ?w1 b = Some d" "b \<notin> R" for b d
      using that net_invD(6) [OF inv, of b d] drained_init by (auto split: if_splits)
    have so: "same_owned w ?w1" by (simp add: same_owned_def)
    have "ch_fd d \<in> snd (kv (kernel ?w1)) - owned ?w1" if "channels ?w1 b = Some d" for b d
      using that fd fds_okD(3,4) [OF net_invD(5) [OF inv], of b d] same_owned_cong(1) [OF so]
      by (auto simp: fresh_fd_def split: if_splits)
    then show "fds_ok kv ?w1"
      using fds_okD(1,2) [OF net_invD(5) [OF inv]] same_owned_cong(1) [OF so] acceptors_ok_cong [OF _ so]
      unfolding fds_ok_def by simp
    show "(\<exists>b d. channels ?w1 b = Some d \<and> ch_fd d = fd1) \<or> served ?w1 fd1 fe"
      if at: "event_at (evLoop ?w1) fd1 = Some fe" and ev: "fe_mask fe \<noteq> AE_NONE" for fd1 fe
    proof -
      have "event_at (evLoop w) fd1 = Some fe" using at by simp
      from net_invD(4) [OF inv this ev] show ?thesis
      proof
        assume "\<exists>b d. channels w b = Some d \<and> ch_fd d = fd1"
        then obtain b d where "channels w b = Some d" "ch_fd d = fd1" by blast
        then show ?thesis using new(1) by (intro disjI1 exI [of _ b] exI [of _ d]) auto
      next
        assume "served w fd1 fe"
        then show ?thesis unfolding same_owned_cong(2) [OF so] by (rule disjI2)
      qed
    qed
  qed (use net_inv_size [OF inv] xs new ring1 net_inv_memD [OF inv] net_invD(1) [OF inv] in auto)
  have "net_inv N kv R D w'"
    by (rule net_inv_relink [OF inv1 w'(3,2)]) (use xs new in auto)
  moreover obtain c where c: "channels w' ?a = Some c" "unlinked ?c = unlinked c"
  proof -
    have "?a \<in> dom (channels w')" using relinked_dom [OF w'(3)] by simp
    then obtain c where c: "channels w' ?a = Some c" by blast
    then show thesis using that relinkedD [OF w'(3) c] by auto
  qed
  moreover have "ch_fd c = fd" "ch_handler c = None" "flg c = 0"
    using arg_cong [OF c(2), of ch_fd] arg_cong [OF c(2), of ch_handler] arg_cong [OF c(2), of flg]
    by (simp_all add: unlinked_def)
  ultimately show ?thesis using w'(1) ip new(1) by auto
qed

section \<open>Switching events on and off\<close>

definition flag_pair :: "u32 \<Rightarrow> u32 \<Rightarrow> bool" where
  "flag_pair fl msk \<longleftrightarrow> fl = FLG_RECV_ENABLED \<and> msk = AE_READABLE \<or> fl = FLG_SEND_ENABLED \<and> msk = AE_WRITABLE"

lemmas flag_values = FLG_RECV_ENABLED_def FLG_SEND_ENABLED_def AE_READABLE_def AE_WRITABLE_def flag_set_def

lemma flag_cases:
  assumes "f \<in> {0, 1, 2, 3 :: u32}" and "flag_pair fl msk"
  shows "fl = msk" and "f AND NOT fl \<in> {0, 1, 2, 3}" and "f OR fl \<in> {0, 1, 2, 3}" and "f OR fl \<noteq> 0"
  using assms by (auto simp: flag_pair_def flag_values)

lemma disable_inv:
  assumes os: "os_spec os kv" and inv: "net_inv N kv R D w" and a: "channels w a = Some c"
    and fl: "flag_pair fl msk"
  shows "\<exists>w'. disable os fl msk a w = Some w' \<and> net_inv N kv R D w'
    \<and> channels w' = (channels w)(a \<mapsto> c\<lparr>flg := flg c AND NOT fl\<rparr>) \<and> app w' = app w
    \<and> channelHead w' = channelHead w"
proof (cases "flag_set (flg c) fl")
  case False
  have "flg c \<in> {0, 1, 2, 3}" using net_invD(2) [OF inv a] by (simp add: chan_ok_def)
  then have "flg c AND NOT fl = flg c" using False fl by (auto simp: flag_pair_def flag_values)
  then have "c\<lparr>flg := flg c AND NOT fl\<rparr> = c" by simp
  then have "(channels w)(a \<mapsto> c\<lparr>flg := flg c AND NOT fl\<rparr>) = channels w" using a by (simp add: fun_upd_idem)
  then show ?thesis using False a inv by (simp add: disable_def)
next
  case True
  note ok = net_invD(2) [OF inv a]
  have f: "flg c \<in> {0, 1, 2, 3}" "flg c \<noteq> 0" using ok True by (auto simp: chan_ok_def flag_set_def)
  then obtain fe where fe: "event_at (evLoop w) (ch_fd c) = Some fe" "fe_mask fe = flg c"
    using ok by (auto simp: chan_ok_def split: option.splits)
  obtain l1 k1 where del: "aeDeleteFileEvent (sys_epoll_ctl os) (ch_fd c) msk (evLoop w, kernel w) = Some (l1, k1)"
    and ae: "ae_inv (\<lambda>k. fst (kv k)) (l1, k1)" "setsize l1 = setsize (evLoop w)"
    using delete_correct [OF os_specD(1) [OF os] net_invD(1) [OF inv], of "ch_fd c" msk] ok
    by (auto simp: chan_ok_def)
  note entries = delete_entries [OF del fe(1)]
  have wf: "ae_wf (evLoop w)" using net_invD(1) [OF inv] by (simp add: ae_inv_def)
  let ?c = "c\<lparr>flg := flg c AND NOT fl\<rparr>"
  let ?w = "w\<lparr>evLoop := l1, kernel := k1, channels := (channels w)(a \<mapsto> ?c)\<rparr>"
  have "net_inv N kv R D ?w"
  proof (rule net_inv_change [OF inv a, of ?c l1 k1])
    show "event_at l1 fd = event_at (evLoop w) fd" if "fd \<noteq> ch_fd c" for fd using entries(2) [OF wf that] .
    show "chan_ok l1 a ?c"
      using ok fe entries(1) [OF wf] flag_cases [OF f(1) fl] f fl
      by (auto simp: chan_ok_def flag_pair_def flag_values)
    show "snd (kv k1) = snd (kv (kernel w))" by (rule ctl_frame(2) [OF os_specD(2) [OF os] del])
  qed (use ae net_invD(6) [OF inv a] in simp_all)
  moreover have "disable os fl msk a w = Some ?w"
    using True a del by (simp add: disable_def del_event_def upd_channel_def)
  ultimately show ?thesis by simp
qed

lemma chan_ok_enable:
  assumes ok: "chan_ok l a c" and fl: "flag_pair fl msk"
    and p: "p = (if fl = FLG_RECV_ENABLED then Read_Callback else Write_Callback)"
    and fe: "event_at l (ch_fd c) = Some fe" "event_at l1 (ch_fd c) = Some fe1"
      "fe_mask fe1 = fe_mask fe OR msk" "clientData fe1 = Some a"
      "rfileProc fe1 = (if msk AND AE_READABLE \<noteq> 0 then Some p else rfileProc fe)"
      "wfileProc fe1 = (if msk AND AE_WRITABLE \<noteq> 0 then Some p else wfileProc fe)"
    and c': "ch_fd c' = ch_fd c" "flg c' = flg c OR fl" "ch_handler c' \<noteq> None"
      "in_inv (inDataqueue c')" "dq_inv (outDataqueue c')"
  shows "chan_ok l1 a c'"
proof -
  have f: "flg c \<in> {0, 1, 2, 3}" "0 \<le> ch_fd c" "fe_mask fe = flg c"
    "flag_set (flg c) FLG_RECV_ENABLED \<Longrightarrow> rfileProc fe = Some Read_Callback"
    "flag_set (flg c) FLG_SEND_ENABLED \<Longrightarrow> wfileProc fe = Some Write_Callback"
    using ok fe(1) by (simp_all add: chan_ok_def)
  have mask: "fe_mask fe1 = flg c'" "flg c' \<in> {0, 1, 2, 3}"
    using flag_cases [OF f(1) fl] f(3) fe(3) c'(2) by simp_all
  have "rfileProc fe1 = Some Read_Callback" if r: "flag_set (flg c') FLG_RECV_ENABLED"
  proof (cases "fl = FLG_RECV_ENABLED")
    case True
    then have "msk AND AE_READABLE \<noteq> 0" using fl by (auto simp: flag_pair_def flag_values)
    then show ?thesis using True fe(5) p by simp
  next
    case False
    then have "msk AND AE_READABLE = 0" "flag_set (flg c) FLG_RECV_ENABLED"
      using r fl c'(2) f(1) by (auto simp: flag_pair_def flag_values)
    then show ?thesis using fe(5) f(4) by simp
  qed
  moreover have "wfileProc fe1 = Some Write_Callback" if r: "flag_set (flg c') FLG_SEND_ENABLED"
  proof (cases "fl = FLG_RECV_ENABLED")
    case True
    then have "msk AND AE_WRITABLE = 0" "flag_set (flg c) FLG_SEND_ENABLED"
      using r fl c'(2) f(1) by (auto simp: flag_pair_def flag_values)
    then show ?thesis using fe(6) f(5) by simp
  next
    case False
    then have "msk AND AE_WRITABLE \<noteq> 0" using fl by (auto simp: flag_pair_def flag_values)
    then show ?thesis using False fe(6) p by simp
  qed
  ultimately show ?thesis using mask fe(2,4) c' f(2) unfolding chan_ok_def by simp
qed

lemma enable_inv:
  assumes os: "os_spec os kv" and inv: "net_inv N kv R D w" and a: "channels w a = Some c"
    and fl: "flag_pair fl msk" and p: "p = (if fl = FLG_RECV_ENABLED then Read_Callback else Write_Callback)"
  shows "\<exists>r w1. add_event os (ch_fd c) msk p a w = Some (r, w1) \<and> channels w1 = channels w \<and> app w1 = app w
    \<and> channelHead w1 = channelHead w \<and> next_free w1 = next_free w
    \<and> (r \<noteq> 0 \<longrightarrow> net_inv N kv R D w1)
    \<and> (r = 0 \<longrightarrow> (\<forall>c'. ch_fd c' = ch_fd c \<and> ch_next c' = ch_next c \<and> ch_prev c' = ch_prev c
        \<and> flg c' = flg c OR fl \<and> ch_handler c' \<noteq> None \<and> in_inv (inDataqueue c') \<and> dq_inv (outDataqueue c')
        \<and> (a \<notin> R \<longrightarrow> drained (inDataqueue c'))
        \<longrightarrow> net_inv N kv R D (w1\<lparr>channels := (channels w)(a \<mapsto> c')\<rparr>)))"
proof -
  note ok = net_invD(2) [OF inv a]
  have f: "flg c \<in> {0, 1, 2, 3}" "0 \<le> ch_fd c" using ok by (simp_all add: chan_ok_def)
  have msk: "msk \<noteq> AE_NONE" using fl by (auto simp: flag_pair_def AE_NONE_def flag_values)
  obtain r l1 k1 where cr: "aeCreateFileEvent (sys_epoll_ctl os) (ch_fd c) msk p a (evLoop w, kernel w) = Some (r, l1, k1)"
    and ae: "ae_inv (\<lambda>k. fst (kv k)) (l1, k1)" "r = -1 \<longrightarrow> l1 = evLoop w"
    using create_correct [OF os_specD(1) [OF os] net_invD(1) [OF inv] f(2) msk, of p a] by auto
  let ?w1 = "w\<lparr>evLoop := l1, kernel := k1\<rparr>"
  have add: "add_event os (ch_fd c) msk p a w = Some (r, ?w1)" using cr by (simp add: add_event_def)
  have r: "r = -1 \<or> r = 0" by (rule create_result [OF cr])
  have opened: "snd (kv k1) = snd (kv (kernel w))" by (rule ctl_frame(1) [OF os_specD(2) [OF os] cr])
  have bad: "net_inv N kv R D ?w1" if "r \<noteq> 0"
  proof -
    have "r = -1" using r that by simp
    then have "l1 = evLoop w" using ae(2) by simp
    moreover from this have "kv k1 = kv (kernel w)"
      using ae(1) net_invD(1) [OF inv] opened by (simp add: ae_inv_def prod_eq_iff)
    ultimately show ?thesis using net_inv_kernel [OF inv, of k1] by simp
  qed
  have good: "net_inv N kv R D (?w1\<lparr>channels := (channels w)(a \<mapsto> c')\<rparr>)"
    if r0: "r = 0" and c': "ch_fd c' = ch_fd c" "ch_next c' = ch_next c" "ch_prev c' = ch_prev c"
      "flg c' = flg c OR fl" "ch_handler c' \<noteq> None" "in_inv (inDataqueue c')" "dq_inv (outDataqueue c')"
      "a \<notin> R \<longrightarrow> drained (inDataqueue c')" for c'
  proof (rule net_inv_change [OF inv a c'(1-3) ae(1) create_size [OF cr] opened])
    obtain fe fe1 where fe: "event_at (evLoop w) (ch_fd c) = Some fe" "event_at l1 (ch_fd c) = Some fe1"
      "fe_mask fe1 = fe_mask fe OR msk" "clientData fe1 = Some a"
      "rfileProc fe1 = (if msk AND AE_READABLE \<noteq> 0 then Some p else rfileProc fe)"
      "wfileProc fe1 = (if msk AND AE_WRITABLE \<noteq> 0 then Some p else wfileProc fe)"
      and same: "\<forall>fd1. fd1 \<noteq> ch_fd c \<longrightarrow> event_at l1 fd1 = event_at (evLoop w) fd1"
      using create_entries [of "sys_epoll_ctl os" "ch_fd c" msk p a "evLoop w" "kernel w" l1 k1] cr r0 by auto
    show "event_at l1 fd = event_at (evLoop w) fd" if "fd \<noteq> ch_fd c" for fd using same that by blast
    show "chan_ok l1 a c'" by (rule chan_ok_enable [OF ok fl p fe c'(1,4-7)])
  qed (use c'(8) in simp_all)
  show ?thesis using add bad good by (intro exI [of _ r] exI [of _ ?w1]) simp
qed

end
