(* ===== verification/Channel_Safety.thy ===== *)
theory Channel_Safety
  imports Channel_Invariant
begin

text \<open>
  Closing, connecting, reading and writing keep the invariant of the library's state and never
  reach a channel that has been freed, whatever the handlers of the layers above do within their
  contract: a handler may close any channel, its own included, create, bind and send.
\<close>

section \<open>The contracts\<close>

text \<open>
  A handler is given a channel that is in the ring (for \<open>EVACCEPTED\<close> a new one), or for \<open>EVCLOSED\<close> one that has just left it,
  and keeps the invariant. After \<open>EVDATA\<close> it has taken all bytes out of the queue.
\<close>

definition handlers_ok :: "int \<Rightarrow> ('k \<Rightarrow> kview) \<Rightarrow> ('h, 'u, 'k, 'a) dispatch \<Rightarrow> bool" where
  "handlers_ok N kv hnd \<longleftrightarrow> (\<forall>h u R D w a n. a \<in> dom (channels w) \<longrightarrow>
     (a \<notin> D \<and> net_inv N kv (insert a R) D w \<longrightarrow> returns (hnd h u (EVDATA a) w) (net_inv N kv R D))
     \<and> (a \<notin> D \<and> net_inv N kv R D w \<longrightarrow> returns (hnd h u (EVSENT a n) w) (net_inv N kv R D))
     \<and> (a \<notin> D \<and> net_inv N kv R D w \<longrightarrow> returns (hnd h u (EVACCEPTED a) w) (net_inv N kv R D))
     \<and> (a \<in> D \<and> net_inv N kv R D w \<longrightarrow> returns (hnd h u (EVCLOSED a n) w) (net_inv N kv R D)))"

lemma handlers_okD:
  assumes "handlers_ok N kv hnd" and "a \<in> dom (channels w)"
  shows "a \<notin> D \<Longrightarrow> net_inv N kv (insert a R) D w \<Longrightarrow> returns (hnd h u (EVDATA a) w) (net_inv N kv R D)"
    and "a \<notin> D \<Longrightarrow> net_inv N kv R D w \<Longrightarrow> returns (hnd h u (EVSENT a n) w) (net_inv N kv R D)"
    and "a \<in> D \<Longrightarrow> net_inv N kv R D w \<Longrightarrow> returns (hnd h u (EVCLOSED a n) w) (net_inv N kv R D)"
    and "a \<notin> D \<Longrightarrow> net_inv N kv R D w \<Longrightarrow> returns (hnd h u (EVACCEPTED a) w) (net_inv N kv R D)"
  using assms unfolding handlers_ok_def by blast+

definition os_ok :: "'k os \<Rightarrow> ('k \<Rightarrow> kview) \<Rightarrow> ('k \<Rightarrow> int \<Rightarrow> byte list) \<Rightarrow> bool" where
  "os_ok os kv sent \<longleftrightarrow> os_spec os kv \<and> send_spec os sent \<and> recv_spec os"

lemma recv_specD: "recv_spec os \<Longrightarrow> aesocread os fd n k = ((r, buf), k1) \<Longrightarrow> 0 < r \<Longrightarrow> nat r = length buf \<and> length buf \<le> n"
proof -
  assume rs: "recv_spec os" and rd: "aesocread os fd n k = ((r, buf), k1)" and r: "0 < r"
  obtain r0 e b k0 where s: "sys_recv os fd n k = ((r0, e, b), k0)" by (metis surj_pair)
  have "0 < r0 \<longrightarrow> nat r0 = length b \<and> length b \<le> n"
    using rs [unfolded recv_spec_def, THEN spec [of _ fd], THEN spec [of _ n], THEN spec [of _ k]] s by simp
  then show ?thesis using rd r s by (auto simp: aesocread_def split: if_splits)
qed

lemma net_inv_mono: "net_inv N kv R D w \<Longrightarrow> R \<subseteq> S \<Longrightarrow> net_inv N kv S D w"
  unfolding net_inv_def by blast

section \<open>Closing\<close>

lemma free_inv:
  assumes inv: "net_inv N kv R (insert a D) w" and a: "channels w a = Some c" "flg c = 0" "a \<notin> D"
    and k: "fst (kv k) = fst (kv (kernel w))" "snd (kv k) = snd (kv (kernel w)) - {ch_fd c}"
  shows "net_inv N kv R D (w\<lparr>kernel := k, channels := (channels w)(a := None)\<rparr>)"
proof -
  let ?w = "w\<lparr>kernel := k, channels := (channels w)(a := None)\<rparr>"
  have so: "same_owned w ?w" by (simp add: same_owned_def)
  obtain xs where xs: "channel_ring w xs" "set xs \<inter> insert a D = {}" "dom (channels w) = set xs \<union> insert a D"
    using net_inv_memD(4) [OF inv] by blast
  have ring: "channel_ring ?w xs" by (rule ring_frame [OF xs(1)]) (use xs(2) in auto)
  show ?thesis
  proof (rule net_invI [of ?w N kv xs])
    show "(\<exists>b d. channels ?w b = Some d \<and> ch_fd d = fd) \<or> served ?w fd fe"
      if at: "event_at (evLoop ?w) fd = Some fe" and ev: "fe_mask fe \<noteq> AE_NONE" for fd fe
    proof -
      have e: "event_at (evLoop w) fd = Some fe" using at by simp
      from net_invD(4) [OF inv e ev] show ?thesis
      proof
        assume "\<exists>b d. channels w b = Some d \<and> ch_fd d = fd"
        then obtain b d where b: "channels w b = Some d" "ch_fd d = fd" by blast
        have "b \<noteq> a"
        proof
          assume "b = a"
          then have "fe_mask fe = 0" using net_invD(2) [OF inv a(1)] a b e by (simp add: chan_ok_def)
          then show False using ev by (simp add: AE_NONE_def)
        qed
        then show ?thesis using b by (intro disjI1 exI [of _ b] exI [of _ d]) simp
      next
        assume "served w fd fe"
        then show ?thesis unfolding same_owned_cong(2) [OF so] by (rule disjI2)
      qed
    qed
    show "fds_ok kv ?w"
    proof -
      have "ch_fd d \<noteq> ch_fd c" if "channels ?w b = Some d" for b d
        using net_invD(3) [OF inv, of b d a c] that a(1) by (auto split: if_splits)
      moreover have "ch_fd c \<notin> owned w" using fds_okD(4) [OF net_invD(5) [OF inv] a(1)] .
      moreover have "ch_fd d \<in> snd (kv (kernel w)) - owned w" if "channels ?w b = Some d" for b d
        using that fds_okD(3,4) [OF net_invD(5) [OF inv], of b d] by (auto split: if_splits)
      ultimately show ?thesis
        using fds_okD(1,2) [OF net_invD(5) [OF inv]] same_owned_cong(1) [OF so] acceptors_ok_cong [OF _ so] k(2)
        unfolding fds_ok_def by auto
    qed
    show "setsize (evLoop ?w) = N" using net_inv_size [OF inv] by simp
    show "ae_inv (\<lambda>k. fst (kv k)) (evLoop ?w, kernel ?w)" using net_invD(1) [OF inv] k(1) by (simp add: ae_inv_def)
    show "b = b'" if b: "channels ?w b = Some d" "channels ?w b' = Some d'" "ch_fd d = ch_fd d'" for b b' d d'
      using net_invD(3) [OF inv, of b d b' d'] b by (auto split: if_splits)
    show "chan_ok (evLoop ?w) b d" if "channels ?w b = Some d" for b d
      using net_invD(2) [OF inv, of b d] that by (auto split: if_splits)
    show "drained (inDataqueue d)" if "channels ?w b = Some d" "b \<notin> R" for b d
      using net_invD(6) [OF inv, of b d] that by (auto split: if_splits)
  qed (use xs a(3) ring net_inv_memD [OF inv] net_invD(1) [OF inv] in auto)
qed

text \<open>The end of \<^verbatim>\<open>channel_close\<close>: nothing is registered any more, so closing the descriptor changes nothing.\<close>

lemma and_not_both: "f \<in> {0, 1, 2, 3 :: u32} \<Longrightarrow> (f AND NOT FLG_RECV_ENABLED) AND NOT FLG_SEND_ENABLED = 0"
  by (auto simp: FLG_RECV_ENABLED_def FLG_SEND_ENABLED_def)

lemma unwatched: "chan_ok l a c \<Longrightarrow> flg c = 0 \<Longrightarrow> watched l (ch_fd c) = None"
  by (auto simp: chan_ok_def watched_def AE_NONE_def split: option.splits)

lemma release_inv:
  assumes os: "os_spec os kv" and inv: "net_inv N kv R (insert a D) w" and a: "channels w a = Some c" "a \<notin> D"
  shows "returns (do {
     w3 \<leftarrow> disable os FLG_RECV_ENABLED AE_READABLE a w;
     w4 \<leftarrow> disable os FLG_SEND_ENABLED AE_WRITABLE a w3;
     w5 \<leftarrow> upd_channel w4 a (\<lambda>d. d\<lparr>inDataqueue := dataqueue_remove_data (inDataqueue d) True,
                                outDataqueue := dataqueue_remove_data (outDataqueue d) True\<rparr>);
     d \<leftarrow> channels w5 a;
     let w6 = (if ch_fd d \<noteq> INVALIDFD then w5\<lparr>kernel := aesocclose os (ch_fd d) (kernel w5)\<rparr> else w5);
     Some (w6\<lparr>channels := (channels w6)(a := None)\<rparr>) }) (\<lambda>w'. net_inv N kv R D w'
       \<and> (\<forall>xs. channel_ring w xs \<and> a \<notin> set xs \<longrightarrow> channel_ring w' xs))"
proof -
  let ?c3 = "c\<lparr>flg := flg c AND NOT FLG_RECV_ENABLED\<rparr>"
  let ?c4 = "c\<lparr>flg := (flg c AND NOT FLG_RECV_ENABLED) AND NOT FLG_SEND_ENABLED\<rparr>"
  obtain w3 where w3: "disable os FLG_RECV_ENABLED AE_READABLE a w = Some w3" "net_inv N kv R (insert a D) w3"
    "channels w3 = (channels w)(a \<mapsto> ?c3)" "channelHead w3 = channelHead w"
    using disable_inv [OF os inv a(1), of FLG_RECV_ENABLED AE_READABLE] by (auto simp: flag_pair_def)
  have a3: "channels w3 a = Some ?c3" by (simp add: w3(3))
  obtain w4 where w4: "disable os FLG_SEND_ENABLED AE_WRITABLE a w3 = Some w4" "net_inv N kv R (insert a D) w4"
    "channels w4 = (channels w3)(a \<mapsto> ?c4)" "channelHead w4 = channelHead w3"
    using disable_inv [OF os w3(2) a3, of FLG_SEND_ENABLED AE_WRITABLE] by (auto simp: flag_pair_def)
  have a4: "channels w4 a = Some ?c4" by (simp add: w4(3))
  have flg: "flg ?c4 = 0" using net_invD(2) [OF inv a(1)] and_not_both by (simp add: chan_ok_def)
  let ?c5 = "?c4\<lparr>inDataqueue := dataqueue_remove_data (inDataqueue c) True,
                 outDataqueue := dataqueue_remove_data (outDataqueue c) True\<rparr>"
  let ?w5 = "w4\<lparr>channels := (channels w4)(a \<mapsto> ?c5)\<rparr>"
  have ready: "drained (dataqueue_remove_data q True)" for q
    by (simp add: drained_def dataqueue_remove_data_def)
  have inv5: "net_inv N kv R (insert a D) ?w5"
    by (rule net_inv_data [OF w4(2) a4]) (use net_invD(2) [OF inv a(1)] ready in \<open>simp_all add: chan_ok_def dq_remove_data_inv in_inv_remove_data\<close>)
  have a5: "channels ?w5 a = Some ?c5" by simp
  have valid: "ch_fd ?c5 \<noteq> INVALIDFD" using net_invD(2) [OF inv a(1)] by (auto simp: chan_ok_def INVALIDFD_def)
  let ?k = "aesocclose os (ch_fd ?c5) (kernel ?w5)"
  let ?w6 = "if ch_fd ?c5 \<noteq> INVALIDFD then ?w5\<lparr>kernel := aesocclose os (ch_fd ?c5) (kernel ?w5)\<rparr> else ?w5"
  have flg5: "flg ?c5 = 0" using flg by simp
  have "fst (kv (kernel ?w5)) (ch_fd ?c5) = None"
    using unwatched [OF net_invD(2) [OF inv5 a5] flg5] net_invD(1) [OF inv5] by (simp add: ae_inv_def)
  then have k: "fst (kv ?k) = fst (kv (kernel ?w5))" "snd (kv ?k) = snd (kv (kernel ?w5)) - {ch_fd ?c5}"
    unfolding os_specD(3) [OF os] fst_conv snd_conv by (simp_all only: fun_upd_idem)
  have "net_inv N kv R D (?w5\<lparr>kernel := ?k, channels := (channels ?w5)(a := None)\<rparr>)"
    by (rule free_inv [OF inv5 a5 flg5 a(2) k])
  moreover have "?w6 = ?w5\<lparr>kernel := ?k\<rparr>" using valid by (simp only: if_True not_False_eq_True)
  ultimately have "net_inv N kv R D (?w6\<lparr>channels := (channels ?w6)(a := None)\<rparr>)" by simp
  moreover have "channel_ring (?w6\<lparr>channels := (channels ?w6)(a := None)\<rparr>) xs" if "channel_ring w xs" "a \<notin> set xs" for xs
    by (rule ring_frame [OF that(1)]) (use that(2) w3(3,4) w4(3,4) in auto)
  ultimately show ?thesis using w3(1) w4(1) a4 by (simp add: upd_channel_def Let_def)
qed

text \<open>
  A handler may link further channels, at the head of the ring. When it removes none, a close
  takes exactly its channel out of the ring.
\<close>

definition close_keeps_ring :: "('h, 'u, 'k, 'a) dispatch \<Rightarrow> bool" where
  "close_keeps_ring hnd \<longleftrightarrow> (\<forall>h u a n w w' xs. hnd h u (EVCLOSED a n) w = Some w' \<and> channel_ring w xs \<and> a \<notin> set xs
     \<longrightarrow> (\<exists>ns. channel_ring w' (ns @ xs) \<and> a \<notin> set ns))"

lemma close_correct:
  assumes os: "os_spec os kv" and hnd: "handlers_ok N kv hnd"
    and inv: "net_inv N kv R D w" and a: "a \<in> dom (channels w)" "a \<notin> D"
  shows "returns (channel_close os hnd a e w) (\<lambda>w'. net_inv N kv R D w'
    \<and> (\<forall>xs. close_keeps_ring hnd \<and> channel_ring w xs \<and> a \<in> set xs \<longrightarrow> (\<exists>ns. channel_ring w' (ns @ remove1 a xs))))"
proof -
  obtain c where c: "channels w a = Some c" using a(1) by blast
  obtain w1 where w1: "unlink_channel a w = Some w1" "net_inv N kv R (insert a D) w1" "relinked w w1"
    using unlink_inv [OF inv a] by blast
  have a1: "a \<in> dom (channels w1)" using relinked_dom [OF w1(3)] a(1) by simp
  let ?h = "case ch_handler c of None \<Rightarrow> Some w1 | Some h \<Rightarrow> hnd h (ch_pUsr c) (EVCLOSED a e) w1"
  have "returns ?h (net_inv N kv R (insert a D))"
    using w1(2) handlers_okD(3) [OF hnd a1, of "insert a D" R] by (auto split: option.split)
  then obtain w2 where w2: "?h = Some w2" "net_inv N kv R (insert a D) w2"
    by (auto simp: returns_def)
  obtain xs where "dom (channels w2) = set xs \<union> insert a D" using net_inv_memD(4) [OF w2(2)] by blast
  then obtain c2 where c2: "channels w2 a = Some c2" by blast
  obtain w' where w': "channel_close os hnd a e w = Some w'" "net_inv N kv R D w'"
    and rest: "\<And>xs. channel_ring w2 xs \<Longrightarrow> a \<notin> set xs \<Longrightarrow> channel_ring w' xs"
    using release_inv [OF os w2(2) c2 a(2)] c w1(1) w2(1) by (auto simp: channel_close_def returns_def)
  have "\<exists>ns. channel_ring w' (ns @ remove1 a xs)"
    if k: "close_keeps_ring hnd" and r: "channel_ring w xs" and m: "a \<in> set xs" for xs
  proof -
    have "channel_ring w1 (remove1 a xs)" using unlink_correct [OF r m] w1(1) by auto
    have "a \<notin> set (remove1 a xs)" using r by (simp add: channel_ring_def ring_def)
    note calculation = this \<open>channel_ring w1 (remove1 a xs)\<close>
    obtain ns where "channel_ring w2 (ns @ remove1 a xs)" "a \<notin> set (ns @ remove1 a xs)"
    proof (cases "ch_handler c")
      case None
      then show thesis using that [of "[]"] calculation w2(1) by simp
    next
      case (Some h)
      then have "hnd h (ch_pUsr c) (EVCLOSED a e) w1 = Some w2" using w2(1) by simp
      then show thesis using that calculation k unfolding close_keeps_ring_def by (metis Un_iff set_append)
    qed
    then show ?thesis using rest by blast
  qed
  then show ?thesis using w' by auto
qed

lemma close_inv:
  assumes "os_spec os kv" and "handlers_ok N kv hnd"
    and "net_inv N kv R D w" and "a \<in> dom (channels w)" and "a \<notin> D"
  shows "returns (channel_close os hnd a e w) (net_inv N kv R D)"
  using close_correct [OF assms] by (rule returns_mono) simp

section \<open>Connecting\<close>

text \<open>A channel whose handler has been assigned.\<close>

definition bound :: "('h, 'u, 'k, 'a) libnet \<Rightarrow> nat \<Rightarrow> bool" where
  "bound w a \<longleftrightarrow> (\<exists>c. channels w a = Some c \<and> ch_handler c \<noteq> None)"

lemma bound_dom: "bound w a \<Longrightarrow> a \<in> dom (channels w)"
  by (auto simp: bound_def)

lemma handshake_inv:
  assumes os: "os_spec os kv" and hnd: "handlers_ok N kv hnd"
    and inv: "net_inv N kv R D w" and a: "channels w a = Some c" "ch_handler c \<noteq> None" "a \<notin> D"
  shows "returns (channel_handshake os hnd a w) (\<lambda>(ok, w'). net_inv N kv R D w'
    \<and> (ok \<longrightarrow> (\<exists>f. channels w' a = Some (c\<lparr>flg := f, connected := True\<rparr>))))"
proof (cases "upstream c \<and> flg c AND FLG_RECV_ENABLED = 0")
  case False
  let ?w = "w\<lparr>channels := (channels w)(a \<mapsto> c\<lparr>connected := True\<rparr>)\<rparr>"
  have same: "c\<lparr>connected := True\<rparr> = c\<lparr>flg := flg c, connected := True\<rparr>" by simp
  have "net_inv N kv R D ?w"
    by (rule net_inv_data [OF inv a(1)]) (use net_invD(2,6) [OF inv a(1)] in \<open>simp_all add: chan_ok_def\<close>)
  moreover have "channel_handshake os hnd a w = Some (True, ?w)"
    using False a(1) by (auto simp: channel_handshake_def upd_channel_def)
  moreover have "\<exists>f. channels ?w a = Some (c\<lparr>flg := f, connected := True\<rparr>)"
    using same by (intro exI [of _ "flg c"]) simp
  ultimately show ?thesis by simp
next
  case True
  obtain r w1 where add: "add_event os (ch_fd c) AE_READABLE Read_Callback a w = Some (r, w1)"
    "channels w1 = channels w" "r \<noteq> 0 \<longrightarrow> net_inv N kv R D w1"
    "r = 0 \<longrightarrow> (\<forall>c'. ch_fd c' = ch_fd c \<and> ch_next c' = ch_next c \<and> ch_prev c' = ch_prev c
        \<and> flg c' = flg c OR FLG_RECV_ENABLED \<and> ch_handler c' \<noteq> None \<and> in_inv (inDataqueue c')
        \<and> dq_inv (outDataqueue c') \<and> (a \<notin> R \<longrightarrow> drained (inDataqueue c'))
        \<longrightarrow> net_inv N kv R D (w1\<lparr>channels := (channels w)(a \<mapsto> c')\<rparr>))"
    using enable_inv [OF os inv a(1), of FLG_RECV_ENABLED AE_READABLE Read_Callback] by (auto simp: flag_pair_def)
  show ?thesis
  proof (cases "r = 0")
    case bad: False
    have "a \<in> dom (channels w1)" using add(2) a(1) by auto
    then obtain w2 where "channel_close os hnd a (-1) w1 = Some w2" "net_inv N kv R D w2"
      using close_inv [OF os hnd _ _ a(3), of R w1 "-1"] add(3) bad by (auto simp: returns_def)
    then show ?thesis using True add(1) bad a(1) by (simp add: channel_handshake_def)
  next
    case good: True
    let ?c = "c\<lparr>flg := flg c OR FLG_RECV_ENABLED, connected := True\<rparr>"
    let ?w = "w1\<lparr>channels := (channels w)(a \<mapsto> ?c)\<rparr>"
    have "net_inv N kv R D ?w"
      using add(4) good a(2) net_invD(2,6) [OF inv a(1)] by (simp add: chan_ok_def)
    moreover have "channel_handshake os hnd a w = Some (True, ?w)"
      using True add(1,2) good a(1) by (simp add: channel_handshake_def upd_channel_def)
    ultimately show ?thesis by auto
  qed
qed

section \<open>Reading\<close>

text \<open>
  An insertion makes the buffer grow only when it would not fit from the insert position on: from
  an empty queue to at most three times \<open>BUFF_LEN\<close>.
\<close>

lemma dq_store_buffer: "dq_store q bs = Some q' \<Longrightarrow> bufferSize q' = bufferSize q"
  by (auto simp: dq_store_def Let_def Option.bind_eq_Some_conv)

lemma dq_grow_buffer: "dq_grow q n = Some q' \<Longrightarrow> bufferSize q' = bufferSize q + max (bufferSize q div 2) n"
  by (auto simp: dq_grow_def Let_def Option.bind_eq_Some_conv)

lemma dq_insert_buffer:
  assumes "dataqueue_insert_data q bs = Some q'"
  defines "n \<equiv> word_of_nat (length bs) :: u32"
  shows "bufferSize q' = (if fst (dq_probe q n) then bufferSize q + max (bufferSize q div 2) n else bufferSize q)"
proof -
  have "bufferSize (snd (dq_probe q n)) = bufferSize q" by (simp add: dq_probe_def)
  moreover obtain b q1 where "dq_probe q n = (b, q1)" by fastforce
  ultimately show ?thesis
    using assms(1) dq_store_buffer dq_grow_buffer unfolding n_def
    by (fastforce simp: dataqueue_insert_data_def Let_def Option.bind_eq_Some_conv split: if_splits)
qed

lemma read_insert:
  assumes inv: "in_inv q" and empty: "drained q" and len: "length buf \<le> BUFF_LEN"
  shows "\<exists>q'. dataqueue_insert_data q buf = Some q' \<and> in_inv q' \<and> dq_contents q' = buf"
proof -
  let ?n = "word_of_nat (length buf) :: u32"
  have q: "dq_inv q" "unat (bufferSize q) \<le> 98304" "dataSize q = 0"
    using inv empty by (simp_all add: in_inv_def BUFF_LEN_def drained_def)
  have n: "unat ?n = length buf" "length buf \<le> 32768" using len by (simp_all add: BUFF_LEN_def)
  have "dq_insert_ok q (length buf)"
    using q n(2) by (auto simp: dq_insert_ok_def dq_room_def dq_aliased_def)
  then obtain q' where q': "dataqueue_insert_data q buf = Some q'" "dq_inv q'" "dq_contents q' = dq_contents q @ buf"
    using dq_insert_refines_append [OF q(1)] by blast
  have "unat (bufferSize q') \<le> 98304"
  proof (cases "fst (dq_probe q ?n)")
    case True
    have lin: "insertPos q = terminalPos q" "queryPos q = terminalPos q"
      using q(1,3) by (auto simp: dq_defs nat_words)
    have "terminalPos q \<le> bufferSize q" using q(1) by (simp add: dq_inv_def)
    then have sum: "unat (terminalPos q + ?n) = unat (terminalPos q) + length buf"
      using q(2) n by (subst unat_add_small) (auto simp: nat_words)
    have "bufferSize q < ?n \<or> bufferSize q < terminalPos q + ?n \<and> terminalPos q < ?n"
      using True unfolding dq_probe_def lin q(3) by (auto simp: not_le split: if_splits)
    then have "unat (bufferSize q) < 65536"
      using n sum by (auto simp: word_less_nat_alt)
    then show ?thesis
      using dq_insert_buffer [OF q'(1)] True n by (subst dq_insert_buffer [OF q'(1)]) (auto simp: unat_add_small unat_max unat_half)
  qed (use dq_insert_buffer [OF q'(1)] q(2) in simp)
  moreover have "dq_contents q = []" using dq_length_contents [OF q(1)] q(3) by simp
  ultimately show ?thesis using q' by (simp add: in_inv_def BUFF_LEN_def)
qed

lemma read_data_inv:
  assumes os: "os_ok os kv sent" and hnd: "handlers_ok N kv hnd"
    and inv: "net_inv N kv R D w" and a: "channels w a = Some d" "a \<notin> D" "a \<notin> R" and h: "ch_handler c \<noteq> None"
    and hd: "ch_handler d \<noteq> None"
  shows "returns (read_data os hnd a c w) (net_inv N kv R D)"
proof -
  have spec: "os_spec os kv" "recv_spec os" using os by (simp_all add: os_ok_def)
  obtain r buf k1 where rd: "aesocread os (ch_fd c) BUFF_LEN (kernel w) = ((r, buf), k1)" by (metis surj_pair)
  let ?w2 = "w\<lparr>kernel := k1\<rparr>"
  have inv2: "net_inv N kv R D ?w2" by (rule net_inv_kernel [OF inv os_quietD(2) [OF spec(1) rd]])
  show ?thesis
  proof (cases "r \<le> 0")
    case True
    have "a \<in> dom (channels ?w2)" using a(1) by auto
    then have "returns (channel_close os hnd a (-1) ?w2) (net_inv N kv R D)"
      by (rule close_inv [OF spec(1) hnd inv2 _ a(2)])
    then show ?thesis using True rd by (simp add: read_data_def)
  next
    case False
    obtain now k2 where tm: "unix_time os k1 = (now, k2)" by fastforce
    let ?w3 = "w\<lparr>kernel := k2\<rparr>"
    have "kv k2 = kv k1" by (rule os_quietD(1) [OF spec(1) tm])
    then have inv3: "net_inv N kv R D ?w3" using net_inv_kernel [OF inv2, of k2] by simp
    have "length buf \<le> BUFF_LEN" using recv_specD [OF spec(2) rd] False by simp
    then obtain q where q: "dataqueue_insert_data (inDataqueue d) buf = Some q" "in_inv q"
      using read_insert net_invD(2,6) [OF inv a(1)] a(3) by (auto simp: chan_ok_def)
    let ?d = "d\<lparr>lastinteraction := now, inDataqueue := q\<rparr>"
    let ?w4 = "?w3\<lparr>channels := (channels ?w3)(a \<mapsto> ?d)\<rparr>"
    have a3: "channels ?w3 a = Some d" using a(1) by simp
    have "net_inv N kv (insert a R) D ?w4"
      by (rule net_inv_data [OF net_inv_mono [OF inv3] a3])
        (use q(2) net_invD(2) [OF inv a(1)] in \<open>auto simp: chan_ok_def\<close>)
    moreover have "a \<in> dom (channels ?w4)" by simp
    moreover obtain f where f: "ch_handler c = Some f" using h by auto
    ultimately have "returns (hnd f (ch_pUsr c) (EVDATA a) ?w4) (net_inv N kv R D)"
      using handlers_okD(1) [OF hnd] a(2) by blast
    then show ?thesis using False rd tm a(1) q(1) f by (simp add: read_data_def upd_channel_def call_handler_def)
  qed
qed

lemma read_callback_inv:
  assumes os: "os_ok os kv sent" and hnd: "handlers_ok N kv hnd"
    and inv: "net_inv N kv R D w" and a: "bound w a" "a \<notin> D" "a \<notin> R"
  shows "returns (read_callback os hnd a w) (net_inv N kv R D)"
proof -
  have spec: "os_spec os kv" using os by (simp add: os_ok_def)
  obtain c where c: "channels w a = Some c" "ch_handler c \<noteq> None" using a(1) by (auto simp: bound_def)
  show ?thesis
  proof (cases "connected c \<or> upstream c")
    case True
    then show ?thesis using read_data_inv [OF os hnd inv c(1) a(2,3) c(2) c(2)] c(1) inv
      by (auto simp: read_callback_def)
  next
    case False
    obtain ok w1 where hs: "channel_handshake os hnd a w = Some (ok, w1)" "net_inv N kv R D w1"
      "ok \<longrightarrow> (\<exists>f. channels w1 a = Some (c\<lparr>flg := f, connected := True\<rparr>))"
      using handshake_inv [OF spec hnd inv c a(2)] by (auto simp: returns_def)
    show ?thesis
    proof (cases ok)
      case True
      then obtain f where "channels w1 a = Some (c\<lparr>flg := f, connected := True\<rparr>)" using hs(3) by blast
      then have "returns (read_data os hnd a c w1) (net_inv N kv R D)"
        by (rule read_data_inv [OF os hnd hs(2) _ a(2,3) c(2)]) (use c(2) in simp)
      then show ?thesis using False True c(1) hs(1) by (simp add: read_callback_def)
    qed (use False c(1) hs in \<open>simp add: read_callback_def\<close>)
  qed
qed

end
