(* ===== verification/Channel_Operations.thy ===== *)
theory Channel_Operations
  imports Channel_Safety
begin

text \<open>
  Writing, binding, sending and the check of the time-outs keep the invariant of the library's
  state.
\<close>

section \<open>Writing\<close>

text \<open>A chunk that was written is taken out of the queue.\<close>

lemma peek_distill:
  assumes inv: "dq_inv q" and D: "0 < dataSize q"
  obtains q1 chunk where "dq_peek q = Some (q1, chunk)" "dq_inv q1" "chunk \<noteq> []" "prefix chunk (dq_contents q)"
    "dq_contents q1 = dq_contents q" "dataSize q1 = dataSize q"
    "\<And>r. 0 < r \<Longrightarrow> nat r \<le> length chunk \<Longrightarrow> dq_inv (dataqueue_distill_data q1 (word_of_int r))
       \<and> dq_contents (dataqueue_distill_data q1 (word_of_int r)) = drop (nat r) (dq_contents q)"
proof -
  have D0: "dataSize q \<noteq> 0" using D by auto
  have ne: "dq_contents q \<noteq> []" using dq_length_contents [OF inv] D0 by (auto simp: nat_words)
  obtain chunk where c: "dq_peek q = Some (dq_rewind q, chunk)" "chunk \<noteq> []" "prefix chunk (dq_contents q)"
    "length chunk = unat (terminalPos (dq_rewind q)) - unat (queryPos (dq_rewind q))"
    using dq_peek_chunk [OF inv ne] by blast
  have short: "length chunk < 2 ^ 32" using c(4) unat_u32_less [of "terminalPos (dq_rewind q)"] by linarith
  have "dq_inv (dataqueue_distill_data (dq_rewind q) (word_of_int r))
       \<and> dq_contents (dataqueue_distill_data (dq_rewind q) (word_of_int r)) = drop (nat r) (dq_contents q)"
    if r: "0 < r" "nat r \<le> length chunk" for r
  proof -
    have "word_of_int r = (word_of_nat (nat r) :: u32)" by (rule of_nat_nat [symmetric]) (use r in simp)
    then have u: "unat (word_of_int r :: u32) = nat r"
      using unat_u32_of_nat [of "nat r"] r(2) short by (metis le_less_trans)
    show ?thesis
      using dq_distill_peeked [OF dq_rewind_inv [OF inv D0] _ dq_rewind_idem [OF inv D0], of "word_of_int r"]
        dq_rewind_contents [OF inv D0] D0 r(2) c(4) u by simp
  qed
  then show thesis
    using that [OF c(1) dq_rewind_inv [OF inv D0] c(2,3) dq_rewind_contents [OF inv D0]] by simp
qed

text \<open>The write half of \<^verbatim>\<open>_write_callback\<close> with something to write, in both outcomes.\<close>

lemma write_out_chunk:
  assumes ss: "send_spec os sent" and a: "channels w a = Some c" and inv: "dq_inv (outDataqueue c)"
    and D: "0 < dataSize (outDataqueue c)"
  obtains q chunk r k1 where "dq_inv q" "chunk \<noteq> []" "prefix chunk (dq_contents (outDataqueue c))"
    "aesocwrite os (ch_fd c) chunk (kernel w) = (r, k1)"
    "r \<le> 0 \<Longrightarrow> write_out os hnd a w = do { w2 \<leftarrow> channel_close os hnd a (-1)
         (w\<lparr>kernel := k1, channels := (channels w)(a \<mapsto> c\<lparr>outDataqueue := q\<rparr>)\<rparr>); Some (False, r, w2) }"
    "0 < r \<Longrightarrow> \<exists>now k2 q'. unix_time os k1 = (now, k2)
       \<and> write_out os hnd a w = Some (True, r, w\<lparr>kernel := k2,
           channels := (channels w)(a \<mapsto> c\<lparr>lastinteraction := now, outDataqueue := q'\<rparr>)\<rparr>)
       \<and> dq_inv q' \<and> dq_contents q' = drop (nat r) (dq_contents (outDataqueue c)) \<and> nat r \<le> length chunk"
proof -
  obtain q chunk where q: "dq_peek (outDataqueue c) = Some (q, chunk)" "dq_inv q" "chunk \<noteq> []"
    "prefix chunk (dq_contents (outDataqueue c))"
    and distill: "\<And>r. 0 < r \<Longrightarrow> nat r \<le> length chunk \<Longrightarrow> dq_inv (dataqueue_distill_data q (word_of_int r))
       \<and> dq_contents (dataqueue_distill_data q (word_of_int r)) = drop (nat r) (dq_contents (outDataqueue c))"
    by (rule peek_distill [OF inv D]) blast
  obtain r k1 where wr: "aesocwrite os (ch_fd c) chunk (kernel w) = (r, k1)" by fastforce
  obtain now k2 where tm: "unix_time os k1 = (now, k2)" by fastforce
  have "\<exists>now k2 q'. unix_time os k1 = (now, k2)
       \<and> write_out os hnd a w = Some (True, r, w\<lparr>kernel := k2,
           channels := (channels w)(a \<mapsto> c\<lparr>lastinteraction := now, outDataqueue := q'\<rparr>)\<rparr>)
       \<and> dq_inv q' \<and> dq_contents q' = drop (nat r) (dq_contents (outDataqueue c)) \<and> nat r \<le> length chunk"
    if r: "0 < r"
  proof -
    have len: "nat r \<le> length chunk" using aesocwrite_correct(1) [OF ss wr r] by simp
    have "write_out os hnd a w = Some (True, r, w\<lparr>kernel := k2, channels := (channels w)(a \<mapsto>
        c\<lparr>lastinteraction := now, outDataqueue := dataqueue_distill_data q (word_of_int r)\<rparr>)\<rparr>)"
      using D r a q(1) wr tm by (simp add: write_out_def upd_channel_def)
    then show ?thesis using tm distill [OF r len] len by blast
  qed
  moreover have "write_out os hnd a w = do { w2 \<leftarrow> channel_close os hnd a (-1)
         (w\<lparr>kernel := k1, channels := (channels w)(a \<mapsto> c\<lparr>outDataqueue := q\<rparr>)\<rparr>); Some (False, r, w2) }" if "r \<le> 0"
    using D that a q(1) wr by (simp add: write_out_def upd_channel_def)
  ultimately show thesis using that [OF q(2-4) wr] by blast
qed

lemma write_out_inv:
  assumes os: "os_ok os kv sent" and hnd: "handlers_ok N kv hnd"
    and inv: "net_inv N kv R D w" and a: "channels w a = Some c" "a \<notin> D"
  shows "returns (write_out os hnd a w) (\<lambda>(alive, r, w'). net_inv N kv R D w'
    \<and> (alive \<longrightarrow> (\<exists>q t. channels w' a = Some (c\<lparr>lastinteraction := t, outDataqueue := q\<rparr>))))"
proof (cases "0 < dataSize (outDataqueue c)")
  case False
  have "c = c\<lparr>lastinteraction := lastinteraction c, outDataqueue := outDataqueue c\<rparr>" by simp
  then have "\<exists>q t. channels w a = Some (c\<lparr>lastinteraction := t, outDataqueue := q\<rparr>)" using a(1) by metis
  then show ?thesis using False a(1) inv by (simp add: write_out_def)
next
  case True
  have spec: "os_spec os kv" "send_spec os sent" using os by (simp_all add: os_ok_def)
  have ok: "dq_inv (outDataqueue c)" "in_inv (inDataqueue c)" using net_invD(2) [OF inv a(1)] by (simp_all add: chan_ok_def)
  obtain q chunk r k1 where q: "dq_inv q" and wr: "aesocwrite os (ch_fd c) chunk (kernel w) = (r, k1)"
    and bad: "r \<le> 0 \<Longrightarrow> write_out os hnd a w = do { w2 \<leftarrow> channel_close os hnd a (-1)
         (w\<lparr>kernel := k1, channels := (channels w)(a \<mapsto> c\<lparr>outDataqueue := q\<rparr>)\<rparr>); Some (False, r, w2) }"
    and good: "0 < r \<Longrightarrow> \<exists>now k2 q'. unix_time os k1 = (now, k2)
       \<and> write_out os hnd a w = Some (True, r, w\<lparr>kernel := k2,
           channels := (channels w)(a \<mapsto> c\<lparr>lastinteraction := now, outDataqueue := q'\<rparr>)\<rparr>)
       \<and> dq_inv q' \<and> dq_contents q' = drop (nat r) (dq_contents (outDataqueue c)) \<and> nat r \<le> length chunk"
    by (rule write_out_chunk [OF spec(2) a(1) ok(1) True, where hnd = hnd]) blast
  have upd: "net_inv N kv R D (w\<lparr>kernel := k2, channels := (channels w)(a \<mapsto> c\<lparr>lastinteraction := t, outDataqueue := q'\<rparr>)\<rparr>)"
    if "kv k2 = kv (kernel w)" "dq_inv q'" for k2 t q'
    using net_inv_data [OF net_inv_kernel [OF inv that(1)], of a c "c\<lparr>lastinteraction := t, outDataqueue := q'\<rparr>"]
      a(1) ok that(2) net_invD(6) [OF inv a(1)] by simp
  have k1: "kv k1 = kv (kernel w)" by (rule os_quietD(3) [OF spec(1) wr])
  show ?thesis
  proof (cases "r \<le> 0")
    case True
    have "net_inv N kv R D (w\<lparr>kernel := k1, channels := (channels w)(a \<mapsto> c\<lparr>outDataqueue := q\<rparr>)\<rparr>)"
      using upd [OF k1 q, of "lastinteraction c"] by simp
    from close_inv [OF spec(1) hnd this _ a(2), of "-1"] show ?thesis using bad [OF True] by (auto simp: returns_def)
  next
    case False
    then obtain now k2 q' where tm: "unix_time os k1 = (now, k2)" and w2: "write_out os hnd a w = Some (True, r, w\<lparr>kernel := k2,
           channels := (channels w)(a \<mapsto> c\<lparr>lastinteraction := now, outDataqueue := q'\<rparr>)\<rparr>)" "dq_inv q'"
      using good by auto
    have "kv k2 = kv (kernel w)" using os_quietD(1) [OF spec(1) tm] k1 by simp
    then show ?thesis using upd [OF _ w2(2)] w2(1) by auto
  qed
qed

lemma write_done_inv:
  assumes os: "os_spec os kv" and hnd: "handlers_ok N kv hnd"
    and inv: "net_inv N kv R D w" and a: "a \<in> dom (channels w)" "a \<notin> D" and h: "ch_handler c = Some f"
  shows "returns (write_done os hnd a c r w) (net_inv N kv R D)"
proof -
  obtain d where d: "channels w a = Some d" using a(1) by blast
  let ?m = "if dataSize (outDataqueue d) = 0 then disable os FLG_SEND_ENABLED AE_WRITABLE a w else Some w"
  obtain w3 where w3: "?m = Some w3" "net_inv N kv R D w3" "a \<in> dom (channels w3)"
    using disable_inv [OF os inv d, of FLG_SEND_ENABLED AE_WRITABLE] inv a(1)
    by (cases "dataSize (outDataqueue d) = 0") (auto simp: flag_pair_def)
  then show ?thesis
    using handlers_okD(2) [OF hnd w3(3) a(2) w3(2), of f "ch_pUsr c" r] d h by (simp add: write_done_def call_handler_def)
qed

lemma write_data_inv:
  assumes os: "os_ok os kv sent" and hnd: "handlers_ok N kv hnd"
    and inv: "net_inv N kv R D w" and a: "a \<in> dom (channels w)" "a \<notin> D" and h: "ch_handler c = Some f"
  shows "returns (write_data os hnd a c w) (net_inv N kv R D)"
proof -
  have spec: "os_spec os kv" using os by (simp add: os_ok_def)
  obtain d where d: "channels w a = Some d" using a(1) by blast
  obtain alive r w2 where wo: "write_out os hnd a w = Some (alive, r, w2)" "net_inv N kv R D w2"
    "alive \<longrightarrow> a \<in> dom (channels w2)"
    using write_out_inv [OF os hnd inv d a(2)] by (auto simp: returns_def)
  then show ?thesis
    using write_done_inv [OF spec hnd wo(2) _ a(2) h, of r] by (cases alive) (simp_all add: write_data_def)
qed

lemma write_callback_inv:
  assumes os: "os_ok os kv sent" and hnd: "handlers_ok N kv hnd"
    and inv: "net_inv N kv R D w" and a: "bound w a" "a \<notin> D"
  shows "returns (write_callback os hnd a w) (net_inv N kv R D)"
proof -
  have spec: "os_spec os kv" using os by (simp add: os_ok_def)
  obtain c f where c: "channels w a = Some c" "ch_handler c = Some f" using a(1) by (auto simp: bound_def)
  let ?hs = "if connected c then Some (True, w)
             else if upstream c then channel_handshake os hnd a w else Some (False, w)"
  have "returns ?hs (\<lambda>(ok, w1). net_inv N kv R D w1 \<and> (ok \<longrightarrow> a \<in> dom (channels w1)))"
    using handshake_inv [OF spec hnd inv c(1) _ a(2)] c inv by (auto elim!: returns_mono)
  then obtain ok w1 where hs: "?hs = Some (ok, w1)" "net_inv N kv R D w1" "ok \<longrightarrow> a \<in> dom (channels w1)"
    unfolding returns_def by blast
  show ?thesis
    using write_data_inv [OF os hnd hs(2) _ a(2) c(2)] hs c(1) by (cases ok) (simp_all add: write_callback_def)
qed

section \<open>Binding and sending\<close>

lemma bind_enable_inv:
  assumes os: "os_spec os kv" and inv: "net_inv N kv R D w" and a: "channels w a = Some c"
    and fl: "flag_pair fl msk" and p: "p = (if fl = FLG_RECV_ENABLED then Read_Callback else Write_Callback)"
  shows "\<exists>r w1. add_event os (ch_fd c) msk p a w = Some (r, w1) \<and> channels w1 = channels w
    \<and> (r \<noteq> 0 \<longrightarrow> net_inv N kv R D w1)
    \<and> (r = 0 \<longrightarrow> (\<forall>k1 h t u n. kv k1 = kv (kernel w1) \<longrightarrow> net_inv N kv R D (w1\<lparr>kernel := k1,
          channels := (channels w)(a \<mapsto> c\<lparr>flg := flg c OR fl, ch_handler := Some h, timeouts := t,
            ch_pUsr := u, lastinteraction := n\<rparr>)\<rparr>)))"
proof -
  obtain r w1 where add: "add_event os (ch_fd c) msk p a w = Some (r, w1)" "channels w1 = channels w"
    "r \<noteq> 0 \<longrightarrow> net_inv N kv R D w1"
    "r = 0 \<longrightarrow> (\<forall>c'. ch_fd c' = ch_fd c \<and> ch_next c' = ch_next c \<and> ch_prev c' = ch_prev c
        \<and> flg c' = flg c OR fl \<and> ch_handler c' \<noteq> None \<and> in_inv (inDataqueue c')
        \<and> dq_inv (outDataqueue c') \<and> (a \<notin> R \<longrightarrow> drained (inDataqueue c'))
        \<longrightarrow> net_inv N kv R D (w1\<lparr>channels := (channels w)(a \<mapsto> c')\<rparr>))"
    using enable_inv [OF os inv a fl p] by auto
  have "net_inv N kv R D (w1\<lparr>kernel := k1, channels := (channels w)(a \<mapsto> c')\<rparr>)"
    if r: "r = 0" "kv k1 = kv (kernel w1)" and c': "c' = c\<lparr>flg := flg c OR fl, ch_handler := Some h,
        timeouts := t, ch_pUsr := u, lastinteraction := n\<rparr>" for k1 h t u n c'
  proof -
    have "net_inv N kv R D (w1\<lparr>channels := (channels w)(a \<mapsto> c')\<rparr>)"
      using add(4) r(1) c' net_invD(2,6) [OF inv a] by (simp add: chan_ok_def)
    then have "net_inv N kv R D (w1\<lparr>channels := (channels w)(a \<mapsto> c')\<rparr>\<lparr>kernel := k1\<rparr>)"
      by (rule net_inv_kernel) (use r(2) in simp)
    moreover have "w1\<lparr>kernel := k1, channels := m\<rparr> = w1\<lparr>channels := m\<rparr>\<lparr>kernel := k1\<rparr>" for m
      by (cases w1) simp
    ultimately show ?thesis by metis
  qed
  note bound_now = this
  show ?thesis
  proof (intro exI [of _ r] exI [of _ w1] conjI impI allI)
    fix k1 h t u n assume "r = 0" "kv k1 = kv (kernel w1)"
    then show "net_inv N kv R D (w1\<lparr>kernel := k1, channels := (channels w)(a \<mapsto> c\<lparr>flg := flg c OR fl,
        ch_handler := Some h, timeouts := t, ch_pUsr := u, lastinteraction := n\<rparr>)\<rparr>)"
      by (rule bound_now) (rule refl)
  qed (use add(1-3) in simp_all)
qed

lemma bind_inv:
  assumes os: "os_spec os kv" and inv: "net_inv N kv R D w" and a: "a \<in> dom (channels w)"
  shows "returns (channel_bind os a h tmo usr w) (\<lambda>(ok, w'). net_inv N kv R D w' \<and> dom (channels w') = dom (channels w)
    \<and> (ok \<longrightarrow> bound w' a))"
proof -
  obtain c where c: "channels w a = Some c" using a by blast
  show ?thesis
  proof (cases "upstream c")
    case False
    obtain r w1 where add: "add_event os (ch_fd c) AE_READABLE Read_Callback a w = Some (r, w1)" "channels w1 = channels w"
      "r \<noteq> 0 \<longrightarrow> net_inv N kv R D w1"
      "r = 0 \<longrightarrow> (\<forall>k1 h t u n. kv k1 = kv (kernel w1) \<longrightarrow> net_inv N kv R D (w1\<lparr>kernel := k1,
          channels := (channels w)(a \<mapsto> c\<lparr>flg := flg c OR FLG_RECV_ENABLED, ch_handler := Some h, timeouts := t,
            ch_pUsr := u, lastinteraction := n\<rparr>)\<rparr>))"
      using bind_enable_inv [OF os inv c, of FLG_RECV_ENABLED AE_READABLE Read_Callback] by (auto simp: flag_pair_def)
    obtain now k1 where tm: "unix_time os (kernel w1) = (now, k1)" by fastforce
    then show ?thesis using False c add os_quietD(1) [OF os tm]
      by (cases "r = 0") (auto simp: channel_bind_def upd_channel_def bound_def)
  next
    case True
    obtain r0 k0 where con: "aesocconnect os (ch_fd c) (ipStr c) (ch_port c) (kernel w) = (r0, k0)" by fastforce
    let ?w0 = "w\<lparr>kernel := k0\<rparr>"
    have inv0: "net_inv N kv R D ?w0" by (rule net_inv_kernel [OF inv os_quietD(4) [OF os con]])
    have c0: "channels ?w0 a = Some c" using c by simp
    obtain r w1 where add: "add_event os (ch_fd c) AE_WRITABLE Write_Callback a ?w0 = Some (r, w1)" "channels w1 = channels ?w0"
      "r \<noteq> 0 \<longrightarrow> net_inv N kv R D w1"
      "r = 0 \<longrightarrow> (\<forall>k1 h t u n. kv k1 = kv (kernel w1) \<longrightarrow> net_inv N kv R D (w1\<lparr>kernel := k1,
          channels := (channels ?w0)(a \<mapsto> c\<lparr>flg := flg c OR FLG_SEND_ENABLED, ch_handler := Some h, timeouts := t,
            ch_pUsr := u, lastinteraction := n\<rparr>)\<rparr>))"
      using bind_enable_inv [OF os inv0 c0, of FLG_SEND_ENABLED AE_WRITABLE Write_Callback]
      by (auto simp: flag_pair_def flag_values)
    obtain now k1 where tm: "unix_time os (kernel w1) = (now, k1)" by fastforce
    show ?thesis
    proof (cases "r0 = 0")
      case ok: True
      then show ?thesis using True c add os_quietD(1) [OF os tm] con tm
        by (cases "r = 0") (auto simp: channel_bind_def upd_channel_def bound_def)
    qed (use True c con inv0 in \<open>auto simp: channel_bind_def\<close>)
  qed
qed

lemma send_inv:
  assumes os: "os_spec os kv" and inv: "net_inv N kv R D w" and a: "channels w a = Some c" "ch_handler c \<noteq> None"
    and room: "dq_insert_ok (outDataqueue c) (length data)"
  shows "returns (channel_send os a data w) (\<lambda>(ok, w'). net_inv N kv R D w' \<and> dom (channels w') = dom (channels w)
    \<and> (\<exists>c'. channels w' a = Some c' \<and> dq_contents (outDataqueue c') = dq_contents (outDataqueue c) @ data
        \<and> (ok \<longrightarrow> flag_set (flg c') FLG_SEND_ENABLED)))"
proof -
  have ok: "dq_inv (outDataqueue c)" "in_inv (inDataqueue c)" "flg c \<in> {0, 1, 2, 3}"
    using net_invD(2) [OF inv a(1)] by (simp_all add: chan_ok_def)
  obtain q where q: "dataqueue_insert_data (outDataqueue c) data = Some q" "dq_inv q"
    "dq_contents q = dq_contents (outDataqueue c) @ data"
    using dq_insert_refines_append [OF ok(1) room] by blast
  let ?c = "c\<lparr>outDataqueue := q\<rparr>"
  let ?w1 = "w\<lparr>channels := (channels w)(a \<mapsto> ?c)\<rparr>"
  have inv1: "net_inv N kv R D ?w1"
    by (rule net_inv_data [OF inv a(1)]) (use ok q(2) net_invD(6) [OF inv a(1)] in simp_all)
  show ?thesis
  proof (cases "flag_set (flg c) FLG_SEND_ENABLED")
    case True
    then show ?thesis using a(1) q inv1 by (auto simp: channel_send_def upd_channel_def)
  next
    case False
    have c1: "channels ?w1 a = Some ?c" by simp
    obtain r w2 where add: "add_event os (ch_fd ?c) AE_WRITABLE Write_Callback a ?w1 = Some (r, w2)" "channels w2 = channels ?w1"
      "r \<noteq> 0 \<longrightarrow> net_inv N kv R D w2"
      "r = 0 \<longrightarrow> (\<forall>c'. ch_fd c' = ch_fd ?c \<and> ch_next c' = ch_next ?c \<and> ch_prev c' = ch_prev ?c
        \<and> flg c' = flg ?c OR FLG_SEND_ENABLED \<and> ch_handler c' \<noteq> None \<and> in_inv (inDataqueue c')
        \<and> dq_inv (outDataqueue c') \<and> (a \<notin> R \<longrightarrow> drained (inDataqueue c'))
        \<longrightarrow> net_inv N kv R D (w2\<lparr>channels := (channels ?w1)(a \<mapsto> c')\<rparr>))"
      using enable_inv [OF os inv1 c1, of FLG_SEND_ENABLED AE_WRITABLE Write_Callback]
      by (auto simp: flag_pair_def flag_values)
    show ?thesis
    proof (cases "r = 0")
      case good: True
      let ?c2 = "?c\<lparr>flg := flg c OR FLG_SEND_ENABLED\<rparr>"
      let ?w3 = "w2\<lparr>channels := (channels ?w1)(a \<mapsto> ?c2)\<rparr>"
      have "net_inv N kv R D ?w3"
        using add(4) good ok q(2) a(2) net_invD(6) [OF inv a(1)] by simp
      moreover have "channel_send os a data w = Some (True, ?w3)"
        using False good a(1) q(1) add(1,2) by (simp add: channel_send_def upd_channel_def)
      moreover have "flag_set (flg ?c2) FLG_SEND_ENABLED" using ok(3) by (auto simp: flag_values)
      ultimately show ?thesis using q(3) a(1) by auto
    qed (use False a(1) q add in \<open>auto simp: channel_send_def upd_channel_def\<close>)
  qed
qed

section \<open>Time-outs\<close>

lemma net_inv_ring: "net_inv N kv R {} w \<Longrightarrow> \<exists>xs. channel_ring w xs \<and> dom (channels w) = set xs"
  using net_inv_memD(4) by fastforce

text \<open>One node of the walk: whether it is closed or not, what follows it in the ring stays.\<close>

lemma timeout_node:
  assumes os: "os_spec os kv" and hnd: "handlers_ok N kv hnd" "close_keeps_ring hnd"
    and inv: "net_inv N kv {} {} w" and ring: "channel_ring w (ps @ node # zs)"
  shows "\<exists>c ps' w1. channels w node = Some c \<and> ch_next c = (if zs \<noteq> [] then hd zs else hd (ps @ [node]))
    \<and> (if expired c now then channel_close os hnd node (-1) w else Some w) = Some w1
    \<and> net_inv N kv {} {} w1 \<and> channel_ring w1 (ps' @ zs)"
proof -
  obtain c where c: "channels w node = Some c" "ch_next c = (if zs \<noteq> [] then hd zs else hd (ps @ [node]))"
    by (rule ring_around [OF ring]) blast
  have n: "node \<notin> set ps" using ring by (simp add: channel_ring_def ring_def)
  show ?thesis
  proof (cases "expired c now")
    case False
    then show ?thesis using c inv ring by (intro exI [of _ c] exI [of _ "ps @ [node]"] exI [of _ w]) simp
  next
    case True
    have "node \<in> dom (channels w)" using c(1) by blast
    then have "returns (channel_close os hnd node (-1) w) (\<lambda>w'. net_inv N kv {} {} w'
      \<and> (\<forall>xs. close_keeps_ring hnd \<and> channel_ring w xs \<and> node \<in> set xs \<longrightarrow> (\<exists>ns. channel_ring w' (ns @ remove1 node xs))))"
      by (rule close_correct [OF os hnd(1) inv]) simp
    then obtain w1 where w1: "channel_close os hnd node (-1) w = Some w1" "net_inv N kv {} {} w1"
      "\<exists>ns. channel_ring w1 (ns @ remove1 node (ps @ node # zs))"
      using hnd(2) ring by (auto simp: returns_def)
    then obtain ns where "channel_ring w1 ((ns @ ps) @ zs)" using n by (auto simp: remove1_append)
    then show ?thesis using True c w1(1,2) by (intro exI [of _ c] exI [of _ "ns @ ps"] exI [of _ w1]) simp
  qed
qed

lemma timeouts_loop_correct:
  assumes os: "os_spec os kv" and hnd: "handlers_ok N kv hnd" "close_keeps_ring hnd"
  shows "net_inv N kv {} {} w \<Longrightarrow> channel_ring w (ps @ node # ys @ [t]) \<Longrightarrow> length ys < f \<Longrightarrow>
    returns (timeouts_loop os hnd f node t now w)
      (\<lambda>w'. net_inv N kv {} {} w' \<and> (\<exists>ps'. channel_ring w' (ps' @ [t])))"
proof (induction ys arbitrary: f w ps node)
  case Nil
  then obtain g where f: "f = Suc g" by (cases f) auto
  obtain c ps' w1 where "channels w node = Some c" "ch_next c = t" "net_inv N kv {} {} w1" "channel_ring w1 (ps' @ [t])"
    "(if expired c now then channel_close os hnd node (-1) w else Some w) = Some w1"
    using timeout_node [OF os hnd Nil(1), of ps node "[t]" now] Nil(2) by auto
  then show ?case using f by auto
next
  case (Cons y ys)
  then obtain g where f: "f = Suc g" by (cases f) auto
  obtain c ps' w1 where s: "channels w node = Some c" "ch_next c = y" "net_inv N kv {} {} w1"
    "channel_ring w1 (ps' @ y # ys @ [t])"
    "(if expired c now then channel_close os hnd node (-1) w else Some w) = Some w1"
    using timeout_node [OF os hnd Cons(2), of ps node "y # ys @ [t]" now] Cons(3) by auto
  have "y \<noteq> t" using Cons(3) by (simp add: channel_ring_def ring_def)
  moreover have "returns (timeouts_loop os hnd g y t now w1)
      (\<lambda>w'. net_inv N kv {} {} w' \<and> (\<exists>ps'. channel_ring w' (ps' @ [t])))"
    by (rule Cons.IH [OF s(3,4)]) (use Cons(4) f in simp)
  ultimately show ?case using s f by simp
qed

text \<open>Every address of the ring is below the next free one.\<close>

lemma ring_length:
  assumes "net_inv N kv R D w" and "channel_ring w xs"
  shows "length xs < next_free w"
proof -
  have "set xs \<subseteq> {0<..<next_free w}"
  proof
    fix a assume a: "a \<in> set xs"
    then have "channels w a \<noteq> None" using assms(2) unfolding channel_ring_def by blast
    then have "\<not> next_free w \<le> a" using net_inv_memD(3) [OF assms(1), of a] by (intro notI) simp
    moreover have "0 \<notin> set xs" using assms(2) by (simp add: channel_ring_def)
    ultimately show "a \<in> {0<..<next_free w}" using a by (cases "a = 0") simp_all
  qed
  then have "card (set xs) \<le> next_free w - 1" using card_mono [of "{0<..<next_free w}"] by fastforce
  then show ?thesis using assms(2) net_inv_memD(1) [OF assms(1)] distinct_card [of xs]
    by (simp add: channel_ring_def ring_def)
qed

lemma check_timeouts_correct:
  assumes os: "os_spec os kv" and hnd: "handlers_ok N kv hnd" "close_keeps_ring hnd"
    and inv: "net_inv N kv {} {} w" and ring: "channel_ring w xs" and ne: "xs \<noteq> []"
  shows "returns (check_timeouts os hnd (hd xs) w) (\<lambda>w'. net_inv N kv {} {} w'
    \<and> (2 \<le> length xs \<longrightarrow> (\<exists>ps'. channel_ring w' (ps' @ [last xs]))))"
proof -
  obtain x ys where xs: "xs = x # ys" using ne by (cases xs) auto
  obtain c where c: "channels w x = Some c" "nx_of w x = ch_next c" "pv_of w x = ch_prev c"
    using ring_member [OF ring, of x] xs by auto
  have tail: "ch_prev c = last xs" using ring_ends [of "nx_of w" "pv_of w" xs] ring ne xs c(3) by (simp add: channel_ring_def)
  obtain now k1 where tm: "unix_time os (kernel w) = (now, k1)" by fastforce
  let ?w = "w\<lparr>kernel := k1\<rparr>"
  have inv1: "net_inv N kv {} {} ?w" by (rule net_inv_kernel [OF inv os_quietD(1) [OF os tm]])
  have ring1: "channel_ring ?w xs" by (rule ring_frame [OF ring]) auto
  have free: "length xs < next_free ?w" using ring_length [OF inv1 ring1] .
  show ?thesis
  proof (cases ys rule: rev_cases)
    case Nil
    obtain g where g: "next_free w = Suc g" using free by (cases "next_free w") auto
    obtain w1 where "(if expired c now then channel_close os hnd x (-1) ?w else Some ?w) = Some w1" "net_inv N kv {} {} w1"
      "ch_next c = x"
      using timeout_node [OF os hnd inv1, of "[]" x "[]" now] ring1 xs Nil c(1) by auto
    then show ?thesis using c(1) tail xs Nil tm g by (simp add: check_timeouts_def)
  next
    case (snoc zs t)
    have "returns (timeouts_loop os hnd (next_free w) x t now ?w)
      (\<lambda>w'. net_inv N kv {} {} w' \<and> (\<exists>ps'. channel_ring w' (ps' @ [t])))"
      by (rule timeouts_loop_correct [OF os hnd inv1, of "[]" x zs t]) (use ring1 xs snoc free in simp_all)
    then have "returns (check_timeouts os hnd x w)
      (\<lambda>w'. net_inv N kv {} {} w' \<and> (\<exists>ps'. channel_ring w' (ps' @ [t])))"
      using c(1) tail xs snoc tm by (simp add: check_timeouts_def)
    then show ?thesis using xs snoc by simp
  qed
qed

lemma crond_inv:
  assumes os: "os_spec os kv" and hnd: "handlers_ok N kv hnd" "close_keeps_ring hnd"
    and inv: "net_inv N kv {} {} w"
  shows "returns (channel_crond os hnd w) (net_inv N kv {} {})"
proof -
  obtain xs where xs: "channel_ring w xs" using net_inv_ring [OF inv] by blast
  show ?thesis
  proof (cases "xs = []")
    case True
    then show ?thesis using xs inv by (simp add: channel_crond_def channel_ring_def)
  next
    case False
    have "channelHead w = hd xs" "hd xs \<in> set xs" "0 \<notin> set xs" using xs False by (simp_all add: channel_ring_def)
    moreover from this(2,3) have "hd xs \<noteq> 0" by (intro notI) simp
    moreover have "returns (check_timeouts os hnd (hd xs) w) (net_inv N kv {} {})"
      using check_timeouts_correct [OF os hnd inv xs False] by (rule returns_mono) simp
    ultimately show ?thesis by (simp add: channel_crond_def)
  qed
qed

end
