(* ===== verification/Acceptor.thy ===== *)
theory Acceptor
  imports Channel_Operations
begin

text \<open>
  The acceptor (\<^verbatim>\<open>acceptor.h\<close>, \<^verbatim>\<open>acceptor.c\<close>, without \<^verbatim>\<open>SSL_SUPPORT\<close>): a listening socket that
  makes a channel of every accepted connection and gives it to its handler.
\<close>

section \<open>Operations\<close>

definition listen_sock :: "'k os \<Rightarrow> int \<Rightarrow> u16 \<Rightarrow> 'k \<Rightarrow> int \<times> 'k" where
  "listen_sock os family port k =
     (let (listenfd, k1) = aesoccreate os family True k
      in if listenfd = INVALIDFD then (INVALIDFD, k1)
         else let (r, k2) = aesoclisten os listenfd port k1
              in if r \<noteq> 0 then (INVALIDFD, aesocclose os listenfd k2) else (listenfd, k2))"

text \<open>The address of the new acceptor, 0 for \<^verbatim>\<open>NULL\<close>.\<close>

definition acceptor_create :: "'k os \<Rightarrow> int \<Rightarrow> u16 \<Rightarrow> 'h \<Rightarrow> 'u \<Rightarrow> ('h, 'u, 'k, 'a) libnet \<Rightarrow> nat \<times> ('h, 'u, 'k, 'a) libnet" where
  "acceptor_create os family port h usr w =
     (let (fd, k1) = listen_sock os family port (kernel w);
          w1 = w\<lparr>kernel := k1\<rparr>
      in if fd = INVALIDFD then (0, w1)
         else let a = next_free w1
              in (a, w1\<lparr>acceptors := (acceptors w1)(a \<mapsto> \<lparr>ac_handler = h, ac_fd = fd, ac_pUsr = usr\<rparr>), next_free := a + 1\<rparr>))"

definition acceptor_destroy :: "'k os \<Rightarrow> nat \<Rightarrow> ('h, 'u, 'k, 'a) libnet \<Rightarrow> ('h, 'u, 'k, 'a) libnet option" where
  "acceptor_destroy os a w = do {
     ac \<leftarrow> acceptors w a;
     let w1 = (if ac_fd ac \<noteq> INVALIDFD then w\<lparr>kernel := aesocclose os (ac_fd ac) (kernel w)\<rparr> else w);
     Some (w1\<lparr>acceptors := (acceptors w1)(a := None)\<rparr>)
   }"

definition notify_channel :: "('h, 'u, 'k, 'a) dispatch \<Rightarrow> ('h, 'u) acceptor \<Rightarrow> nat \<Rightarrow> ('h, 'u, 'k, 'a) libnet
    \<Rightarrow> ('h, 'u, 'k, 'a) libnet option" where
  "notify_channel hnd ac c w = hnd (ac_handler ac) (Some (ac_pUsr ac)) (EVACCEPTED c) w"

definition accept_handler :: "'k os \<Rightarrow> ('h, 'u, 'k, 'a) dispatch \<Rightarrow> nat \<Rightarrow> ('h, 'u, 'k, 'a) libnet
    \<Rightarrow> ('h, 'u, 'k, 'a) libnet option" where
  "accept_handler os hnd a w = do {
     ac \<leftarrow> acceptors w a;
     let ((r, conn), k1) = aesocaccept os (ac_fd ac) (kernel w);
     let w1 = w\<lparr>kernel := k1\<rparr>;
     if r \<noteq> 0 then Some w1
     else do {
       (accepted, ip, port) \<leftarrow> conn;
       (c, w2) \<leftarrow> channel_create accepted ip port False w1;
       notify_channel hnd ac c w2
     }
   }"

definition acceptor_start :: "'k os \<Rightarrow> nat \<Rightarrow> ('h, 'u, 'k, 'a) libnet \<Rightarrow> (int \<times> ('h, 'u, 'k, 'a) libnet) option" where
  "acceptor_start os a w = do {
     ac \<leftarrow> acceptors w a;
     (r, w1) \<leftarrow> add_event os (ac_fd ac) AE_READABLE Accept_Handler a w;
     Some (if r \<noteq> 0 then -1 else 0, w1)
   }"

definition acceptor_stop :: "'k os \<Rightarrow> nat \<Rightarrow> ('h, 'u, 'k, 'a) libnet \<Rightarrow> ('h, 'u, 'k, 'a) libnet option" where
  "acceptor_stop os a w = do {
     ac \<leftarrow> acceptors w a;
     del_event os (ac_fd ac) AE_READABLE w
   }"

section \<open>Changes outside the channels\<close>

lemma net_inv_others:
  assumes inv: "net_inv N kv R D w"
    and size: "setsize (evLoop w') = setsize (evLoop w)" and same: "channels w' = channels w" "channelHead w' = channelHead w" "next_free w \<le> next_free w'"
    and ae: "ae_inv (\<lambda>k. fst (kv k)) (evLoop w', kernel w')" and fds: "fds_ok kv w'"
    and chans: "\<And>a c. channels w a = Some c \<Longrightarrow> event_at (evLoop w') (ch_fd c) = event_at (evLoop w) (ch_fd c)"
    and evs: "\<And>fd fe. event_at (evLoop w') fd = Some fe \<Longrightarrow> fe_mask fe \<noteq> AE_NONE \<Longrightarrow>
      event_at (evLoop w) fd = Some fe \<and> (served w fd fe \<longrightarrow> served w' fd fe) \<or> served w' fd fe"
  shows "net_inv N kv R D w'"
proof -
  obtain xs where xs: "channel_ring w xs" "set xs \<inter> D = {}" "dom (channels w) = set xs \<union> D"
    using net_inv_memD(4) [OF inv] by blast
  show ?thesis
  proof (rule net_invI [of w' N kv xs])
    show "channel_ring w' xs" by (rule ring_frame [OF xs(1)]) (use same in auto)
    show "chan_ok (evLoop w') b d" if "channels w' b = Some d" for b d
      using net_invD(2) [OF inv, of b d] chans [of b d] that same(1) by (simp add: chan_ok_def)
    show "(\<exists>b d. channels w' b = Some d \<and> ch_fd d = fd) \<or> served w' fd fe"
      if "event_at (evLoop w') fd = Some fe" "fe_mask fe \<noteq> AE_NONE" for fd fe
      using evs [OF that] net_invD(4) [OF inv, of fd fe] that(2) same(1) by auto
    show "b = b'" if "channels w' b = Some d" "channels w' b' = Some d'" "ch_fd d = ch_fd d'" for b b' d d'
      using net_invD(3) [OF inv, of b d b' d'] that same(1) by simp
    show "channels w' b = None" if "next_free w' \<le> b" for b
      using net_inv_memD(3) [OF inv, of b] that same(1,3) by simp
  qed (use xs size net_inv_size [OF inv] same ae fds net_inv_memD(1,2) [OF inv] net_invD(6) [OF inv] in auto)
qed

text \<open>A descriptor that has just been opened.\<close>

lemma net_inv_open:
  assumes inv: "net_inv N kv R D w" and new: "new_fd kv fd (kernel w) k1"
  shows "net_inv N kv R D (w\<lparr>kernel := k1\<rparr>)" and "fresh_fd kv (w\<lparr>kernel := k1\<rparr>) fd"
proof -
  let ?w = "w\<lparr>kernel := k1\<rparr>"
  have so: "same_owned w ?w" by (simp add: same_owned_def)
  have k1: "fst (kv k1) = fst (kv (kernel w))" "snd (kv k1) = insert fd (snd (kv (kernel w)))"
    using new by (simp_all add: new_fd_def)
  note f = net_invD(5) [OF inv]
  have fds: "fds_ok kv ?w"
    using fds_okD [OF f] same_owned_cong(1) [OF so] acceptors_ok_cong [OF _ so] k1(2)
    unfolding fds_ok_def by fastforce
  show "net_inv N kv R D ?w"
  proof (rule net_inv_others [OF inv _ _ _ _ _ fds])
    show "ae_inv (\<lambda>k. fst (kv k)) (evLoop ?w, kernel ?w)" using net_invD(1) [OF inv] k1(1) by (simp add: ae_inv_def)
  qed (simp_all add: same_owned_cong(2) [OF so])
  have out: "fd \<notin> snd (kv (kernel w))" "fst (kv (kernel w)) fd = None" "0 \<le> fd" using new by (simp_all add: new_fd_def)
  have "watched (evLoop w) fd = None" using net_invD(1) [OF inv] out(2) by (simp add: ae_inv_def)
  moreover have "fd \<notin> owned w" using fds_okD(1) [OF f] out(1) by blast
  moreover have "ch_fd c \<noteq> fd" if "channels w a = Some c" for a c using fds_okD(3) [OF f that] out(1) by blast
  ultimately show "fresh_fd kv ?w fd"
    using out(3) k1(2) same_owned_cong(1) [OF so] by (auto simp: fresh_fd_def)
qed

text \<open>Registering and removing the event of a descriptor that is not a channel's.\<close>

lemma owned_not_channel:
  "net_inv N kv R D w \<Longrightarrow> fd \<in> owned w \<Longrightarrow> channels w a = Some c \<Longrightarrow> ch_fd c \<noteq> fd"
  using fds_okD(4) [OF net_invD(5)] by blast

lemma owned_event:
  assumes "net_inv N kv R D w" and "fd \<in> owned w" and "event_at (evLoop w) fd = Some fe"
  shows "fe_mask fe = AE_NONE \<or> fe_mask fe = AE_READABLE"
  using net_invD(4) [OF assms(1,3)] owned_not_channel [OF assms(1,2)] by (auto simp: served_def)

lemma serve_inv:
  assumes os: "os_spec os kv" and inv: "net_inv N kv R D w" and fd: "fd \<in> owned w" "0 \<le> fd"
    and sv: "\<And>fe. fe_mask fe = AE_READABLE \<Longrightarrow> rfileProc fe = Some p \<Longrightarrow> clientData fe = Some a \<Longrightarrow> served w fd fe"
  shows "returns (add_event os fd AE_READABLE p a w) (\<lambda>(r, w'). net_inv N kv R D w' \<and> acceptors w' = acceptors w
    \<and> channels w' = channels w \<and> app w' = app w)"
proof -
  obtain r l1 k1 where cr: "aeCreateFileEvent (sys_epoll_ctl os) fd AE_READABLE p a (evLoop w, kernel w) = Some (r, l1, k1)"
    and ae: "ae_inv (\<lambda>k. fst (kv k)) (l1, k1)" "r = -1 \<longrightarrow> l1 = evLoop w"
    using create_correct [OF os_specD(1) [OF os] net_invD(1) [OF inv] fd(2), of AE_READABLE p a] by (auto simp: ae_masks)
  let ?w = "w\<lparr>evLoop := l1, kernel := k1\<rparr>"
  have so: "same_owned w ?w" by (simp add: same_owned_def)
  have opened: "snd (kv k1) = snd (kv (kernel w))" by (rule ctl_frame(1) [OF os_specD(2) [OF os] cr])
  have fds: "fds_ok kv ?w" by (rule fds_ok_cong [OF net_invD(5) [OF inv] so]) (auto simp: opened)
  have "net_inv N kv R D ?w"
  proof (cases "r = -1")
    case True
    then show ?thesis using ae fds same_owned_cong(2) [OF so] create_size [OF cr] by (intro net_inv_others [OF inv]) simp_all
  next
    case False
    then have "r = 0" using create_result [OF cr] by simp
    then obtain fe fe1 where e: "event_at (evLoop w) fd = Some fe" "event_at l1 fd = Some fe1"
      "fe_mask fe1 = fe_mask fe OR AE_READABLE" "clientData fe1 = Some a" "rfileProc fe1 = Some p"
      "\<forall>fd1. fd1 \<noteq> fd \<longrightarrow> event_at l1 fd1 = event_at (evLoop w) fd1"
      using create_entries [of "sys_epoll_ctl os" fd AE_READABLE p a "evLoop w" "kernel w" l1 k1] cr
      by (auto simp: AE_READABLE_def)
    have "fe_mask fe1 = AE_READABLE" using owned_event [OF inv fd(1) e(1)] e(3) by (auto simp: ae_masks)
    then have served: "served w fd fe1" using sv e(4,5) by simp
    show ?thesis
    proof (rule net_inv_others [OF inv _ _ _ _ _ fds])
      show "event_at (evLoop ?w) (ch_fd c) = event_at (evLoop w) (ch_fd c)" if "channels w b = Some c" for b c
        using e(6) owned_not_channel [OF inv fd(1) that] by simp
      show "event_at (evLoop w) fd1 = Some f \<and> (served w fd1 f \<longrightarrow> served ?w fd1 f) \<or> served ?w fd1 f"
        if "event_at (evLoop ?w) fd1 = Some f" for fd1 f
        using that served e(2,6) same_owned_cong(2) [OF so] by (cases "fd1 = fd") simp_all
    qed (use ae create_size [OF cr] in simp_all)
  qed
  then show ?thesis using cr by (simp add: add_event_def)
qed

lemma unserve_inv:
  assumes os: "os_spec os kv" and inv: "net_inv N kv R D w" and fd: "fd \<in> owned w" "0 \<le> fd"
  shows "returns (del_event os fd AE_READABLE w) (\<lambda>w'. net_inv N kv R D w' \<and> acceptors w' = acceptors w
    \<and> channels w' = channels w \<and> app w' = app w \<and> watched (evLoop w') fd = None)"
proof -
  obtain l1 k1 where dl: "aeDeleteFileEvent (sys_epoll_ctl os) fd AE_READABLE (evLoop w, kernel w) = Some (l1, k1)"
    and ae: "ae_inv (\<lambda>k. fst (kv k)) (l1, k1)" "setsize l1 = setsize (evLoop w)"
    using delete_correct [OF os_specD(1) [OF os] net_invD(1) [OF inv] fd(2), of AE_READABLE] by auto
  let ?w = "w\<lparr>evLoop := l1, kernel := k1\<rparr>"
  have so: "same_owned w ?w" by (simp add: same_owned_def)
  have opened: "snd (kv k1) = snd (kv (kernel w))" by (rule ctl_frame(2) [OF os_specD(2) [OF os] dl])
  have fds: "fds_ok kv ?w" by (rule fds_ok_cong [OF net_invD(5) [OF inv] so]) (auto simp: opened)
  have wf: "ae_wf (evLoop w)" using net_invD(1) [OF inv] by (simp add: ae_inv_def)
  show ?thesis
  proof (cases "event_at (evLoop w) fd")
    case None
    then have "l1 = evLoop w" "k1 = kernel w" using dl by (auto simp: aeDeleteFileEvent_def split: if_splits)
    then show ?thesis using dl inv None by (simp add: del_event_def watched_def)
  next
    case (Some fe)
    note e = delete_entries [OF dl Some wf]
    have none: "fe_mask fe AND NOT AE_READABLE = AE_NONE" using owned_event [OF inv fd(1) Some] by (auto simp: ae_masks)
    have "net_inv N kv R D ?w"
    proof (rule net_inv_others [OF inv _ _ _ _ _ fds])
      show "event_at (evLoop ?w) (ch_fd c) = event_at (evLoop w) (ch_fd c)" if "channels w b = Some c" for b c
        using e(2) owned_not_channel [OF inv fd(1) that] by simp
      show "event_at (evLoop w) fd1 = Some f \<and> (served w fd1 f \<longrightarrow> served ?w fd1 f) \<or> served ?w fd1 f"
        if "event_at (evLoop ?w) fd1 = Some f" "fe_mask f \<noteq> AE_NONE" for fd1 f
        using that none e same_owned_cong(2) [OF so] by (cases "fd1 = fd") auto
    qed (use ae in simp_all)
    moreover have "watched l1 fd = None" using e(1) none by (simp add: watched_def)
    ultimately show ?thesis using dl by (simp add: del_event_def)
  qed
qed

section \<open>The operations keep the invariant\<close>

lemma acceptor_fd: "net_inv N kv R D w \<Longrightarrow> acceptors w a = Some ac \<Longrightarrow> ac_fd ac \<in> owned w \<and> 0 \<le> ac_fd ac"
  using acceptors_okD(1) [OF fds_okD(2) [OF net_invD(5)]] by (fastforce simp: owned_def)

lemma acceptor_start_inv:
  assumes "os_spec os kv" and "net_inv N kv R D w" and "acceptors w a = Some ac"
  shows "returns (acceptor_start os a w) (\<lambda>(r, w'). net_inv N kv R D w' \<and> acceptors w' = acceptors w
    \<and> channels w' = channels w \<and> app w' = app w)"
proof -
  have fd: "ac_fd ac \<in> owned w" "0 \<le> ac_fd ac" using acceptor_fd [OF assms(2,3)] by simp_all
  have "returns (add_event os (ac_fd ac) AE_READABLE Accept_Handler a w) (\<lambda>(r, w'). net_inv N kv R D w'
    \<and> acceptors w' = acceptors w \<and> channels w' = channels w \<and> app w' = app w)"
    by (rule serve_inv [OF assms(1,2) fd]) (use assms(3) in \<open>simp add: served_def\<close>)
  then show ?thesis using assms(3) by (auto simp: acceptor_start_def returns_def)
qed

lemma acceptor_stop_inv:
  assumes "os_spec os kv" and "net_inv N kv R D w" and "acceptors w a = Some ac"
  shows "returns (acceptor_stop os a w) (\<lambda>w'. net_inv N kv R D w' \<and> acceptors w' = acceptors w
    \<and> channels w' = channels w \<and> app w' = app w \<and> watched (evLoop w') (ac_fd ac) = None)"
  using unserve_inv [OF assms(1,2), of "ac_fd ac"] acceptor_fd [OF assms(2,3)] assms(3) by (simp add: acceptor_stop_def)

lemma listen_sock_fd:
  assumes os: "os_spec os kv" and ls: "listen_sock os family port k = (fd, k1)"
  shows "if fd = INVALIDFD then kv k1 = kv k else new_fd kv fd k k1"
proof -
  obtain soc k0 where s: "aesoccreate os family True k = (soc, k0)" by fastforce
  note soc = aesoccreate_fd [OF os s]
  show ?thesis
  proof (cases "soc = INVALIDFD")
    case True
    then show ?thesis using ls s soc by (simp add: listen_sock_def)
  next
    case False
    obtain r k2 where l: "aesoclisten os soc port k0 = (r, k2)" by fastforce
    then have k2: "kv k2 = kv k0" by (rule os_quietD(5) [OF os])
    have new: "new_fd kv soc k k0" using soc False by simp
    show ?thesis
      using ls s l False new_fd_close [OF os new k2] new_fd_kv [OF new k2]
      by (cases "r = 0") (auto simp: listen_sock_def aesocclose_def)
  qed
qed

lemma owned_new_acceptor:
  assumes none: "acceptors w a = None"
  shows "owned (w\<lparr>acceptors := (acceptors w)(a \<mapsto> ac), next_free := n\<rparr>) = insert (ac_fd ac) (owned w)"
proof -
  let ?w = "w\<lparr>acceptors := (acceptors w)(a \<mapsto> ac), next_free := n\<rparr>"
  have "x \<in> {ac_fd ac |a ac. acceptors ?w a = Some ac} \<longleftrightarrow>
      x \<in> insert (ac_fd ac) {ac_fd ac |a ac. acceptors w a = Some ac}" for x
  proof
    assume "x \<in> insert (ac_fd ac) {ac_fd ac |a ac. acceptors w a = Some ac}"
    then consider "x = ac_fd ac" | b bc where "x = ac_fd bc" "acceptors w b = Some bc" by blast
    then show "x \<in> {ac_fd ac |a ac. acceptors ?w a = Some ac}"
    proof cases
      case 1
      then show ?thesis by (intro CollectI exI [of _ a] exI [of _ ac]) simp
    next
      case 2
      then have "b \<noteq> a" using none by auto
      then show ?thesis using 2 by (intro CollectI exI [of _ b] exI [of _ bc]) simp
    qed
  qed (auto split: if_splits)
  then have "{ac_fd ac |a ac. acceptors ?w a = Some ac} = insert (ac_fd ac) {ac_fd ac |a ac. acceptors w a = Some ac}"
    by (rule set_eqI)
  moreover have "owned ?w = {ac_fd ac |a ac. acceptors ?w a = Some ac} \<union> ({pipe_rd w, pipe_wr w} - {-1})"
    unfolding owned_def by simp
  ultimately show ?thesis unfolding owned_def by (simp only: Un_insert_left)
qed

lemma acceptor_create_inv:
  assumes os: "os_spec os kv" and inv: "net_inv N kv R D w" and cr: "acceptor_create os family port h usr w = (a, w')"
  shows "net_inv N kv R D w' \<and> channels w' = channels w \<and> app w' = app w
    \<and> (a = 0 \<or> acceptors w a = None \<and> (\<exists>fd. acceptors w' = (acceptors w)(a \<mapsto> \<lparr>ac_handler = h, ac_fd = fd, ac_pUsr = usr\<rparr>)
         \<and> watched (evLoop w') fd = None))"
proof -
  obtain fd k1 where ls: "listen_sock os family port (kernel w) = (fd, k1)" by fastforce
  note fd = listen_sock_fd [OF os ls]
  show ?thesis
  proof (cases "fd = INVALIDFD")
    case True
    then show ?thesis using cr ls fd net_inv_kernel [OF inv, of k1] by (auto simp: acceptor_create_def)
  next
    case False
    then have new: "new_fd kv fd (kernel w) k1" using fd by simp
    let ?w1 = "w\<lparr>kernel := k1\<rparr>" and ?a = "next_free w"
    let ?ac = "\<lparr>ac_handler = h, ac_fd = fd, ac_pUsr = usr\<rparr>"
    let ?w2 = "?w1\<lparr>acceptors := (acceptors w)(?a \<mapsto> ?ac), next_free := ?a + 1\<rparr>"
    note inv1 = net_inv_open(1) [OF inv new]
    have fresh: "fresh_fd kv ?w1 fd" by (rule net_inv_open(2) [OF inv new])
    have f1: "fds_ok kv ?w1" by (rule net_invD(5) [OF inv1])
    have none: "acceptors w ?a = None" using acceptors_okD(5) [OF fds_okD(2) [OF net_invD(5) [OF inv]], of ?a] by fastforce
    have own: "owned ?w2 = insert fd (owned w)"
      using owned_new_acceptor [where w = ?w1 and a = ?a and ac = ?ac and n = "?a + 1"] none same_owned_cong(1) [of w ?w1]
      by (simp add: same_owned_def)
    have out: "fd \<notin> owned w" "\<And>b bc. acceptors w b = Some bc \<Longrightarrow> ac_fd bc \<noteq> fd" "fd \<noteq> pipe_rd w" "fd \<noteq> pipe_wr w"
      using fresh False by (auto simp: fresh_fd_def owned_def INVALIDFD_def)
    have ok: "acceptors_ok ?w1" by (rule fds_okD(2) [OF f1])
    have "acceptors_ok ?w2"
      using acceptors_okD [OF ok] out net_inv_memD(1) [OF inv] fresh
      unfolding acceptors_ok_def fresh_fd_def by (auto split: if_splits simp: less_Suc_eq dest: out(2))
    then have fds: "fds_ok kv ?w2"
      using fds_okD(1,3,4) [OF f1] fresh own same_owned_cong(1) [of w ?w1]
      by (auto simp: fds_ok_def fresh_fd_def same_owned_def)
    have "net_inv N kv R D ?w2"
    proof (rule net_inv_others [OF inv1 _ _ _ _ _ fds])
      show "ae_inv (\<lambda>k. fst (kv k)) (evLoop ?w2, kernel ?w2)" using net_invD(1) [OF inv1] by simp
      have sv: "served ?w1 fd1 fe \<Longrightarrow> served ?w2 fd1 fe" for fd1 fe
        using none by (cases "clientData fe") (auto simp: served_def split: if_splits)
      then show "event_at (evLoop ?w1) fd1 = Some fe \<and> (served ?w1 fd1 fe \<longrightarrow> served ?w2 fd1 fe) \<or> served ?w2 fd1 fe"
        if "event_at (evLoop ?w2) fd1 = Some fe" for fd1 fe using that by auto
    qed simp_all
    moreover have "a = ?a" "w' = ?w2" using cr ls False by (auto simp: acceptor_create_def Let_def)
    moreover have "watched (evLoop w) fd = None" using fresh by (simp add: fresh_fd_def)
    ultimately show ?thesis using none by auto
  qed
qed

text \<open>An acceptor may be destroyed once it is stopped.\<close>

lemma acceptor_destroy_inv:
  assumes os: "os_spec os kv" and inv: "net_inv N kv R D w" and a: "acceptors w a = Some ac"
    and stopped: "watched (evLoop w) (ac_fd ac) = None"
  shows "returns (acceptor_destroy os a w) (\<lambda>w'. net_inv N kv R D w' \<and> acceptors w' = (acceptors w)(a := None)
    \<and> channels w' = channels w \<and> app w' = app w)"
proof -
  let ?k = "aesocclose os (ac_fd ac) (kernel w)"
  let ?w = "w\<lparr>kernel := ?k, acceptors := (acceptors w)(a := None)\<rparr>"
  note f = net_invD(5) [OF inv]
  note aok = acceptors_okD [OF fds_okD(2) [OF f]]
  have k: "fst (kv ?k) = fst (kv (kernel w))" "snd (kv ?k) = snd (kv (kernel w)) - {ac_fd ac}"
    using net_invD(1) [OF inv] stopped by (simp_all add: os_specD(3) [OF os] ae_inv_def fun_upd_idem)
  have own: "owned ?w \<subseteq> owned w - {ac_fd ac}"
    using aok(2,3) [OF a] aok(6) [OF a] by (auto simp: owned_def split: if_splits)
  have "acceptors_ok ?w"
    using fds_okD(2) [OF f] unfolding acceptors_ok_def by (auto split: if_splits)
  moreover have "ch_fd c \<in> snd (kv ?k) - owned ?w" if "channels w b = Some c" for b c
  proof -
    have "ac_fd ac \<in> owned w" using acceptor_fd [OF inv a] by simp
    then show ?thesis using fds_okD(3,4) [OF f that] own k(2) by auto
  qed
  ultimately have fds: "fds_ok kv ?w" using fds_okD(1) [OF f] own k(2) by (auto simp: fds_ok_def)
  have "net_inv N kv R D ?w"
  proof (rule net_inv_others [OF inv _ _ _ _ _ fds])
    show "ae_inv (\<lambda>k. fst (kv k)) (evLoop ?w, kernel ?w)" using net_invD(1) [OF inv] k(1) by (simp add: ae_inv_def)
    show "event_at (evLoop w) fd = Some fe \<and> (served w fd fe \<longrightarrow> served ?w fd fe) \<or> served ?w fd fe"
      if at: "event_at (evLoop ?w) fd = Some fe" and ev: "fe_mask fe \<noteq> AE_NONE" for fd fe
    proof -
      have "fd \<noteq> ac_fd ac" using at ev stopped by (auto simp: watched_def)
      then have "served w fd fe \<longrightarrow> served ?w fd fe" using a
        by (cases "clientData fe") (auto simp: served_def split: if_splits)
      then show ?thesis using at by simp
    qed
  qed simp_all
  moreover have "ac_fd ac \<noteq> INVALIDFD" using aok(1) [OF a] by (simp add: INVALIDFD_def)
  ultimately show ?thesis using a by (simp add: acceptor_destroy_def Let_def)
qed

lemma accept_handler_inv:
  assumes os: "os_spec os kv" and hnd: "handlers_ok N kv hnd" and inv: "net_inv N kv R D w" and a: "acceptors w a = Some ac"
  shows "returns (accept_handler os hnd a w) (net_inv N kv R D)"
proof -
  obtain r conn k1 where acc: "aesocaccept os (ac_fd ac) (kernel w) = ((r, conn), k1)" by (metis surj_pair)
  note fd = aesocaccept_fd [OF os acc]
  show ?thesis
  proof (cases "r = 0")
    case False
    then show ?thesis using a acc fd net_inv_kernel [OF inv, of k1] by (simp add: accept_handler_def)
  next
    case True
    then obtain fd ip port where conn: "conn = Some (fd, ip, port)" "new_fd kv fd (kernel w) k1" "length ip < IPSTRSIZE"
      using fd by (auto simp: IPSTRSIZE_def)
    obtain c w2 where w2: "channel_create fd ip port False (w\<lparr>kernel := k1\<rparr>) = Some (c, w2)" "net_inv N kv R D w2"
      "channels (w\<lparr>kernel := k1\<rparr>) c = None" "c \<in> dom (channels w2)"
      using create_inv [OF net_inv_open [OF inv conn(2)] conn(3), of port False] by blast
    have "c \<notin> D" using net_inv_memD(4) [OF inv] w2(3) by auto
    then have "returns (hnd (ac_handler ac) (Some (ac_pUsr ac)) (EVACCEPTED c) w2) (net_inv N kv R D)"
      using handlers_okD(4) [OF hnd w2(4)] w2(2) by blast
    then show ?thesis using True a acc conn(1) w2(1) by (simp add: accept_handler_def notify_channel_def)
  qed
qed

end
