(* ===== verification/Evpipe.thy ===== *)
theory Evpipe
  imports Sockets
begin

text \<open>
  The event pipe (\<^verbatim>\<open>evpipe.h\<close>, \<^verbatim>\<open>evpipe.c\<close>, POSIX build): another thread wakes the event loop by
  writing a byte into it, the loop reads it empty.
\<close>

section \<open>Operations\<close>

definition socket_nonblocking :: "'k os \<Rightarrow> int \<Rightarrow> 'k \<Rightarrow> int \<times> 'k" where
  "socket_nonblocking os soc k =
     (let (flags, k1) = sys_getfl os soc k
      in if flags = -1 then (0, k1)
         else let (r, k2) = sys_setfl os soc (flags OR O_NONBLOCK) k1 in if r < 0 then (0, k2) else (1, k2))"

text \<open>The result, and on success the two ends.\<close>

definition ev_pipe :: "'k os \<Rightarrow> 'k \<Rightarrow> (int \<times> (int \<times> int) option) \<times> 'k" where
  "ev_pipe os k =
     (let ((r, rd, wr), k1) = sys_pipe os k
      in if r = 0 then
           let (a, k2) = socket_nonblocking os rd k1;
               (b, k3) = (if a < 0 then (0, k2) else socket_nonblocking os wr k2)
           in if a < 0 \<or> b < 0 then ((-1, None), sys_close os wr (sys_close os rd k3))
              else ((0, Some (rd, wr)), k3)
         else ((-1, None), k1))"

definition pipe_write :: "'k os \<Rightarrow> int \<Rightarrow> byte list \<Rightarrow> 'k \<Rightarrow> int \<times> 'k" where
  "pipe_write os fd buf k = sys_write os fd buf k"

definition pipe_read :: "'k os \<Rightarrow> int \<Rightarrow> nat \<Rightarrow> 'k \<Rightarrow> int \<times> 'k" where
  "pipe_read os fd n k = sys_read os fd n k"

partial_function (option) evpipe_dummy :: "'k os \<Rightarrow> int \<Rightarrow> 'k \<Rightarrow> 'k option" where
  "evpipe_dummy os fd k =
     (case pipe_read os fd 255 k of (r, k1) \<Rightarrow> if 0 < r then evpipe_dummy os fd k1 else Some k1)"

section \<open>What the code relies on\<close>

text \<open>
  \<open>unread k fd\<close> is the number of bytes in the pipe: a successful \<^verbatim>\<open>read\<close> takes some of them, and a
  read of a non-empty pipe succeeds.
\<close>

definition pipe_spec :: "'k os \<Rightarrow> ('k \<Rightarrow> int \<Rightarrow> nat) \<Rightarrow> bool" where
  "pipe_spec os unread \<longleftrightarrow> (\<forall>fd n k. case sys_read os fd n k of (r, k1) \<Rightarrow>
     (0 < r \<longrightarrow> unread k1 fd < unread k fd) \<and> (r \<le> 0 \<longrightarrow> unread k1 fd = unread k fd)
     \<and> (0 < unread k fd \<and> 0 < n \<longrightarrow> 0 < r))"

lemma pipe_specD:
  assumes "pipe_spec os unread" and "sys_read os fd n k = (r, k1)"
  shows "0 < r \<Longrightarrow> unread k1 fd < unread k fd" and "r \<le> 0 \<Longrightarrow> unread k1 fd = unread k fd"
    and "0 < unread k fd \<Longrightarrow> 0 < n \<Longrightarrow> 0 < r"
  using assms(1) [unfolded pipe_spec_def, THEN spec [of _ fd], THEN spec [of _ n], THEN spec [of _ k]] assms(2) by auto

lemma evpipe_dummy_drains:
  assumes ps: "pipe_spec os unread" and os: "os_spec os kv"
  shows "returns (evpipe_dummy os fd k) (\<lambda>k1. unread k1 fd = 0 \<and> kv k1 = kv k)"
proof (induction "unread k fd" arbitrary: k rule: less_induct)
  case less
  obtain r k1 where rd: "sys_read os fd 255 k = (r, k1)" by fastforce
  have same: "kv k1 = kv k" by (rule os_quiet_calls(11) [OF os_specD(4) [OF os] rd])
  show ?case
  proof (cases "0 < r")
    case True
    then have "returns (evpipe_dummy os fd k1) (\<lambda>k2. unread k2 fd = 0 \<and> kv k2 = kv k1)"
      using less pipe_specD(1) [OF ps rd] by blast
    then show ?thesis using True rd same by (subst evpipe_dummy.simps) (simp add: pipe_read_def)
  next
    case False
    then have "unread k1 fd = 0" using pipe_specD(2,3) [OF ps rd] by fastforce
    then show ?thesis using False rd same by (subst evpipe_dummy.simps) (simp add: pipe_read_def)
  qed
qed

lemma socket_nonblocking_kv: "os_spec os kv \<Longrightarrow> socket_nonblocking os fd k = (r, k1) \<Longrightarrow> kv k1 = kv k \<and> 0 \<le> r"
  using os_quiet_calls(7,8) [OF os_specD(4)]
  by (fastforce simp: socket_nonblocking_def Let_def split: prod.splits if_splits)

text \<open>The test of the results never fails: \<^verbatim>\<open>socket_nonblocking\<close> returns 0 or 1.\<close>

lemma ev_pipe_fds:
  assumes os: "os_spec os kv" and ep: "ev_pipe os k = ((r, ends), k1)"
  shows "if r = 0 then \<exists>rd wr k0. ends = Some (rd, wr) \<and> new_fd kv rd k k0 \<and> new_fd kv wr k0 k1
    else ends = None \<and> kv k1 = kv k"
proof -
  obtain r0 rd wr k0 where p: "sys_pipe os k = ((r0, rd, wr), k0)" by (metis surj_pair)
  show ?thesis
  proof (cases "r0 = 0")
    case True
    obtain x where x: "new_fd kv rd k x" "new_fd kv wr x k0" using os_opensD(3) [OF os p] True by auto
    obtain a k2 where a: "socket_nonblocking os rd k0 = (a, k2)" by fastforce
    obtain b k3 where b: "socket_nonblocking os wr k2 = (b, k3)" by fastforce
    have k: "kv k3 = kv k0" "\<not> a < 0" "\<not> b < 0"
      using socket_nonblocking_kv [OF os a] socket_nonblocking_kv [OF os b] by auto
    then have "r = 0" "ends = Some (rd, wr)" "k1 = k3" using ep p True a b by (simp_all add: ev_pipe_def Let_def)
    then show ?thesis using x(1) new_fd_kv [OF x(2) k(1)] by auto
  next
    case False
    then show ?thesis using ep p os_opensD(3) [OF os p] by (auto simp: ev_pipe_def)
  qed
qed

end
