(* ===== verification/Libnet.thy ===== *)
theory Libnet
  imports Acceptor Evpipe
begin

text \<open>
  The library as its users see it (\<^verbatim>\<open>evfunclib.h\<close>, \<^verbatim>\<open>libnet.h\<close>, \<^verbatim>\<open>libnet.c\<close>): set-up, the event loop
  with the check of the time-outs, and the functions that forward to channels and acceptors.
\<close>

section \<open>Forwarding\<close>

definition evnet_createchannel :: "'k os \<Rightarrow> byte list \<Rightarrow> u16 \<Rightarrow> ('h, 'u, 'k, 'a) libnet
    \<Rightarrow> (nat \<times> ('h, 'u, 'k, 'a) libnet) option" where
  "evnet_createchannel os ip port w = upstream_channel os ip port w"

definition evnet_closechannel :: "'k os \<Rightarrow> ('h, 'u, 'k, 'a) dispatch \<Rightarrow> nat \<Rightarrow> int \<Rightarrow> ('h, 'u, 'k, 'a) libnet
    \<Rightarrow> ('h, 'u, 'k, 'a) libnet option" where
  "evnet_closechannel os hnd c errcode w = channel_close os hnd c errcode w"

definition evnet_channelbind :: "'k os \<Rightarrow> nat \<Rightarrow> 'h \<Rightarrow> u32 \<Rightarrow> 'u \<Rightarrow> ('h, 'u, 'k, 'a) libnet
    \<Rightarrow> (bool \<times> ('h, 'u, 'k, 'a) libnet) option" where
  "evnet_channelbind os c h tmo usr w = channel_bind os c h tmo usr w"

definition evnet_channelsend :: "'k os \<Rightarrow> nat \<Rightarrow> byte list \<Rightarrow> ('h, 'u, 'k, 'a) libnet
    \<Rightarrow> (bool \<times> ('h, 'u, 'k, 'a) libnet) option" where
  "evnet_channelsend os c data w = channel_send os c data w"

definition evnet_channeluser :: "nat \<Rightarrow> ('h, 'u, 'k, 'a) libnet \<Rightarrow> 'u option option" where
  "evnet_channeluser c w = map_option ch_pUsr (channels w c)"

definition evnet_channelip :: "nat \<Rightarrow> ('h, 'u, 'k, 'a) libnet \<Rightarrow> byte list option" where
  "evnet_channelip c w = map_option ipStr (channels w c)"

definition evnet_channelport :: "nat \<Rightarrow> ('h, 'u, 'k, 'a) libnet \<Rightarrow> u16 option" where
  "evnet_channelport c w = map_option ch_port (channels w c)"

definition evnet_createacceptor :: "'k os \<Rightarrow> u16 \<Rightarrow> 'h \<Rightarrow> 'u \<Rightarrow> ('h, 'u, 'k, 'a) libnet
    \<Rightarrow> nat \<times> ('h, 'u, 'k, 'a) libnet" where
  "evnet_createacceptor os port h usr w = acceptor_create os AF_INET port h usr w"

definition evnet_destroyacceptor :: "'k os \<Rightarrow> nat \<Rightarrow> ('h, 'u, 'k, 'a) libnet \<Rightarrow> ('h, 'u, 'k, 'a) libnet option" where
  "evnet_destroyacceptor os a w = acceptor_destroy os a w"

definition evnet_acceptorstart :: "'k os \<Rightarrow> nat \<Rightarrow> ('h, 'u, 'k, 'a) libnet \<Rightarrow> (int \<times> ('h, 'u, 'k, 'a) libnet) option" where
  "evnet_acceptorstart os a w = acceptor_start os a w"

definition evnet_acceptorstop :: "'k os \<Rightarrow> nat \<Rightarrow> ('h, 'u, 'k, 'a) libnet \<Rightarrow> ('h, 'u, 'k, 'a) libnet option" where
  "evnet_acceptorstop os a w = acceptor_stop os a w"

section \<open>Set-up\<close>

definition evnet_uint :: "'k os \<Rightarrow> ('h, 'u, 'k, 'a) libnet \<Rightarrow> ('h, 'u, 'k, 'a) libnet" where
  "evnet_uint os w =
     (if has_loop w then w\<lparr>kernel := sys_close os (epfd w) (kernel w), has_loop := False\<rparr> else w)"

text \<open>\<open>n\<close> is the size of the table of events, \<open>cyc\<close> the time a poll may wait.\<close>

definition evnet_init :: "'k os \<Rightarrow> nat \<Rightarrow> int \<Rightarrow> int \<Rightarrow> ('h, 'u, 'k, 'a) libnet
    \<Rightarrow> (int \<times> ('h, 'u, 'k, 'a) libnet) option" where
  "evnet_init os n cyc flag w =
     (let w0 = w\<lparr>channelHead := 0\<rparr>;
          (ep, k1) = sys_epoll_create os (kernel w0)
      in case aeCreateEventLoop ep n cyc of
           None \<Rightarrow> Some (-1, evnet_uint os (w0\<lparr>kernel := k1, has_loop := False\<rparr>))
         | Some l \<Rightarrow>
             let w1 = w0\<lparr>kernel := k1, evLoop := l, has_loop := True, epfd := ep\<rparr>
             in if flag = 0 then do {
                  let ((r, ends), k2) = ev_pipe os (kernel w1);
                  let w2 = (case ends of
                      None \<Rightarrow> w1\<lparr>kernel := k2\<rparr>
                    | Some (rd, wr) \<Rightarrow> w1\<lparr>kernel := k2, pipe_rd := rd, pipe_wr := wr\<rparr>);
                  (r1, w3) \<leftarrow> add_event os (pipe_rd w2) AE_READABLE Evpipe_Dummy 0 w2;
                  Some (0, w3)
                }
                else Some (0, w1\<lparr>pipe_rd := -1, pipe_wr := -1\<rparr>))"

section \<open>The loop\<close>

text \<open>What the procedures in the table of events stand for.\<close>

definition ev_call :: "'k os \<Rightarrow> ('h, 'u, 'k, 'a) dispatch \<Rightarrow> ev_proc \<Rightarrow> int \<Rightarrow> nat \<Rightarrow> u32 \<Rightarrow> ('h, 'u, 'k, 'a) libnet
    \<Rightarrow> ('h, 'u, 'k, 'a) libnet option" where
  "ev_call os hnd p fd d msk w = (case p of
       Read_Callback \<Rightarrow> read_callback os hnd d w
     | Write_Callback \<Rightarrow> write_callback os hnd d w
     | Accept_Handler \<Rightarrow> accept_handler os hnd d w
     | Evpipe_Dummy \<Rightarrow> map_option (\<lambda>k. w\<lparr>kernel := k\<rparr>) (evpipe_dummy os fd (kernel w)))"

definition net_poll :: "'k os \<Rightarrow> int \<Rightarrow> int \<Rightarrow> ('h, 'u, 'k, 'a) libnet \<Rightarrow> (int \<times> u32) list \<times> ('h, 'u, 'k, 'a) libnet" where
  "net_poll os n tmo w = (let (es, k1) = sys_epoll_wait os n tmo (kernel w) in (es, w\<lparr>kernel := k1\<rparr>))"

definition CROND_INTERVAL :: int where "CROND_INTERVAL = 1"

definition evnet_loop :: "'k os \<Rightarrow> ('h, 'u, 'k, 'a) dispatch \<Rightarrow> ('h, 'u, 'k, 'a) libnet
    \<Rightarrow> ('h, 'u, 'k, 'a) libnet option" where
  "evnet_loop os hnd w = do {
     w1 \<leftarrow> (if has_loop w then map_option snd (aeProcessEvents (net_poll os) evLoop (ev_call os hnd) w) else Some w);
     let (currTime, k1) = sys_time os (kernel w1);
     let w2 = w1\<lparr>kernel := k1\<rparr>;
     if lastCrondTime w2 + CROND_INTERVAL < currTime
     then do { w3 \<leftarrow> channel_crond os hnd w2; Some (w3\<lparr>lastCrondTime := currTime\<rparr>) }
     else Some w2
   }"

definition evnet_size :: "('h, 'u, 'k, 'a) libnet \<Rightarrow> int" where
  "evnet_size w = (if has_loop w then setsize (evLoop w) else 0)"

definition evnet_async :: "'k os \<Rightarrow> ('h, 'u, 'k, 'a) libnet \<Rightarrow> int \<times> ('h, 'u, 'k, 'a) libnet" where
  "evnet_async os w =
     (if pipe_wr w = -1 then (-1, w)
      else let (r, k1) = pipe_write os (pipe_wr w) ''0'' (kernel w) in (0, w\<lparr>kernel := k1\<rparr>))"

section \<open>Dispatching is safe\<close>

text \<open>
  What \<^verbatim>\<open>epoll_wait\<close> reports are descriptors that are watched; events on a descriptor are those it
  is watched for, an error or a hang-up.
\<close>

definition wait_spec :: "'k os \<Rightarrow> ('k \<Rightarrow> kview) \<Rightarrow> bool" where
  "wait_spec os kv \<longleftrightarrow> (\<forall>n t k. \<forall>f \<in> set (fst (sys_epoll_wait os n t k)). fst (kv k) (fst f) \<noteq> None)"

definition in_table :: "int \<Rightarrow> int \<Rightarrow> bool" where
  "in_table N fd \<longleftrightarrow> 0 \<le> fd \<and> fd < N"

lemma in_table_event:
  assumes "net_inv N kv R D w" and "in_table N fd"
  obtains fe where "event_at (evLoop w) fd = Some fe"
proof -
  have "setsize (evLoop w) = int (length (events (evLoop w)))"
    using net_invD(1) [OF assms(1)] by (simp add: ae_inv_def ae_wf_def)
  then show thesis using that net_inv_size [OF assms(1)] assms(2) by (auto simp: event_at_def in_table_def nat_less_iff)
qed

lemma channel_event:
  assumes inv: "net_inv N kv {} {} w" and at: "event_at (evLoop w) fd = Some fe" and c: "channels w a = Some c" "ch_fd c = fd"
    and used: "fe_mask fe \<noteq> AE_NONE"
  shows "clientData fe = Some a" and "bound w a"
    and "fe_mask fe AND AE_READABLE \<noteq> 0 \<Longrightarrow> rfileProc fe = Some Read_Callback"
    and "fe_mask fe AND AE_WRITABLE \<noteq> 0 \<Longrightarrow> wfileProc fe = Some Write_Callback"
  using net_invD(2) [OF inv c(1)] at c used
  by (auto simp: chan_ok_def flag_set_def bound_def FLG_RECV_ENABLED_def FLG_SEND_ENABLED_def ae_masks)

text \<open>Whatever is registered can be called.\<close>

lemma call_inv:
  assumes os: "os_ok os kv sent" and ps: "pipe_spec os unread" and hnd: "handlers_ok N kv hnd"
    and inv: "net_inv N kv {} {} w" and at: "event_at (evLoop w) fd = Some fe"
    and ev: "fe_mask fe AND AE_READABLE \<noteq> 0 \<and> p = rfileProc fe \<or> fe_mask fe AND AE_WRITABLE \<noteq> 0 \<and> p = wfileProc fe"
  shows "\<exists>q d. p = Some q \<and> clientData fe = Some d \<and> returns (ev_call os hnd q fd d msk w) (net_inv N kv {} {})"
proof -
  have spec: "os_spec os kv" using os by (simp add: os_ok_def)
  have used: "fe_mask fe \<noteq> AE_NONE" using ev by (auto simp: AE_NONE_def)
  from net_invD(4) [OF inv at used] show ?thesis
  proof
    assume "\<exists>a c. channels w a = Some c \<and> ch_fd c = fd"
    then obtain a c where c: "channels w a = Some c" "ch_fd c = fd" by blast
    note e = channel_event [OF inv at c used]
    have "returns (read_callback os hnd a w) (net_inv N kv {} {})" "returns (write_callback os hnd a w) (net_inv N kv {} {})"
      using read_callback_inv [OF os hnd inv e(2)] write_callback_inv [OF os hnd inv e(2)] by simp_all
    then show ?thesis using ev e(1,3,4) by (auto simp: ev_call_def)
  next
    assume sv: "served w fd fe"
    then have p: "p = rfileProc fe" using ev by (auto simp: served_def ae_masks)
    consider "rfileProc fe = Some Accept_Handler" "map_option ac_fd (Option.bind (clientData fe) (acceptors w)) = Some fd"
      | "rfileProc fe = Some Evpipe_Dummy" "clientData fe \<noteq> None"
      using sv by (auto simp: served_def)
    then show ?thesis
    proof cases
      case 1
      then obtain a ac where "clientData fe = Some a" "acceptors w a = Some ac"
        by (cases "clientData fe") auto
      then show ?thesis using 1(1) p accept_handler_inv [OF spec hnd inv] by (auto simp: ev_call_def)
    next
      case 2
      obtain k1 where "evpipe_dummy os fd (kernel w) = Some k1" "kv k1 = kv (kernel w)"
        using evpipe_dummy_drains [OF ps spec, of fd "kernel w"] by (auto simp: returns_def)
      then show ?thesis using 2 p net_inv_kernel [OF inv, of k1] by (auto simp: ev_call_def)
    qed
  qed
qed

lemma fire_inv:
  assumes os: "os_ok os kv sent" and ps: "pipe_spec os unread" and hnd: "handlers_ok N kv hnd"
    and inv: "net_inv N kv {} {} w" and fd: "in_table N fd"
  shows "returns (fire evLoop (ev_call os hnd) (fd, msk) w) (net_inv N kv {} {})"
proof -
  note call = call_inv [OF os ps hnd]
  obtain fe where fe: "event_at (evLoop w) fd = Some fe" by (rule in_table_event [OF inv fd])
  let ?m = "if fe_mask fe AND msk AND AE_READABLE \<noteq> 0
        then do { p \<leftarrow> rfileProc fe; d \<leftarrow> clientData fe; s1 \<leftarrow> ev_call os hnd p fd d msk w; Some (True, s1) }
        else Some (False, w)"
  have masks: "m AND (msk AND x) \<noteq> 0 \<Longrightarrow> m AND x \<noteq> 0" for m x :: u32
    by (metis and.left_commute and_zero_eq)
  have "returns ?m (\<lambda>(b, w1). net_inv N kv {} {} w1)"
  proof (cases "fe_mask fe AND msk AND AE_READABLE \<noteq> 0")
    case True
    then have "fe_mask fe AND AE_READABLE \<noteq> 0" by (rule masks)
    then obtain q d where "rfileProc fe = Some q" "clientData fe = Some d" "returns (ev_call os hnd q fd d msk w) (net_inv N kv {} {})"
      using call [OF inv fe, of "rfileProc fe" msk] by auto
    then show ?thesis using True by (auto simp: returns_def)
  qed (use inv in simp)
  then obtain b w1 where w1: "?m = Some (b, w1)" "net_inv N kv {} {} w1" by (auto simp: returns_def)
  obtain fe1 where fe1: "event_at (evLoop w1) fd = Some fe1" by (rule in_table_event [OF w1(2) fd])
  show ?thesis
  proof (cases "fe_mask fe1 AND msk AND AE_WRITABLE \<noteq> 0 \<and> (\<not> b \<or> wfileProc fe1 \<noteq> rfileProc fe1)")
    case True
    then have "fe_mask fe1 AND AE_WRITABLE \<noteq> 0" using masks by blast
    then obtain q d where "wfileProc fe1 = Some q" "clientData fe1 = Some d" "returns (ev_call os hnd q fd d msk w1) (net_inv N kv {} {})"
      using call [OF w1(2) fe1, of "wfileProc fe1" msk] by auto
    then show ?thesis using True fe w1(1) fe1 by (simp add: fire_def)
  next
    case False
    then show ?thesis using fe w1 fe1 by (auto simp: fire_def)
  qed
qed

lemma fire_all_inv:
  assumes os: "os_ok os kv sent" and ps: "pipe_spec os unread" and hnd: "handlers_ok N kv hnd"
  shows "net_inv N kv {} {} w \<Longrightarrow> (\<And>f. f \<in> set fs \<Longrightarrow> in_table N (fst f)) \<Longrightarrow>
    returns (fire_all evLoop (ev_call os hnd) fs w) (\<lambda>(n, w'). n = length fs \<and> net_inv N kv {} {} w')"
proof (induction fs arbitrary: w)
  case (Cons f fs)
  obtain fd msk where f: "f = (fd, msk)" by (cases f)
  have fd: "in_table N fd" using Cons.prems(2) [of f] f by simp
  obtain w1 where w1: "fire evLoop (ev_call os hnd) f w = Some w1" "net_inv N kv {} {} w1"
    using fire_inv [OF os ps hnd Cons.prems(1) fd, of msk] f by (auto simp: returns_def)
  have "returns (fire_all evLoop (ev_call os hnd) fs w1) (\<lambda>(n, w'). n = length fs \<and> net_inv N kv {} {} w')"
    using Cons.IH [OF w1(2)] Cons.prems(2) by simp
  then show ?case using w1(1) by (auto simp: returns_def)
qed simp

lemma wait_specD:
  assumes "wait_spec os kv" and "sys_epoll_wait os n t k = (es, k1)" and "(fd, ev) \<in> set es"
  shows "fst (kv k) fd \<noteq> None"
proof -
  have "\<forall>f \<in> set es. fst (kv k) (fst f) \<noteq> None"
    using assms(1) [unfolded wait_spec_def, THEN spec [of _ n], THEN spec [of _ t], THEN spec [of _ k]] assms(2) by simp
  then show ?thesis using assms(3) by fastforce
qed

lemma watched_in_table:
  assumes "net_inv N kv R D w" and "fst (kv (kernel w)) fd \<noteq> None"
  shows "in_table N fd"
proof -
  have "watched (evLoop w) fd \<noteq> None" "ae_wf (evLoop w)" using net_invD(1) [OF assms(1)] assms(2) by (simp_all add: ae_inv_def)
  then obtain fe where "event_at (evLoop w) fd = Some fe" "ae_wf (evLoop w)" by (auto simp: watched_def split: option.splits)
  then show ?thesis using event_at_Some net_inv_size [OF assms(1)] by (fastforce simp: in_table_def ae_wf_def)
qed

lemma process_inv:
  assumes os: "os_ok os kv sent" and ps: "pipe_spec os unread" and ws: "wait_spec os kv" and hnd: "handlers_ok N kv hnd"
    and inv: "net_inv N kv {} {} w"
  shows "returns (aeProcessEvents (net_poll os) evLoop (ev_call os hnd) w) (\<lambda>(n, w'). net_inv N kv {} {} w')"
proof (cases "maxfd (evLoop w) = -1")
  case False
  have spec: "os_spec os kv" using os by (simp add: os_ok_def)
  let ?n = "setsize (evLoop w)" and ?t = "0 * 1000 + (cycle (evLoop w) * 1000) div 1000"
  obtain es k1 where wt: "sys_epoll_wait os ?n ?t (kernel w) = (es, k1)" by fastforce
  let ?w = "w\<lparr>kernel := k1\<rparr>" and ?fs = "map (\<lambda>(fd, ev). (fd, fired_mask ev)) es"
  have "kv k1 = kv (kernel w)" by (rule os_quiet_calls(2) [OF os_specD(4) [OF spec] wt])
  then have inv1: "net_inv N kv {} {} ?w" by (rule net_inv_kernel [OF inv])
  have "returns (fire_all evLoop (ev_call os hnd) ?fs ?w) (\<lambda>(n, w'). n = length ?fs \<and> net_inv N kv {} {} w')"
  proof (rule fire_all_inv [OF os ps hnd inv1])
    fix f assume "f \<in> set ?fs"
    then obtain fd ev where "f = (fd, fired_mask ev)" "(fd, ev) \<in> set es" by auto
    then show "in_table N (fst f)" using watched_in_table [OF inv wait_specD [OF ws wt]] by simp
  qed
  then show ?thesis
    using False wt by (auto simp: aeProcessEvents_def aeApiPoll_def net_poll_def Let_def elim!: returns_mono)
qed (use inv in \<open>simp add: aeProcessEvents_def\<close>)

lemma lastCrondTime_inv: "net_inv N kv R D w \<Longrightarrow> net_inv N kv R D (w\<lparr>lastCrondTime := t\<rparr>)"
proof -
  assume inv: "net_inv N kv R D w"
  let ?w = "w\<lparr>lastCrondTime := t\<rparr>"
  have so: "same_owned w ?w" by (simp add: same_owned_def)
  show ?thesis
  proof (rule net_inv_others [OF inv])
    show "fds_ok kv ?w" by (rule fds_ok_cong [OF net_invD(5) [OF inv] so]) auto
  qed (use net_invD(1) [OF inv] same_owned_cong(2) [OF so] in simp_all)
qed

lemma loop_inv:
  assumes os: "os_ok os kv sent" and ps: "pipe_spec os unread" and ws: "wait_spec os kv"
    and hnd: "handlers_ok N kv hnd" "close_keeps_ring hnd" and inv: "net_inv N kv {} {} w"
  shows "returns (evnet_loop os hnd w) (net_inv N kv {} {})"
proof -
  have spec: "os_spec os kv" using os by (simp add: os_ok_def)
  let ?m = "if has_loop w then map_option snd (aeProcessEvents (net_poll os) evLoop (ev_call os hnd) w) else Some w"
  have "returns ?m (net_inv N kv {} {})"
    using process_inv [OF os ps ws hnd(1) inv] inv by (auto simp: returns_def)
  then obtain w1 where w1: "?m = Some w1" "net_inv N kv {} {} w1" by (auto simp: returns_def)
  obtain t k1 where tm: "sys_time os (kernel w1) = (t, k1)" by fastforce
  have "kv k1 = kv (kernel w1)" by (rule os_quiet_calls(1) [OF os_specD(4) [OF spec] tm])
  then have inv2: "net_inv N kv {} {} (w1\<lparr>kernel := k1\<rparr>)" by (rule net_inv_kernel [OF w1(2)])
  obtain w3 where w3: "channel_crond os hnd (w1\<lparr>kernel := k1\<rparr>) = Some w3" "net_inv N kv {} {} w3"
    using crond_inv [OF spec hnd inv2] by (auto simp: returns_def)
  then show ?thesis using w1(1) tm inv2 w3(1) lastCrondTime_inv [OF w3(2), of t]
    by (simp add: evnet_loop_def Let_def)
qed

section \<open>Set-up establishes the invariant\<close>

text \<open>The global state before \<^verbatim>\<open>evnet_init\<close>: all zero, nothing watched, descriptor 0 open.\<close>

definition net_fresh :: "('k \<Rightarrow> kview) \<Rightarrow> ('h, 'u, 'k, 'a) libnet \<Rightarrow> bool" where
  "net_fresh kv w \<longleftrightarrow> channels w = Map.empty \<and> acceptors w = Map.empty \<and> 0 < next_free w \<and> pipe_rd w = 0 \<and> pipe_wr w = 0
     \<and> fst (kv (kernel w)) = (\<lambda>_. None) \<and> 0 \<in> snd (kv (kernel w))"

lemma fresh_inv:
  assumes "channels w = Map.empty" "acceptors w = Map.empty" "0 < next_free w" "channelHead w = 0"
    and "evLoop w = ae_fresh_loop n cyc" and "fst (kv (kernel w)) = (\<lambda>_. None)"
    and "{pipe_rd w, pipe_wr w} - {-1} \<subseteq> snd (kv (kernel w))"
  shows "net_inv (int n) kv {} {} w"
proof (rule net_invI [of w _ kv "[]"])
  show "setsize (evLoop w) = int n" using assms(5) by (simp add: ae_fresh_loop_def)
  show "ae_inv (\<lambda>k. fst (kv k)) (evLoop w, kernel w)"
    using ae_inv_init [of "\<lambda>k. fst (kv k)" "kernel w" n cyc] assms(5,6) by simp
  show "(\<exists>a c. channels w a = Some c \<and> ch_fd c = fd) \<or> served w fd fe"
    if "event_at (evLoop w) fd = Some fe" "fe_mask fe \<noteq> AE_NONE" for fd fe
    using that assms(5) by (auto simp: event_at_def ae_fresh_loop_def split: if_splits)
  show "fds_ok kv w" using assms(1,2,7) by (auto simp: fds_ok_def owned_def acceptors_ok_def)
qed (use assms in \<open>auto simp: channel_ring_def ring_def\<close>)

lemma init_inv:
  assumes os: "os_spec os kv" and w: "net_fresh kv w"
  shows "returns (evnet_init os n cyc flag w) (\<lambda>(r, w'). (r = 0 \<or> r = -1) \<and> (r = 0 \<longrightarrow> has_loop w' \<and> net_inv (int n) kv {} {} w'))"
proof -
  obtain ep k1 where ec: "sys_epoll_create os (kernel w) = (ep, k1)" by fastforce
  show ?thesis
  proof (cases "ep = -1")
    case True
    then show ?thesis using ec by (simp add: evnet_init_def aeCreateEventLoop_def Let_def)
  next
    case False
    let ?w1 = "w\<lparr>channelHead := 0, kernel := k1, evLoop := ae_fresh_loop n cyc, has_loop := True, epfd := ep\<rparr>"
    have k1: "fst (kv k1) = (\<lambda>_. None)" "0 \<in> snd (kv k1)"
      using os_opensD(4) [OF os ec] False w by (auto simp: new_fd_def net_fresh_def)
    note fr = w [unfolded net_fresh_def]
    show ?thesis
    proof (cases "flag = 0")
      case True
      obtain r ends k2 where ep2: "ev_pipe os k1 = ((r, ends), k2)" by (metis surj_pair)
      let ?w2 = "case ends of None \<Rightarrow> ?w1\<lparr>kernel := k2\<rparr> | Some (rd, wr) \<Rightarrow> ?w1\<lparr>kernel := k2, pipe_rd := rd, pipe_wr := wr\<rparr>"
      have inv: "net_inv (int n) kv {} {} ?w2 \<and> 0 \<le> pipe_rd ?w2 \<and> has_loop ?w2"
      proof (cases "r = 0")
        case True
        then obtain rd wr k0 where e: "ends = Some (rd, wr)" "new_fd kv rd k1 k0" "new_fd kv wr k0 k2"
          using ev_pipe_fds [OF os ep2] by auto
        have "net_inv (int n) kv {} {} (?w1\<lparr>kernel := k2, pipe_rd := rd, pipe_wr := wr\<rparr>)"
          by (rule fresh_inv) (use fr k1 e in \<open>auto simp: new_fd_def\<close>)
        then show ?thesis using e by (simp add: new_fd_def)
      next
        case False
        then have e: "ends = None" "kv k2 = kv k1" using ev_pipe_fds [OF os ep2] by simp_all
        have "net_inv (int n) kv {} {} (?w1\<lparr>kernel := k2\<rparr>)"
          by (rule fresh_inv) (use fr k1 e in auto)
        then show ?thesis using e fr by simp
      qed
      then have "pipe_rd ?w2 \<in> owned ?w2" by (auto simp: owned_def)
      then have "returns (add_event os (pipe_rd ?w2) AE_READABLE Evpipe_Dummy 0 ?w2) (\<lambda>(r, w'). net_inv (int n) kv {} {} w'
          \<and> acceptors w' = acceptors ?w2 \<and> channels w' = channels ?w2 \<and> app w' = app ?w2)"
        using inv by (intro serve_inv [OF os]) (auto simp: served_def)
      then obtain r1 w3 where w3: "add_event os (pipe_rd ?w2) AE_READABLE Evpipe_Dummy 0 ?w2 = Some (r1, w3)"
        "net_inv (int n) kv {} {} w3" by (auto simp: returns_def)
      have "has_loop w3" using w3(1) inv by (auto simp: add_event_def Option.bind_eq_Some_conv)
      then show ?thesis using True False ec ep2 w3
        by (simp add: evnet_init_def aeCreateEventLoop_def Let_def)
    next
      case flag: False
      have "net_inv (int n) kv {} {} (?w1\<lparr>pipe_rd := -1, pipe_wr := -1\<rparr>)"
        by (rule fresh_inv) (use fr k1 in auto)
      then show ?thesis using False flag ec by (simp add: evnet_init_def aeCreateEventLoop_def Let_def)
    qed
  qed
qed

end
