(* ===== verification/Event_Props.thy ===== *)
theory Event_Props
  imports Event_Loop
begin

text \<open>
  The runs of the event loop and its properties: the table and the kernel agree in every
  reachable state, and a handler is called only for what it is registered for.
\<close>

section \<open>Runs\<close>

text \<open>The operations that the rest of the library performs on the loop.\<close>

inductive ae_step :: "'k epoll_ctl \<Rightarrow> ('p, 'd) aeEventLoop \<times> 'k \<Rightarrow> ('p, 'd) aeEventLoop \<times> 'k \<Rightarrow> bool"
  for ctl :: "'k epoll_ctl" where
  create: "aeCreateFileEvent ctl fd msk p d s = Some (r, s') \<Longrightarrow> 0 \<le> fd \<Longrightarrow> msk \<noteq> AE_NONE \<Longrightarrow> ae_step ctl s s'"
| delete: "aeDeleteFileEvent ctl fd msk s = Some s' \<Longrightarrow> 0 \<le> fd \<Longrightarrow> ae_step ctl s s'"

inductive_cases ae_stepE: "ae_step ctl s s'"

lemma ae_step_inv:
  assumes "epoll_spec ctl interest" and "ae_step ctl s s'" and "ae_inv interest s"
  shows "ae_inv interest s'"
  using assms(2)
proof (cases rule: ae_step.cases)
  case (create fd msk p d r)
  then show ?thesis using create_correct [OF assms(1), of "fst s" "snd s" fd msk p d] assms(3) by auto
next
  case (delete fd msk)
  then show ?thesis using delete_correct [OF assms(1), of "fst s" "snd s" fd msk] assms(3) by auto
qed

lemma ae_steps_inv:
  assumes "epoll_spec ctl interest" and "(ae_step ctl)\<^sup>*\<^sup>* s s'" and "ae_inv interest s"
  shows "ae_inv interest s'"
  using assms(2,3) by (induction rule: rtranclp_induct) (auto intro: ae_step_inv [OF assms(1)])

lemma ae_wf_bounds:
  assumes "ae_wf l"
  shows "-1 \<le> maxfd l" and "maxfd l < setsize l \<or> setsize l = 0 \<and> maxfd l = -1"
    and "watched l fd \<noteq> None \<Longrightarrow> fd \<le> maxfd l"
proof -
  let ?n = "length (events l)"
  have m: "maxfd l = last_registered (events l) ?n" "setsize l = int ?n" using assms by (simp_all add: ae_wf_def)
  then show "-1 \<le> maxfd l" and "maxfd l < setsize l \<or> setsize l = 0 \<and> maxfd l = -1"
    using last_registered_ge [of "events l" ?n] last_registered_less [of "events l" ?n] by auto
  assume "watched l fd \<noteq> None"
  then have fd: "0 \<le> fd" "nat fd < ?n" "fe_mask (events l ! nat fd) \<noteq> AE_NONE"
    using event_at_Some by (auto simp: watched_def split: option.splits if_splits)
  show "fd \<le> maxfd l"
  proof (rule ccontr)
    assume "\<not> fd \<le> maxfd l"
    then show False using last_registered_above [of "events l" ?n "nat fd"] fd m by simp
  qed
qed

section \<open>Guarded handlers\<close>

definition registered_for :: "('p, 'd) aeEventLoop \<Rightarrow> 'p \<Rightarrow> int \<Rightarrow> 'd \<Rightarrow> u32 \<Rightarrow> bool" where
  "registered_for l p fd d msk \<longleftrightarrow> (case event_at l fd of
       None \<Rightarrow> False
     | Some fe \<Rightarrow> clientData fe = Some d
         \<and> (rfileProc fe = Some p \<and> fe_mask fe AND msk AND AE_READABLE \<noteq> 0
            \<or> wfileProc fe = Some p \<and> fe_mask fe AND msk AND AE_WRITABLE \<noteq> 0))"

text \<open>The same handlers, but one that is called without being registered gets stuck.\<close>

definition guarded :: "('s \<Rightarrow> ('p, 'd) aeEventLoop) \<Rightarrow> ('p \<Rightarrow> int \<Rightarrow> 'd \<Rightarrow> u32 \<Rightarrow> 's \<Rightarrow> 's option)
    \<Rightarrow> 'p \<Rightarrow> int \<Rightarrow> 'd \<Rightarrow> u32 \<Rightarrow> 's \<Rightarrow> 's option" where
  "guarded get call p fd d msk s = (if registered_for (get s) p fd d msk then call p fd d msk s else None)"

lemma fire_guarded: "fire get (guarded get call) f s = fire get call f s"
proof (cases f)
  case (Pair fd msk)
  have r: "guarded get call p fd d msk s1 = call p fd d msk s1"
    if "event_at (get s1) fd = Some fe" "clientData fe = Some d" "rfileProc fe = Some p" "fe_mask fe AND msk AND AE_READABLE \<noteq> 0"
    for p d fe s1 using that by (simp add: guarded_def registered_for_def)
  have w: "guarded get call p fd d msk s1 = call p fd d msk s1"
    if "event_at (get s1) fd = Some fe" "clientData fe = Some d" "wfileProc fe = Some p" "fe_mask fe AND msk AND AE_WRITABLE \<noteq> 0"
    for p d fe s1 using that by (simp add: guarded_def registered_for_def)
  show ?thesis
    unfolding Pair fire_def using r w
    by (auto intro!: Option.bind_cong split: if_splits)
qed

lemma fire_all_guarded: "fire_all get (guarded get call) fs s = fire_all get call fs s"
  by (induction fs arbitrary: s) (simp_all add: fire_guarded)

section \<open>A kernel\<close>

text \<open>A kernel that behaves as documented, for the witnesses: the map of watched descriptors.\<close>

definition map_ctl :: "(int \<Rightarrow> u32 option) epoll_ctl" where
  "map_ctl op fd ev k =
     (if (op = EPOLL_CTL_ADD) = (k fd = None) then (0, k(fd := if op = EPOLL_CTL_DEL then None else Some ev))
      else (-1, k))"

lemma map_ctl_spec: "epoll_spec map_ctl (\<lambda>k. k)"
  by (auto simp: epoll_spec_def map_ctl_def)

section \<open>Properties\<close>



text \<open>
  C25. Registering an event on a descriptor that fits the table returns 0 or -1; with -1 the loop is
  as before, with 0 the handler is registered for the event and everything registered before still is.
\<close>

theorem ae_create_correct:
  assumes "epoll_spec ctl interest" and "ae_inv interest (l, k)" and "0 \<le> fd" and "msk \<noteq> AE_NONE"
    and "aeCreateFileEvent ctl fd msk p d (l, k) = Some (r, l1, k1)"
  shows "ae_inv interest (l1, k1) \<and> (r = -1 \<and> l1 = l \<or> r = 0 \<and> fd < setsize l
    \<and> (\<exists>fe. event_at l1 fd = Some fe \<and> fe_mask fe AND msk = msk \<and> clientData fe = Some d
        \<and> (msk AND AE_READABLE \<noteq> 0 \<longrightarrow> rfileProc fe = Some p) \<and> (msk AND AE_WRITABLE \<noteq> 0 \<longrightarrow> wfileProc fe = Some p))
    \<and> (\<forall>fd1. fd1 \<noteq> fd \<longrightarrow> event_at l1 fd1 = event_at l fd1))"
proof -
  have 1: "ae_inv interest (l1, k1)" "r = -1 \<Longrightarrow> l1 = l" "r \<noteq> -1 \<Longrightarrow> fd < setsize l"
    using create_correct [OF assms(1-4), of p d] assms(5) by auto
  show ?thesis
  proof (cases "r = -1")
    case True
    then show ?thesis using 1 by simp
  next
    case False
    have fd: "0 \<le> fd" "nat fd < length (events l)"
      using 1(3) [OF False] assms(2,3) by (auto simp: ae_inv_def ae_wf_def)
    have m: "(a OR msk) AND msk = msk" for a by (simp add: word_ao_absorbs)
    have at: "event_at l fd = Some (events l ! nat fd)" using fd by (simp add: event_at_def)
    obtain r2 k2 where api: "aeApiAddEvent ctl (events l ! nat fd) fd msk k = (r2, k2)" by fastforce
    show ?thesis
    proof (intro conjI disjI2)
      show "ae_inv interest (l1, k1)" "fd < setsize l" using 1 False by simp_all
      show "r = 0" using assms(5) False at api 1(3) by (simp add: aeCreateFileEvent_def Let_def split: if_splits)
      show "\<forall>fd1. fd1 \<noteq> fd \<longrightarrow> event_at l1 fd1 = event_at l fd1"
        using assms(5) False at api fd
        by (auto simp: aeCreateFileEvent_def Let_def event_at_set split: if_splits)
      show "\<exists>fe. event_at l1 fd = Some fe \<and> fe_mask fe AND msk = msk \<and> clientData fe = Some d
        \<and> (msk AND AE_READABLE \<noteq> 0 \<longrightarrow> rfileProc fe = Some p) \<and> (msk AND AE_WRITABLE \<noteq> 0 \<longrightarrow> wfileProc fe = Some p)"
        using assms(5) False at api fd m
        by (auto simp: aeCreateFileEvent_def Let_def event_at_set split: if_splits)
    qed
  qed
qed

theorem ae_create_correct_witness:
  "\<exists>r l1 k1. aeCreateFileEvent map_ctl 3 AE_READABLE True () (ae_fresh_loop 8 1, (\<lambda>_. None)) = Some (r, l1, k1)
    \<and> ae_inv (\<lambda>k. k) (l1, k1)"
proof -
  let ?l = "ae_fresh_loop 8 1 :: (bool, unit) aeEventLoop" and ?k = "(\<lambda>_. None) :: int \<Rightarrow> u32 option"
  have inv: "ae_inv (\<lambda>k. k) (?l, ?k)" by (rule ae_inv_init) simp
  obtain r l1 k1 where c: "aeCreateFileEvent map_ctl 3 AE_READABLE True () (?l, ?k) = Some (r, l1, k1)"
    using create_correct [OF map_ctl_spec inv, of 3 AE_READABLE True "()"] by (auto simp: ae_masks)
  show ?thesis using ae_create_correct [OF map_ctl_spec inv _ _ c] c by (auto simp: ae_masks)
qed

text \<open>
  C26. Dispatching calls a handler only if, at the moment of the call, it is registered on the
  descriptor for an event that was reported, even when earlier handlers of the same round have
  changed the table: handlers that get stuck when called otherwise make no difference.
\<close>

theorem ae_calls_only_registered:
  "aeProcessEvents poll get (guarded get call) s = aeProcessEvents poll get call s"
  by (simp add: aeProcessEvents_def fire_all_guarded split: prod.split)

text \<open>
  C27. An error or a hang-up that is reported alone, for a descriptor registered only for reading,
  is turned into a write event and calls nobody: the descriptor is reported again and again.
\<close>

theorem ae_error_unhandled:
  assumes "event_at (get s) fd = Some fe" and "fe_mask fe = AE_READABLE" and "ev AND EPOLLIN = 0"
  shows "fire get call (fd, fired_mask ev) s = Some s"
proof -
  have "fired_mask ev AND AE_READABLE = 0"
    using assms(3) by (simp add: fired_mask_def ae_masks bit.conj_disj_distrib2)
  then have "AE_READABLE AND fired_mask ev AND AE_READABLE = 0" by (simp add: and.assoc)
  moreover have "AE_READABLE AND fired_mask ev AND AE_WRITABLE = 0"
  proof -
    have "AE_READABLE AND x AND AE_WRITABLE = x AND (AE_READABLE AND AE_WRITABLE)" for x
      by (simp only: ac_simps)
    then show ?thesis by (simp add: ae_masks)
  qed
  ultimately show ?thesis using assms(1,2) by (simp add: fire_def)
qed

definition ae_example :: "(bool, unit) aeEventLoop" where
  "ae_example = set_event (ae_fresh_loop 8 1) 3
     \<lparr>fe_mask = AE_READABLE, rfileProc = Some True, wfileProc = None, clientData = Some ()\<rparr>"

theorem ae_error_unhandled_witness:
  "fire (\<lambda>s. s) (\<lambda>p fd d m s. None) (3, fired_mask EPOLLERR) ae_example = Some ae_example"
proof (rule ae_error_unhandled)
  show "event_at ae_example 3 =
      Some \<lparr>fe_mask = AE_READABLE, rfileProc = Some True, wfileProc = None, clientData = Some ()\<rparr>"
    unfolding ae_example_def by (subst event_at_set) (simp_all add: ae_fresh_loop_def)
qed (simp_all add: epoll_bits)

end
