(* ===== verification/Libnet_Runs.thy ===== *)
theory Libnet_Runs
  imports Libnet Event_Props
begin

text \<open>
  Runs of the library: rounds of the event loop in between which the application calls the
  functions of \<^verbatim>\<open>evfunclib.h\<close>. In every reachable state the invariant holds, so that the next round
  returns and no handler is given a channel or acceptor that is gone.
\<close>

section \<open>Runs\<close>

text \<open>
  The calls an application may make between two rounds: on channels and acceptors that exist,
  with an address text that fits, with room in the queue, and destroying an acceptor only after
  stopping it.
\<close>

inductive net_step :: "'k os \<Rightarrow> ('h, 'u, 'k, 'a) dispatch \<Rightarrow> ('h, 'u, 'k, 'a) libnet \<Rightarrow> ('h, 'u, 'k, 'a) libnet \<Rightarrow> bool"
  for os :: "'k os" and hnd :: "('h, 'u, 'k, 'a) dispatch" where
  loop: "evnet_loop os hnd w = Some w' \<Longrightarrow> net_step os hnd w w'"
| create: "evnet_createchannel os ip port w = Some (c, w') \<Longrightarrow> length ip < IPSTRSIZE \<Longrightarrow> net_step os hnd w w'"
| bind: "evnet_channelbind os c h tmo usr w = Some (ok, w') \<Longrightarrow> net_step os hnd w w'"
| send: "evnet_channelsend os a data w = Some (ok, w') \<Longrightarrow> channels w a = Some c \<Longrightarrow> ch_handler c \<noteq> None \<Longrightarrow>
    dq_insert_ok (outDataqueue c) (length data) \<Longrightarrow> net_step os hnd w w'"
| close: "evnet_closechannel os hnd c e w = Some w' \<Longrightarrow> net_step os hnd w w'"
| acceptor: "evnet_createacceptor os port h usr w = (a, w') \<Longrightarrow> net_step os hnd w w'"
| start: "evnet_acceptorstart os a w = Some (r, w') \<Longrightarrow> net_step os hnd w w'"
| stop: "evnet_acceptorstop os a w = Some w' \<Longrightarrow> net_step os hnd w w'"
| destroy: "evnet_destroyacceptor os a w = Some w' \<Longrightarrow> acceptors w a = Some ac \<Longrightarrow>
    watched (evLoop w) (ac_fd ac) = None \<Longrightarrow> net_step os hnd w w'"
| async: "evnet_async os w = (r, w') \<Longrightarrow> net_step os hnd w w'"

inductive_cases net_stepE: "net_step os hnd w w'"

lemma upstream_inv:
  assumes os: "os_spec os kv" and inv: "net_inv N kv R D w" and ip: "length ip < IPSTRSIZE"
  shows "returns (upstream_channel os ip port w) (\<lambda>(a, w'). net_inv N kv R D w'
    \<and> (a \<noteq> 0 \<longrightarrow> channels w a = None \<and> a \<in> dom (channels w')))"
proof -
  obtain fd k1 where cr: "aesoccreate os (if isIPv6Addr ip then AF_INET6 else AF_INET) False (kernel w) = (fd, k1)"
    by fastforce
  note fd = aesoccreate_fd [OF os cr]
  show ?thesis
  proof (cases "fd = INVALIDFD")
    case True
    then show ?thesis using cr fd net_inv_kernel [OF inv, of k1] by (simp add: upstream_channel_def)
  next
    case False
    then have new: "new_fd kv fd (kernel w) k1" using fd by simp
    obtain a w2 where w2: "channel_create fd ip port True (w\<lparr>kernel := k1\<rparr>) = Some (a, w2)" "net_inv N kv R D w2"
      "channels (w\<lparr>kernel := k1\<rparr>) a = None" "a \<in> dom (channels w2)"
      using create_inv [OF net_inv_open [OF inv new] ip, of port True] by blast
    then show ?thesis using False cr by (simp add: upstream_channel_def)
  qed
qed

lemma async_inv:
  assumes "os_spec os kv" and "net_inv N kv R D w" and "evnet_async os w = (r, w')"
  shows "net_inv N kv R D w'"
proof (cases "pipe_wr w = -1")
  case False
  obtain r1 k1 where wr: "sys_write os (pipe_wr w) ''0'' (kernel w) = (r1, k1)" by fastforce
  then have "kv k1 = kv (kernel w)" by (rule os_quiet_calls(12) [OF os_specD(4) [OF assms(1)]])
  then show ?thesis using False wr assms(3) net_inv_kernel [OF assms(2), of k1] by (auto simp: evnet_async_def pipe_write_def)
qed (use assms(2,3) in \<open>simp add: evnet_async_def\<close>)

lemma returnsD: "returns m P \<Longrightarrow> m = Some x \<Longrightarrow> P x"
  by (simp add: returns_def)

text \<open>What the runs rely on: the kernel as documented, and handlers that keep their contract.\<close>

definition evnet_env :: "'k os \<Rightarrow> ('k \<Rightarrow> kview) \<Rightarrow> ('k \<Rightarrow> int \<Rightarrow> byte list) \<Rightarrow> ('k \<Rightarrow> int \<Rightarrow> nat) \<Rightarrow> int
    \<Rightarrow> ('h, 'u, 'k, 'a) dispatch \<Rightarrow> bool" where
  "evnet_env os kv sent unread N hnd \<longleftrightarrow> os_ok os kv sent \<and> pipe_spec os unread \<and> wait_spec os kv
     \<and> handlers_ok N kv hnd \<and> close_keeps_ring hnd"

lemma evnet_envD:
  assumes "evnet_env os kv sent unread N hnd"
  shows "os_ok os kv sent" and "pipe_spec os unread" and "wait_spec os kv" and "handlers_ok N kv hnd"
    and "close_keeps_ring hnd" and "os_spec os kv"
  using assms by (simp_all add: evnet_env_def os_ok_def)

lemma step_inv:
  assumes env: "evnet_env os kv sent unread N hnd" and step: "net_step os hnd w w'" and inv: "net_inv N kv {} {} w"
  shows "net_inv N kv {} {} w'"
  using step
proof (cases rule: net_step.cases)
  case loop
  then show ?thesis using loop_inv [OF evnet_envD(1-5) [OF env] inv] by (simp add: returns_def)
next
  case (create ip port c)
  then show ?thesis using upstream_inv [OF evnet_envD(6) [OF env] inv, of ip port] by (auto simp: evnet_createchannel_def returns_def)
next
  case (bind c h tmo usr ok)
  then have c: "c \<in> dom (channels w)" by (auto simp: evnet_channelbind_def channel_bind_def Option.bind_eq_Some_conv)
  then show ?thesis using bind_inv [OF evnet_envD(6) [OF env] inv c, of h tmo usr] bind by (auto simp: evnet_channelbind_def returns_def)
next
  case (send a data ok c)
  then show ?thesis using send_inv [OF evnet_envD(6) [OF env] inv, of a c data] by (auto simp: evnet_channelsend_def returns_def)
next
  case (close c e)
  then have c: "c \<in> dom (channels w)" by (auto simp: evnet_closechannel_def channel_close_def Option.bind_eq_Some_conv)
  then show ?thesis using close_inv [OF evnet_envD(6) [OF env] evnet_envD(4) [OF env] inv c, of e] close by (simp add: evnet_closechannel_def returns_def)
next
  case (acceptor port h usr a)
  then show ?thesis using acceptor_create_inv [OF evnet_envD(6) [OF env] inv, of AF_INET port h usr a w'] by (simp add: evnet_createacceptor_def)
next
  case (start a r)
  then obtain ac where ac: "acceptors w a = Some ac" by (auto simp: evnet_acceptorstart_def acceptor_start_def Option.bind_eq_Some_conv)
  then show ?thesis using acceptor_start_inv [OF evnet_envD(6) [OF env] inv ac] start by (auto simp: evnet_acceptorstart_def returns_def)
next
  case (stop a)
  then obtain ac where ac: "acceptors w a = Some ac" by (auto simp: evnet_acceptorstop_def acceptor_stop_def Option.bind_eq_Some_conv)
  then show ?thesis using acceptor_stop_inv [OF evnet_envD(6) [OF env] inv ac] stop by (auto simp: evnet_acceptorstop_def returns_def)
next
  case (destroy a ac)
  then show ?thesis using acceptor_destroy_inv [OF evnet_envD(6) [OF env] inv destroy(2,3)] by (simp add: evnet_destroyacceptor_def returns_def)
next
  case (async r)
  then show ?thesis using async_inv [OF evnet_envD(6) [OF env] inv] by simp
qed

lemma steps_inv:
  assumes env: "evnet_env os kv sent unread N hnd" and "(net_step os hnd)\<^sup>*\<^sup>* w w'" and "net_inv N kv {} {} w"
  shows "net_inv N kv {} {} w'"
  using assms(2,3) by (induction rule: rtranclp_induct) (auto intro: step_inv [OF env])

text \<open>From a state that \<^verbatim>\<open>evnet_init\<close> has set up.\<close>

lemma reachable_inv:
  assumes env: "evnet_env os kv sent unread (int n) hnd" and "net_fresh kv w0"
    and "evnet_init os n cyc flag w0 = Some (0, w1)" and "(net_step os hnd)\<^sup>*\<^sup>* w1 w"
  shows "net_inv (int n) kv {} {} w"
  using steps_inv [OF env assms(4)] init_inv [OF evnet_envD(6) [OF env] assms(2), of n cyc flag] assms(3)
  by (auto simp: returns_def)

lemma next_round:
  assumes env: "evnet_env os kv sent unread N hnd" and "net_inv N kv {} {} w"
  shows "\<exists>w'. evnet_loop os hnd w = Some w' \<and> net_inv N kv {} {} w'"
  using loop_inv [OF evnet_envD(1-5) [OF env] assms(2)] by (auto simp: returns_def)

end
