(* ===== verification/Sim_Kernel.thy ===== *)
theory Sim_Kernel
  imports Libnet_Runs
begin

text \<open>
  A small kernel that behaves as documented, and the smallest server on top of the library, one
  that discards what it receives: the contracts of the runs can be met, and runs can be computed.
\<close>

section \<open>The kernel\<close>

text \<open>
  Descriptors are handed out in order and never again. \<open>sk_ready\<close> is what happens on them,
  \<open>sk_in\<close> what they deliver, \<open>sk_sent\<close> what they took, \<open>sk_backlog\<close> the waiting connections.
\<close>

record sim_kernel =
  sk_watch :: "int \<Rightarrow> u32 option"
  sk_open :: "int set"
  sk_next :: int
  sk_ready :: "(int \<times> u32) list"
  sk_in :: "int \<Rightarrow> byte list"
  sk_sent :: "int \<Rightarrow> byte list"
  sk_backlog :: nat
  sk_pipe :: nat
  sk_clock :: int

definition sim_interest :: "sim_kernel \<Rightarrow> int \<Rightarrow> u32 option" where
  "sim_interest k fd = (if 0 \<le> fd \<and> fd < sk_next k then sk_watch k fd else None)"

definition sim_kv :: "sim_kernel \<Rightarrow> kview" where
  "sim_kv k = (sim_interest k, sk_open k \<inter> {0..<sk_next k})"

definition sim_ctl :: "sim_kernel epoll_ctl" where
  "sim_ctl op fd ev k =
     (if 0 \<le> fd \<and> fd < sk_next k
      then let (r, m) = map_ctl op fd ev (sk_watch k) in (r, k\<lparr>sk_watch := m\<rparr>)
      else (-1, k))"

definition sim_new :: "sim_kernel \<Rightarrow> int \<times> sim_kernel" where
  "sim_new k = (if 0 \<le> sk_next k
     then (sk_next k, k\<lparr>sk_open := insert (sk_next k) (sk_open k), sk_watch := (sk_watch k)(sk_next k := None), sk_next := sk_next k + 1\<rparr>)
     else (-1, k))"

definition sim_accept :: "int \<Rightarrow> sim_kernel \<Rightarrow> (int \<times> errno \<times> byte list \<times> u16) \<times> sim_kernel" where
  "sim_accept s k = (if sk_backlog k = 0 then ((-1, EWOULDBLOCK, [], 0), k)
     else let (fd, k1) = sim_new (k\<lparr>sk_backlog := sk_backlog k - 1\<rparr>) in ((fd, EOTHER, ''10.0.0.1'', 4711), k1))"

definition sim_recv :: "int \<Rightarrow> nat \<Rightarrow> sim_kernel \<Rightarrow> (int \<times> errno \<times> byte list) \<times> sim_kernel" where
  "sim_recv fd n k = (let b = take n (sk_in k fd)
     in if b = [] then ((-1, EWOULDBLOCK, []), k)
        else ((int (length b), EOTHER, b), k\<lparr>sk_in := (sk_in k)(fd := drop n (sk_in k fd))\<rparr>))"

text \<open>\<^verbatim>\<open>send\<close> takes at most four bytes.\<close>

definition sim_send :: "int \<Rightarrow> byte list \<Rightarrow> sim_kernel \<Rightarrow> (int \<times> errno) \<times> sim_kernel" where
  "sim_send fd buf k = (let b = take 4 buf in ((int (length b), EOTHER), k\<lparr>sk_sent := (sk_sent k)(fd := sk_sent k fd @ b)\<rparr>))"

definition sim_mkpipe :: "sim_kernel \<Rightarrow> (int \<times> int \<times> int) \<times> sim_kernel" where
  "sim_mkpipe k = (if 0 \<le> sk_next k
     then let (rd, k1) = sim_new k; (wr, k2) = sim_new k1 in ((0, rd, wr), k2) else ((-1, 0, 0), k))"

definition sim_read :: "int \<Rightarrow> nat \<Rightarrow> sim_kernel \<Rightarrow> int \<times> sim_kernel" where
  "sim_read fd n k = (int (min n (sk_pipe k)), k\<lparr>sk_pipe := sk_pipe k - n\<rparr>)"

definition sim_os :: "sim_kernel os" where
  "sim_os = \<lparr>
     sys_epoll_ctl = sim_ctl,
     sys_epoll_create = sim_new,
     sys_epoll_wait = (\<lambda>n t k. (filter (\<lambda>f. sim_interest k (fst f) \<noteq> None) (sk_ready k), k)),
     sys_socket = (\<lambda>f. sim_new),
     sys_reuseaddr = (\<lambda>fd k. (0, k)),
     sys_getfl = (\<lambda>fd k. (0, k)),
     sys_setfl = (\<lambda>fd f k. (0, k)),
     sys_connect = (\<lambda>fd v ip port k. ((-1, EINPROGRESS), k)),
     sys_bind = (\<lambda>fd port k. (0, k)),
     sys_listen = (\<lambda>fd n k. (0, k)),
     sys_accept = sim_accept,
     sys_recv = sim_recv,
     sys_send = sim_send,
     sys_close = (\<lambda>fd k. k\<lparr>sk_watch := (sk_watch k)(fd := None), sk_open := sk_open k - {fd}\<rparr>),
     sys_pipe = sim_mkpipe,
     sys_read = sim_read,
     sys_write = (\<lambda>fd b k. (int (length b), k\<lparr>sk_pipe := sk_pipe k + length b\<rparr>)),
     sys_time = (\<lambda>k. (sk_clock k, k\<lparr>sk_clock := sk_clock k + 1\<rparr>))\<rparr>"

lemma sim_new_fd: "sim_new k = (fd, k1) \<Longrightarrow> if fd = -1 then sim_kv k1 = sim_kv k else new_fd sim_kv fd k k1"
  by (auto simp: sim_new_def new_fd_def sim_kv_def sim_interest_def fun_eq_iff split: if_splits)

lemma sim_ctl_spec: "epoll_spec sim_ctl sim_interest"
  by (auto simp: epoll_spec_def sim_ctl_def sim_interest_def map_ctl_def Let_def fun_eq_iff split: prod.splits if_splits)

lemma sim_quiet: "os_quiet sim_os sim_kv"
  by (auto simp: os_quiet_def sim_os_def sim_kv_def sim_interest_def sim_recv_def sim_send_def sim_read_def Let_def)

lemma sim_opens: "os_opens sim_os sim_kv"
proof -
  note new = sim_new_fd
  have "case sim_new k of (fd, k1) \<Rightarrow> if fd = -1 then sim_kv k1 = sim_kv k else new_fd sim_kv fd k k1" for k
    using new [of k] by (simp split: prod.splits)
  moreover have "case sim_accept s k of ((fd, e, ip, port), k1) \<Rightarrow>
      if fd = -1 then sim_kv k1 = sim_kv k else new_fd sim_kv fd k k1 \<and> length ip < 128" for s k
  proof (cases "sk_backlog k = 0")
    case False
    obtain fd k1 where n: "sim_new (k\<lparr>sk_backlog := sk_backlog k - 1\<rparr>) = (fd, k1)" by fastforce
    have "sim_kv (k\<lparr>sk_backlog := sk_backlog k - 1\<rparr>) = sim_kv k" by (simp add: sim_kv_def sim_interest_def fun_eq_iff)
    then show ?thesis using new [OF n] False n by (auto simp: sim_accept_def new_fd_def)
  qed (simp add: sim_accept_def)
  moreover have "case sim_mkpipe k of ((r, rd, wr), k1) \<Rightarrow>
      if r = 0 then \<exists>k0. new_fd sim_kv rd k k0 \<and> new_fd sim_kv wr k0 k1 else sim_kv k1 = sim_kv k" for k
  proof (cases "0 \<le> sk_next k")
    case True
    obtain rd k0 where a: "sim_new k = (rd, k0)" by fastforce
    obtain wr k1 where b: "sim_new k0 = (wr, k1)" by fastforce
    have "rd \<noteq> -1" "wr \<noteq> -1" using True a b by (auto simp: sim_new_def)
    then show ?thesis using new [OF a] new [OF b] True a b by (auto simp: sim_mkpipe_def)
  qed (simp add: sim_mkpipe_def)
  ultimately show ?thesis by (simp add: os_opens_def sim_os_def)
qed

lemma sim_os_ok: "os_ok sim_os sim_kv sk_sent"
proof -
  have "epoll_spec (sys_epoll_ctl sim_os) (\<lambda>k. fst (sim_kv k))" using sim_ctl_spec by (simp add: sim_os_def sim_kv_def)
  moreover have "snd (sim_kv (snd (sys_epoll_ctl sim_os op fd ev k))) = snd (sim_kv k)" for op fd ev k
    by (simp add: sim_os_def sim_kv_def sim_ctl_def Let_def split: prod.split)
  moreover have "sim_kv (sys_close sim_os fd k) = ((fst (sim_kv k))(fd := None), snd (sim_kv k) - {fd})" for fd k
    by (auto simp: sim_os_def sim_kv_def sim_interest_def fun_eq_iff)
  ultimately have "os_spec sim_os sim_kv" using sim_quiet sim_opens by (simp add: os_spec_def)
  moreover have "send_spec sim_os sk_sent"
    by (auto simp: send_spec_def sim_os_def sim_send_def Let_def min_def fun_eq_iff)
  moreover have "recv_spec sim_os" by (auto simp: recv_spec_def sim_os_def sim_recv_def Let_def)
  ultimately show ?thesis by (simp add: os_ok_def)
qed

lemma sim_pipe_spec: "pipe_spec sim_os (\<lambda>k fd. sk_pipe k)"
  by (auto simp: pipe_spec_def sim_os_def sim_read_def)

lemma sim_wait_spec: "wait_spec sim_os sim_kv"
  by (auto simp: wait_spec_def sim_os_def sim_kv_def)

section \<open>The server\<close>

text \<open>A new connection is bound to handler 1, which throws away all it receives.\<close>

definition discard :: "(nat, unit, sim_kernel, unit) dispatch" where
  "discard h u msg w = (case msg of
       EVACCEPTED c \<Rightarrow> map_option snd (evnet_channelbind sim_os c 1 60 () w)
     | EVDATA c \<Rightarrow> upd_channel w c (\<lambda>d. d\<lparr>inDataqueue := dataqueue_remove_data (inDataqueue d) False\<rparr>)
     | _ \<Rightarrow> Some w)"

lemma discard_ok: "handlers_ok N sim_kv discard"
  unfolding handlers_ok_def
proof (intro allI impI conjI)
  fix h u R D n and a :: nat and w :: "(nat, unit, sim_kernel, unit) libnet"
  assume a: "a \<in> dom (channels w)"
  then obtain c where c: "channels w a = Some c" by blast
  show "returns (discard h u (EVDATA a) w) (net_inv N sim_kv R D)"
    if "a \<notin> D \<and> net_inv N sim_kv (insert a R) D w"
  proof -
    have inv: "net_inv N sim_kv (insert a R) D w" using that by simp
    let ?c = "c\<lparr>inDataqueue := dataqueue_remove_data (inDataqueue c) False\<rparr>"
    let ?w = "w\<lparr>channels := (channels w)(a \<mapsto> ?c)\<rparr>"
    have "chan_ok (evLoop w) a c" by (rule net_invD(2) [OF inv c])
    then have ok: "in_inv (inDataqueue ?c)" "dq_inv (outDataqueue c)" using in_inv_remove_data by (simp_all add: chan_ok_def)
    have dr: "drained (inDataqueue ?c)" by (simp add: drained_def dataqueue_remove_data_def)
    have "net_inv N sim_kv (insert a R) D ?w" by (rule net_inv_data [OF inv c]) (use ok dr in simp_all)
    then have "net_inv N sim_kv R D ?w" by (rule net_inv_drained) (use dr in simp)
    then show ?thesis using c by (simp add: discard_def upd_channel_def)
  qed
  show "returns (discard h u (EVACCEPTED a) w) (net_inv N sim_kv R D)" if "a \<notin> D \<and> net_inv N sim_kv R D w"
    using bind_inv [OF _ conjunct2 [OF that] a, of sim_os 1 60 "()"] sim_os_ok
    by (auto simp: discard_def evnet_channelbind_def os_ok_def returns_def)
qed (simp_all add: discard_def)

lemma discard_env: "evnet_env sim_os sim_kv sk_sent (\<lambda>k fd. sk_pipe k) N discard"
proof -
  have "close_keeps_ring discard" by (auto simp: close_keeps_ring_def discard_def intro!: exI [of _ "[]"])
  then show ?thesis by (simp add: evnet_env_def sim_os_ok sim_pipe_spec sim_wait_spec discard_ok)
qed

section \<open>A run\<close>

text \<open>Descriptors 0 to 2 are open; there is one connection waiting and nothing else happens.\<close>

definition sim_start :: sim_kernel where
  "sim_start = \<lparr>sk_watch = Map.empty, sk_open = {0, 1, 2}, sk_next = 3, sk_ready = [(6, EPOLLIN)], sk_in = (\<lambda>_. ''hello''),
     sk_sent = (\<lambda>_. []), sk_backlog = 1, sk_pipe = 0, sk_clock = 1000\<rparr>"

definition net_start :: "(nat, unit, sim_kernel, unit) libnet" where
  "net_start = \<lparr>channelHead = 0, has_loop = False, epfd = 0, evLoop = ae_fresh_loop 0 0, channels = Map.empty,
     acceptors = Map.empty, next_free = 1, pipe_rd = 0, pipe_wr = 0, lastCrondTime = 0, kernel = sim_start, app = ()\<rparr>"

lemma net_start_fresh: "net_fresh sim_kv net_start"
  by (simp add: net_fresh_def net_start_def sim_kv_def sim_start_def sim_interest_def fun_eq_iff)

end
