(* ===== verification/Libnet_Props.thy ===== *)
theory Libnet_Props
  imports Sim_Kernel
begin

text \<open>
  The properties of the library core: what holds in every reachable state, the list of the
  channels, the stream of the bytes that are sent, the time-outs, and errors.
\<close>

section \<open>Runs\<close>

definition sim_run :: "((nat, unit, sim_kernel, unit) libnet \<times> (nat, unit, sim_kernel, unit) libnet) option" where
  "sim_run = do {
     (r, w1) \<leftarrow> evnet_init sim_os 8 10 0 net_start;
     let aw = evnet_createacceptor sim_os 80 0 () w1;
     (r2, w3) \<leftarrow> evnet_acceptorstart sim_os (fst aw) (snd aw);
     w4 \<leftarrow> evnet_loop sim_os discard w3;
     if r = 0 then Some (w1, w4) else None
   }"

lemma sim_run_ok: "map_option (\<lambda>(w1, w). (channelHead w, map_option ch_fd (channels w 2))) sim_run = Some (2, Some 7)"
  by code_simp

lemma sim_run_steps:
  obtains w1 w where "evnet_init sim_os 8 10 0 net_start = Some (0, w1)" "(net_step sim_os discard)\<^sup>*\<^sup>* w1 w"
    "channelHead w = 2" "\<exists>c. channels w 2 = Some c \<and> ch_fd c = 7"
proof -
  obtain w1 w where r: "sim_run = Some (w1, w)" "channelHead w = 2" "\<exists>c. channels w 2 = Some c \<and> ch_fd c = 7"
    using sim_run_ok by auto
  obtain a w2 where a: "evnet_createacceptor sim_os 80 0 () w1 = (a, w2)" by fastforce
  obtain r2 w3 where w: "evnet_init sim_os 8 10 0 net_start = Some (0, w1)"
    "evnet_acceptorstart sim_os a w2 = Some (r2, w3)" "evnet_loop sim_os discard w3 = Some w"
    using r(1) a
    by (auto simp: sim_run_def Option.bind_eq_Some_conv Let_def split: prod.split_asm if_split_asm)
  have "net_step sim_os discard w1 w2" "net_step sim_os discard w2 w3" "net_step sim_os discard w3 w"
    by (rule net_step.acceptor [OF a] net_step.start [OF w(2)] net_step.loop [OF w(3)])+
  then have "(net_step sim_os discard)\<^sup>*\<^sup>* w1 w" by (metis converse_rtranclp_into_rtranclp r_into_rtranclp)
  then show thesis using that w(1) r(2,3) by blast
qed





section \<open>The event pipe\<close>



text \<open>
  C35. When the event pipe cannot be created, \<^verbatim>\<open>evnet_init\<close> succeeds nevertheless and registers the
  handler of the pipe for descriptor 0, the standard input: its result is not looked at.
\<close>

theorem init_without_pipe:
  assumes "sys_epoll_create os (kernel w) = (ep, k1)" and "ep \<noteq> -1" and "sys_pipe os k1 = ((r, rd, wr), k2)" and "r \<noteq> 0"
    and "pipe_rd w = 0" and "0 < n" and "sys_epoll_ctl os EPOLL_CTL_ADD 0 (epoll_events AE_READABLE) k2 = (0, k3)"
  shows "\<exists>w' fe. evnet_init os n cyc 0 w = Some (0, w') \<and> event_at (evLoop w') 0 = Some fe
    \<and> fe_mask fe = AE_READABLE \<and> rfileProc fe = Some Evpipe_Dummy"
proof -
  let ?l = "ae_fresh_loop n cyc :: (ev_proc, nat) aeEventLoop"
  have at: "event_at ?l 0 = Some \<lparr>fe_mask = AE_NONE, rfileProc = None, wfileProc = None, clientData = None\<rparr>" "0 < setsize ?l"
    using assms(6) by (simp_all add: event_at_def ae_fresh_loop_def)
  then have "\<exists>l1. aeCreateFileEvent (sys_epoll_ctl os) 0 AE_READABLE Evpipe_Dummy 0 (?l, k2) = Some (0, l1, k3)"
    using assms(7) by (simp add: aeCreateFileEvent_def aeApiAddEvent_def AE_NONE_def Let_def)
  then obtain l1 where cr: "aeCreateFileEvent (sys_epoll_ctl os) 0 AE_READABLE Evpipe_Dummy 0 (?l, k2) = Some (0, l1, k3)" by blast
  obtain fe where fe: "event_at l1 0 = Some fe" "fe_mask fe = AE_READABLE" "rfileProc fe = Some Evpipe_Dummy"
    using create_entries [OF cr] at(1) by (auto simp: AE_NONE_def AE_READABLE_def)
  have "ev_pipe os k1 = ((-1, None), k2)" using assms(3,4) by (simp add: ev_pipe_def)
  then have "evnet_init os n cyc 0 w = Some (0, w\<lparr>channelHead := 0, kernel := k3, evLoop := l1, has_loop := True, epfd := ep\<rparr>)"
    using assms(1,2,5) cr by (simp add: evnet_init_def aeCreateEventLoop_def add_event_def Let_def)
  then show ?thesis using fe by auto
qed

theorem init_without_pipe_witness:
  "\<exists>w' fe. evnet_init (sim_os\<lparr>sys_pipe := \<lambda>k. ((-1, 0, 0), k)\<rparr>) 8 10 0 net_start = Some (0, w')
     \<and> event_at (evLoop w') 0 = Some fe \<and> rfileProc fe = Some Evpipe_Dummy"
proof -
  let ?os = "sim_os\<lparr>sys_pipe := \<lambda>k. ((-1, 0, 0), k)\<rparr>"
  obtain k1 where k1: "sys_epoll_create ?os (kernel net_start) = (3, k1)" "sim_interest k1 = Map.empty" "sk_next k1 = 4" "sk_watch k1 0 = None"
    by (auto simp: sim_os_def net_start_def sim_new_def sim_start_def sim_interest_def fun_eq_iff)
  have ctl: "\<exists>k3. sys_epoll_ctl ?os EPOLL_CTL_ADD 0 (epoll_events AE_READABLE) k1 = (0, k3)"
    using k1(3,4) by (simp add: sim_os_def sim_ctl_def map_ctl_def)
  then show ?thesis
    using init_without_pipe [OF k1(1), of "-1" 0 0 k1 8 _ 10] by (fastforce simp: net_start_def)
qed

end
