(* ===== verification/Evactor.thy ===== *)
theory Evactor
  imports Sim_Kernel "HOL-Library.Multiset"
begin

text \<open>
  Actors (\<^verbatim>\<open>evactor.h\<close>, \<^verbatim>\<open>evactor.c\<close>): jobs that run on the threads of a pool and whose completion
  is handled by the thread of the event loop. A worker puts the finished actor into a list under a
  mutex and then wakes the event loop through the pipe of the library.

  The actors' part of the global state is the \<open>app\<close> component of the library's state. The thread
  pool is not part of the sources: it runs what has been submitted, in any order; its answer to
  \<^verbatim>\<open>thpool_add_work\<close> is an argument.
\<close>

section \<open>State and operations\<close>

datatype actor_evt = EVACTOR_THREADRUN | EVACTOR_DONE

record ('e, 'v) actor =
  actor_handler :: 'e
  actor_id :: u32
  actor_pUsr :: 'v

text \<open>
  \<open>working\<close> are the actors in the pool, \<open>unsignalled\<close> is the number of workers that have put their
  actor into the list of the finished ones and have yet to call \<^verbatim>\<open>evnet_async\<close>.
\<close>

record ('e, 'v, 'b) actors =
  gid :: u32
  working :: "('e, 'v) actor list"
  unsignalled :: nat
  gactorFinished :: "('e, 'v) actor list"
  usr_state :: 'b

type_synonym ('h, 'u, 'k, 'e, 'v, 'b) actor_net = "('h, 'u, 'k, ('e, 'v, 'b) actors) libnet"

type_synonym ('h, 'u, 'k, 'e, 'v, 'b) evhandler =
  "'e \<Rightarrow> 'v \<Rightarrow> actor_evt \<Rightarrow> ('h, 'u, 'k, 'e, 'v, 'b) actor_net \<Rightarrow> ('h, 'u, 'k, 'e, 'v, 'b) actor_net option"

definition MAX_TCB :: nat where "MAX_TCB = 128"

definition actor_new :: "u32 \<Rightarrow> 'v \<Rightarrow> 'e \<Rightarrow> ('e, 'v) actor" where
  "actor_new i usr h = \<lparr>actor_handler = h, actor_id = i, actor_pUsr = usr\<rparr>"

text \<open>\<open>r\<close> is what \<^verbatim>\<open>thpool_add_work\<close> returns: 0 when the pool has taken the work.\<close>

definition evactor_handle :: "int \<Rightarrow> 'e \<Rightarrow> 'v \<Rightarrow> ('h, 'u, 'k, 'e, 'v, 'b) actor_net
    \<Rightarrow> int \<times> ('h, 'u, 'k, 'e, 'v, 'b) actor_net" where
  "evactor_handle r h usr w =
     (let s = app w; i = gid s + 1; a = actor_new i usr h
      in (r, w\<lparr>app := s\<lparr>gid := i, working := (if r = 0 then working s @ [a] else working s)\<rparr>\<rparr>))"

text \<open>\<^verbatim>\<open>actor_run\<close> in its two halves: up to leaving the mutex, and the wake-up.\<close>

definition actor_finish :: "('h, 'u, 'k, 'e, 'v, 'b) evhandler \<Rightarrow> ('e, 'v) actor \<Rightarrow> ('h, 'u, 'k, 'e, 'v, 'b) actor_net
    \<Rightarrow> ('h, 'u, 'k, 'e, 'v, 'b) actor_net option" where
  "actor_finish evh a w = do {
     w1 \<leftarrow> evh (actor_handler a) (actor_pUsr a) EVACTOR_THREADRUN w;
     let s = app w1;
     Some (w1\<lparr>app := s\<lparr>working := remove1 a (working s), gactorFinished := gactorFinished s @ [a], unsignalled := unsignalled s + 1\<rparr>\<rparr>)
   }"

definition actor_signal :: "'k os \<Rightarrow> ('h, 'u, 'k, 'e, 'v, 'b) actor_net \<Rightarrow> ('h, 'u, 'k, 'e, 'v, 'b) actor_net" where
  "actor_signal os w = (let (r, w1) = evnet_async os w; s = app w1 in w1\<lparr>app := s\<lparr>unsignalled := unsignalled s - 1\<rparr>\<rparr>)"

definition actor_run :: "'k os \<Rightarrow> ('h, 'u, 'k, 'e, 'v, 'b) evhandler \<Rightarrow> ('e, 'v) actor \<Rightarrow> ('h, 'u, 'k, 'e, 'v, 'b) actor_net
    \<Rightarrow> ('h, 'u, 'k, 'e, 'v, 'b) actor_net option" where
  "actor_run os evh a w = do { w1 \<leftarrow> actor_finish evh a w; Some (actor_signal os w1) }"

text \<open>The loop over the list of the finished actors, under the mutex: the batch and the rest.\<close>

fun take_finished :: "nat \<Rightarrow> ('e, 'v) actor list \<Rightarrow> ('e, 'v) actor list \<times> ('e, 'v) actor list" where
  "take_finished n [] = ([], [])"
| "take_finished n (a # as) =
     (if n + 1 \<ge> MAX_TCB then ([a], as) else let (arr, rest) = take_finished (n + 1) as in (a # arr, rest))"

fun done_all :: "('h, 'u, 'k, 'e, 'v, 'b) evhandler \<Rightarrow> ('e, 'v) actor list \<Rightarrow> ('h, 'u, 'k, 'e, 'v, 'b) actor_net
    \<Rightarrow> ('h, 'u, 'k, 'e, 'v, 'b) actor_net option" where
  "done_all evh [] w = Some w"
| "done_all evh (a # as) w = do { w1 \<leftarrow> evh (actor_handler a) (actor_pUsr a) EVACTOR_DONE w; done_all evh as w1 }"

definition take_batch :: "('h, 'u, 'k, 'e, 'v, 'b) actor_net \<Rightarrow> ('e, 'v) actor list \<times> ('h, 'u, 'k, 'e, 'v, 'b) actor_net" where
  "take_batch w = (let (arr, rest) = take_finished 0 (gactorFinished (app w)) in (arr, w\<lparr>app := (app w)\<lparr>gactorFinished := rest\<rparr>\<rparr>))"

definition end_batch :: "'k os \<Rightarrow> nat \<Rightarrow> ('h, 'u, 'k, 'e, 'v, 'b) actor_net \<Rightarrow> ('h, 'u, 'k, 'e, 'v, 'b) actor_net" where
  "end_batch os n w = (if n \<ge> MAX_TCB then snd (evnet_async os w) else w)"

definition evactor_loop :: "'k os \<Rightarrow> ('h, 'u, 'k, 'e, 'v, 'b) evhandler \<Rightarrow> ('h, 'u, 'k, 'e, 'v, 'b) actor_net
    \<Rightarrow> ('h, 'u, 'k, 'e, 'v, 'b) actor_net option" where
  "evactor_loop os evh w =
     (if gactorFinished (app w) = [] then Some w
      else do {
        let (arr, w1) = take_batch w;
        w2 \<leftarrow> done_all evh arr w1;
        Some (end_batch os (length arr) w2)
      })"

lemma take_finished_split:
  "n < MAX_TCB \<Longrightarrow> take_finished n as = (take (MAX_TCB - n) as, drop (MAX_TCB - n) as)"
proof (induction n as rule: take_finished.induct)
  case (2 n a as)
  show ?case
  proof (cases "n + 1 \<ge> MAX_TCB")
    case True
    then have "MAX_TCB - n = 1" using 2(2) by simp
    then show ?thesis using True by simp
  next
    case False
    then have "MAX_TCB - n = Suc (MAX_TCB - (n + 1))" by simp
    then show ?thesis using False 2 by simp
  qed
qed simp

lemma take_batch_eq:
  "take_batch w = (take MAX_TCB (gactorFinished (app w)), w\<lparr>app := (app w)\<lparr>gactorFinished := drop MAX_TCB (gactorFinished (app w))\<rparr>\<rparr>)"
  using take_finished_split [of 0 "gactorFinished (app w)"] by (simp add: take_batch_def MAX_TCB_def)

section \<open>Interleavings\<close>

text \<open>
  The thread of the event loop waits in \<^verbatim>\<open>evnet_loop\<close>, has left it, or handles a batch of \<open>n\<close>
  finished actors. \<open>submitted\<close>, \<open>ended\<close> and \<open>handled\<close> record the actors that were taken by the
  pool, that were put into the list, and whose completion has been handled.
\<close>

datatype ('e, 'v) main_pc = Waiting | Left_Loop | Handling "('e, 'v) actor list" nat

record ('h, 'u, 'k, 'e, 'v, 'b) actor_cfg =
  pc :: "('e, 'v) main_pc"
  submitted :: "('e, 'v) actor list"
  ended :: "('e, 'v) actor list"
  handled :: "('e, 'v) actor list"
  net :: "('h, 'u, 'k, 'e, 'v, 'b) actor_net"

text \<open>
  The steps. A worker interleaves between any two steps of the main thread, also between the end
  of its critical section and its wake-up; a submission by a handler is a step of its own; \<open>other\<close>
  is everything else the library and the kernel do.
\<close>

inductive actor_step :: "'k os \<Rightarrow> ('k \<Rightarrow> int \<Rightarrow> nat) \<Rightarrow> ('h, 'u, 'k, 'e, 'v, 'b) evhandler
    \<Rightarrow> ('h, 'u, 'k, 'e, 'v, 'b) actor_cfg \<Rightarrow> ('h, 'u, 'k, 'e, 'v, 'b) actor_cfg \<Rightarrow> bool"
  for os :: "'k os" and unread :: "'k \<Rightarrow> int \<Rightarrow> nat" and evh :: "('h, 'u, 'k, 'e, 'v, 'b) evhandler" where
  submit: "evactor_handle 0 h u (net c) = (r, w) \<Longrightarrow>
    actor_step os unread evh c (c\<lparr>net := w, submitted := submitted c @ [last (working (app w))]\<rparr>)"
| refused: "x \<noteq> 0 \<Longrightarrow> evactor_handle x h u (net c) = (r, w) \<Longrightarrow> actor_step os unread evh c (c\<lparr>net := w\<rparr>)"
| finish: "a \<in> set (working (app (net c))) \<Longrightarrow> actor_finish evh a (net c) = Some w \<Longrightarrow>
    actor_step os unread evh c (c\<lparr>net := w, ended := ended c @ [a]\<rparr>)"
| signal: "0 < unsignalled (app (net c)) \<Longrightarrow> actor_step os unread evh c (c\<lparr>net := actor_signal os (net c)\<rparr>)"
| wake: "pc c = Waiting \<Longrightarrow> evpipe_dummy os (pipe_rd (net c)) (kernel (net c)) = Some k \<Longrightarrow>
    actor_step os unread evh c (c\<lparr>pc := Left_Loop, net := (net c)\<lparr>kernel := k\<rparr>\<rparr>)"
| idle: "pc c = Waiting \<Longrightarrow> actor_step os unread evh c (c\<lparr>pc := Left_Loop\<rparr>)"
| other: "app w = app (net c) \<Longrightarrow> pipe_rd w = pipe_rd (net c) \<Longrightarrow> pipe_wr w = pipe_wr (net c) \<Longrightarrow>
    unread (kernel w) (pipe_rd w) = unread (kernel (net c)) (pipe_rd w) \<Longrightarrow> actor_step os unread evh c (c\<lparr>net := w\<rparr>)"
| none: "pc c = Left_Loop \<Longrightarrow> gactorFinished (app (net c)) = [] \<Longrightarrow> actor_step os unread evh c (c\<lparr>pc := Waiting\<rparr>)"
| batch: "pc c = Left_Loop \<Longrightarrow> gactorFinished (app (net c)) \<noteq> [] \<Longrightarrow> take_batch (net c) = (arr, w) \<Longrightarrow>
    actor_step os unread evh c (c\<lparr>pc := Handling arr (length arr), net := w\<rparr>)"
| completed: "pc c = Handling (a # as) n \<Longrightarrow> evh (actor_handler a) (actor_pUsr a) EVACTOR_DONE (net c) = Some w \<Longrightarrow>
    actor_step os unread evh c (c\<lparr>pc := Handling as n, net := w, handled := handled c @ [a]\<rparr>)"
| leave: "pc c = Handling [] n \<Longrightarrow> actor_step os unread evh c (c\<lparr>pc := Waiting, net := end_batch os n (net c)\<rparr>)"

section \<open>What the code relies on\<close>

text \<open>
  A handler returns; it leaves the bookkeeping of the actors alone and does not read the pipe. Of
  the library it may call what it likes on the thread of the event loop.
\<close>

definition actor_handlers_ok :: "('k \<Rightarrow> int \<Rightarrow> nat) \<Rightarrow> ('h, 'u, 'k, 'e, 'v, 'b) evhandler \<Rightarrow> bool" where
  "actor_handlers_ok unread evh \<longleftrightarrow> (\<forall>e v ev w. \<exists>w' b. evh e v ev w = Some w' \<and> app w' = (app w)\<lparr>usr_state := b\<rparr>
     \<and> pipe_rd w' = pipe_rd w \<and> pipe_wr w' = pipe_wr w
     \<and> (0 < unread (kernel w) (pipe_rd w) \<longrightarrow> 0 < unread (kernel w') (pipe_rd w)))"

text \<open>After a write there is something in the pipe: the byte was written, or the pipe was full.\<close>

definition wake_spec :: "'k os \<Rightarrow> ('k \<Rightarrow> int \<Rightarrow> nat) \<Rightarrow> int \<Rightarrow> int \<Rightarrow> bool" where
  "wake_spec os unread rd wr \<longleftrightarrow> wr \<noteq> -1 \<and> (\<forall>k. 0 < unread (snd (sys_write os wr ''0'' k)) rd)"

lemma evnet_async_wakes:
  assumes "wake_spec os unread (pipe_rd w) (pipe_wr w)" and "evnet_async os w = (r, w')"
  shows "0 < unread (kernel w') (pipe_rd w) \<and> app w' = app w \<and> pipe_rd w' = pipe_rd w \<and> pipe_wr w' = pipe_wr w"
proof -
  have "pipe_wr w \<noteq> -1" "0 < unread (snd (sys_write os (pipe_wr w) ''0'' (kernel w))) (pipe_rd w)"
    using assms(1) by (simp_all add: wake_spec_def)
  then show ?thesis using assms(2) by (auto simp: evnet_async_def pipe_write_def split: prod.splits)
qed

lemma actor_handler_call:
  assumes "actor_handlers_ok unread evh"
  obtains w' b where "evh e v ev w = Some w'" "app w' = (app w)\<lparr>usr_state := b\<rparr>" "pipe_rd w' = pipe_rd w" "pipe_wr w' = pipe_wr w"
    "0 < unread (kernel w) (pipe_rd w) \<longrightarrow> 0 < unread (kernel w') (pipe_rd w)"
  using assms [unfolded actor_handlers_ok_def, THEN spec [of _ e], THEN spec [of _ v], THEN spec [of _ ev], THEN spec [of _ w]]
  by (elim exE conjE) (rule that; simp)

section \<open>The invariant of the interleavings\<close>

fun batch_of :: "('e, 'v) main_pc \<Rightarrow> ('e, 'v) actor list" where
  "batch_of (Handling as n) = as"
| "batch_of _ = []"

text \<open>A wake-up is in the pipe or about to be sent.\<close>

definition roused :: "('k \<Rightarrow> int \<Rightarrow> nat) \<Rightarrow> ('h, 'u, 'k, 'e, 'v, 'b) actor_net \<Rightarrow> bool" where
  "roused unread w \<longleftrightarrow> 0 < unread (kernel w) (pipe_rd w) \<or> 0 < unsignalled (app w)"

fun awake :: "('k \<Rightarrow> int \<Rightarrow> nat) \<Rightarrow> ('e, 'v) main_pc \<Rightarrow> ('h, 'u, 'k, 'e, 'v, 'b) actor_net \<Rightarrow> bool" where
  "awake unread Waiting w = roused unread w"
| "awake unread Left_Loop w = True"
| "awake unread (Handling as n) w = (n \<ge> MAX_TCB \<or> roused unread w)"

definition actor_inv :: "'k os \<Rightarrow> ('k \<Rightarrow> int \<Rightarrow> nat) \<Rightarrow> ('h, 'u, 'k, 'e, 'v, 'b) actor_cfg \<Rightarrow> bool" where
  "actor_inv os unread c \<longleftrightarrow>
     mset (submitted c) = mset (working (app (net c))) + mset (ended c)
     \<and> ended c = handled c @ batch_of (pc c) @ gactorFinished (app (net c))
     \<and> (gactorFinished (app (net c)) \<noteq> [] \<longrightarrow> awake unread (pc c) (net c))
     \<and> wake_spec os unread (pipe_rd (net c)) (pipe_wr (net c))"

lemma actor_invD:
  assumes "actor_inv os unread c"
  shows "mset (submitted c) = mset (working (app (net c))) + mset (ended c)"
    and "ended c = handled c @ batch_of (pc c) @ gactorFinished (app (net c))"
    and "gactorFinished (app (net c)) \<noteq> [] \<Longrightarrow> awake unread (pc c) (net c)"
    and "wake_spec os unread (pipe_rd (net c)) (pipe_wr (net c))"
  using assms by (simp_all add: actor_inv_def)

text \<open>Steps that rouse leave the main thread awake.\<close>

lemma roused_awake: "roused unread w \<Longrightarrow> awake unread p w"
  by (cases p) auto

lemma awake_cong:
  assumes "awake unread p w" and "roused unread w \<Longrightarrow> roused unread w'"
  shows "awake unread p w'"
  using assms by (cases p) auto

lemma finish_inv:
  assumes ok: "actor_handlers_ok unread evh" and inv: "actor_inv os unread c"
    and a: "a \<in> set (working (app (net c)))" and w: "actor_finish evh a (net c) = Some w"
  shows "actor_inv os unread (c\<lparr>net := w, ended := ended c @ [a]\<rparr>)"
proof -
  obtain w1 b where h: "evh (actor_handler a) (actor_pUsr a) EVACTOR_THREADRUN (net c) = Some w1"
    "app w1 = (app (net c))\<lparr>usr_state := b\<rparr>" "pipe_rd w1 = pipe_rd (net c)" "pipe_wr w1 = pipe_wr (net c)"
    by (rule actor_handler_call [OF ok])
  have s: "working (app w) = remove1 a (working (app (net c)))" "gactorFinished (app w) = gactorFinished (app (net c)) @ [a]"
    "0 < unsignalled (app w)" "pipe_rd w = pipe_rd (net c)" "pipe_wr w = pipe_wr (net c)"
    using w h by (auto simp: actor_finish_def Let_def)
  have "awake unread (pc c) w" by (rule roused_awake) (simp add: roused_def s(3))
  then show ?thesis using actor_invD [OF inv] s a by (simp add: actor_inv_def)
qed

lemma actor_step_inv:
  assumes ok: "actor_handlers_ok unread evh" and step: "actor_step os unread evh c c'" and inv: "actor_inv os unread c"
  shows "actor_inv os unread c'"
  using step
proof (cases rule: actor_step.cases)
  case (submit h u r w)
  have w: "w = snd (evactor_handle 0 h u (net c))" using submit(2) by simp
  show ?thesis using actor_invD [OF inv] awake_cong [of unread "pc c" "net c" w] unfolding submit(1) w
    by (auto simp: actor_inv_def evactor_handle_def Let_def roused_def)
next
  case (refused x h u r w)
  have w: "w = snd (evactor_handle x h u (net c))" using refused(3) by simp
  show ?thesis using actor_invD [OF inv] refused(2) awake_cong [of unread "pc c" "net c" w] unfolding refused(1) w
    by (auto simp: actor_inv_def evactor_handle_def Let_def roused_def)
next
  case (finish a w)
  show ?thesis unfolding finish(1) by (rule finish_inv [OF ok inv finish(2,3)])
next
  case signal
  obtain r w where w: "evnet_async os (net c) = (r, w)" by fastforce
  note a = evnet_async_wakes [OF actor_invD(4) [OF inv] w]
  have "roused unread (actor_signal os (net c))" using a w by (simp add: roused_def actor_signal_def Let_def)
  then show ?thesis using actor_invD [OF inv] a w roused_awake unfolding signal(1)
    by (auto simp: actor_inv_def actor_signal_def Let_def)
next
  case (wake k)
  then show ?thesis using actor_invD [OF inv] by (simp add: actor_inv_def)
next
  case idle
  then show ?thesis using actor_invD [OF inv] by (simp add: actor_inv_def)
next
  case (other w)
  then show ?thesis using actor_invD [OF inv] awake_cong [of unread "pc c" "net c" w] by (auto simp: actor_inv_def roused_def)
next
  case none
  then show ?thesis using actor_invD [OF inv] by (simp add: actor_inv_def)
next
  case (batch arr w)
  then show ?thesis using actor_invD [OF inv] by (auto simp: actor_inv_def take_batch_eq)
next
  case (completed a as n w)
  obtain w1 b where h: "evh (actor_handler a) (actor_pUsr a) EVACTOR_DONE (net c) = Some w1"
    "app w1 = (app (net c))\<lparr>usr_state := b\<rparr>" "pipe_rd w1 = pipe_rd (net c)" "pipe_wr w1 = pipe_wr (net c)"
    "0 < unread (kernel (net c)) (pipe_rd (net c)) \<longrightarrow> 0 < unread (kernel w1) (pipe_rd (net c))"
    by (rule actor_handler_call [OF ok, of "actor_handler a" "actor_pUsr a" EVACTOR_DONE "net c"])
  then have "w = w1" using completed(3) by simp
  then show ?thesis using actor_invD [OF inv] h completed(1,2) by (auto simp: actor_inv_def roused_def)
next
  case (leave n)
  obtain r w where w: "evnet_async os (net c) = (r, w)" by fastforce
  note a = evnet_async_wakes [OF actor_invD(4) [OF inv] w]
  show ?thesis using actor_invD [OF inv] a w leave by (auto simp: actor_inv_def end_batch_def roused_def)
qed

lemma actor_steps_inv:
  assumes "actor_handlers_ok unread evh" and "(actor_step os unread evh)\<^sup>*\<^sup>* c c'" and "actor_inv os unread c"
  shows "actor_inv os unread c'"
  using assms(2,3) by (induction rule: rtranclp_induct) (auto intro: actor_step_inv [OF assms(1)])

text \<open>The state at the start: nothing submitted, the pipe of the library in place.\<close>

definition actors_fresh :: "('h, 'u, 'k, 'e, 'v, 'b) actor_cfg \<Rightarrow> bool" where
  "actors_fresh c \<longleftrightarrow> pc c = Waiting \<and> submitted c = [] \<and> ended c = [] \<and> handled c = []
     \<and> working (app (net c)) = [] \<and> gactorFinished (app (net c)) = []"

lemma actors_fresh_inv:
  "actors_fresh c \<Longrightarrow> wake_spec os unread (pipe_rd (net c)) (pipe_wr (net c)) \<Longrightarrow> actor_inv os unread c"
  by (simp add: actors_fresh_def actor_inv_def)

text \<open>
  C36. Under every interleaving of the workers with the thread of the event loop: what was submitted
  is in the pool or has ended, once each; the ended actors are handled in the order in which they
  ended, none is lost or handled twice; and whenever the event loop waits with finished actors in the list, a
  wake-up is in the pipe or a worker is about to send it.
\<close>

theorem actors_exactly_once:
  assumes "actor_handlers_ok unread evh" and "actors_fresh c0" and "wake_spec os unread (pipe_rd (net c0)) (pipe_wr (net c0))"
    and "(actor_step os unread evh)\<^sup>*\<^sup>* c0 c"
  shows "mset (submitted c) = mset (working (app (net c))) + mset (ended c)
    \<and> ended c = handled c @ batch_of (pc c) @ gactorFinished (app (net c))
    \<and> (pc c = Waiting \<and> gactorFinished (app (net c)) \<noteq> [] \<longrightarrow>
        0 < unread (kernel (net c)) (pipe_rd (net c)) \<or> 0 < unsignalled (app (net c)))"
proof -
  have "actor_inv os unread c" by (rule actor_steps_inv [OF assms(1,4) actors_fresh_inv [OF assms(2,3)]])
  from actor_invD [OF this] show ?thesis by (auto simp: roused_def)
qed

section \<open>Progress\<close>

text \<open>
  One round of the thread of the event loop once it has been woken: the pipe is read empty, the
  batch is handled. What is handled comes with the result.
\<close>

definition actor_round :: "'k os \<Rightarrow> ('h, 'u, 'k, 'e, 'v, 'b) evhandler \<Rightarrow> ('h, 'u, 'k, 'e, 'v, 'b) actor_net
    \<Rightarrow> (('e, 'v) actor list \<times> ('h, 'u, 'k, 'e, 'v, 'b) actor_net) option" where
  "actor_round os evh w = do {
     k \<leftarrow> evpipe_dummy os (pipe_rd w) (kernel w);
     let w1 = w\<lparr>kernel := k\<rparr>;
     w2 \<leftarrow> evactor_loop os evh w1;
     Some (fst (take_batch w1), w2)
   }"

fun actor_rounds :: "'k os \<Rightarrow> ('h, 'u, 'k, 'e, 'v, 'b) evhandler \<Rightarrow> nat \<Rightarrow> ('h, 'u, 'k, 'e, 'v, 'b) actor_net
    \<Rightarrow> (('e, 'v) actor list \<times> ('h, 'u, 'k, 'e, 'v, 'b) actor_net) option" where
  "actor_rounds os evh 0 w = Some ([], w)"
| "actor_rounds os evh (Suc n) w = do {
     (as, w1) \<leftarrow> actor_round os evh w;
     (bs, w2) \<leftarrow> actor_rounds os evh n w1;
     Some (as @ bs, w2)
   }"

lemma done_all_ok:
  assumes ok: "actor_handlers_ok unread evh"
  shows "\<exists>w' b. done_all evh as w = Some w' \<and> app w' = (app w)\<lparr>usr_state := b\<rparr> \<and> pipe_rd w' = pipe_rd w \<and> pipe_wr w' = pipe_wr w"
proof (induction as arbitrary: w)
  case Nil
  show ?case by (simp add: exI [of _ "usr_state (app w)"])
next
  case (Cons a as)
  obtain w1 b where h: "evh (actor_handler a) (actor_pUsr a) EVACTOR_DONE w = Some w1"
    "app w1 = (app w)\<lparr>usr_state := b\<rparr>" "pipe_rd w1 = pipe_rd w" "pipe_wr w1 = pipe_wr w"
    by (rule actor_handler_call [OF ok])
  then show ?case using Cons.IH [of w1] by auto
qed

lemma evactor_loop_progress:
  assumes ok: "actor_handlers_ok unread evh" and wk: "wake_spec os unread (pipe_rd w) (pipe_wr w)"
  shows "\<exists>w'. evactor_loop os evh w = Some w' \<and> gactorFinished (app w') = drop MAX_TCB (gactorFinished (app w))
    \<and> (gactorFinished (app w') \<noteq> [] \<longrightarrow> 0 < unread (kernel w') (pipe_rd w'))
    \<and> pipe_rd w' = pipe_rd w \<and> pipe_wr w' = pipe_wr w"
proof (cases "gactorFinished (app w) = []")
  case False
  let ?fs = "gactorFinished (app w)"
  obtain arr w1 where tb: "take_batch w = (arr, w1)" by fastforce
  have arr: "arr = take MAX_TCB ?fs" "app w1 = (app w)\<lparr>gactorFinished := drop MAX_TCB ?fs\<rparr>" "pipe_rd w1 = pipe_rd w" "pipe_wr w1 = pipe_wr w"
    using tb by (auto simp: take_batch_eq)
  obtain w2 b where w2: "done_all evh arr w1 = Some w2" "app w2 = (app w1)\<lparr>usr_state := b\<rparr>" "pipe_rd w2 = pipe_rd w" "pipe_wr w2 = pipe_wr w"
    using done_all_ok [OF ok, of arr w1] arr(3,4) by auto
  obtain r w3 where as: "evnet_async os w2 = (r, w3)" by fastforce
  have a: "0 < unread (kernel w3) (pipe_rd w2)" "app w3 = app w2" "pipe_rd w3 = pipe_rd w2" "pipe_wr w3 = pipe_wr w2"
    using evnet_async_wakes [OF _ as, of unread] wk w2(3,4) by simp_all
  have "evactor_loop os evh w = Some (end_batch os (length arr) w2)"
    using False tb w2(1) by (simp add: evactor_loop_def)
  moreover have "MAX_TCB \<le> length arr" if "drop MAX_TCB ?fs \<noteq> []" using that arr(1) by simp
  ultimately show ?thesis using a w2 arr(2) as by (auto simp: end_batch_def)
qed (simp add: evactor_loop_def)


section \<open>Witnesses\<close>

text \<open>Actors whose handlers count the calls, on the small kernel with the pipe 4, 5.\<close>

definition counting :: "(nat, unit, sim_kernel, nat, nat, nat) evhandler" where
  "counting e v ev w = Some (w\<lparr>app := (app w)\<lparr>usr_state := usr_state (app w) + v\<rparr>\<rparr>)"

definition actors_start :: "nat \<Rightarrow> (nat, unit, sim_kernel, nat, nat, nat) actor_net" where
  "actors_start n = \<lparr>channelHead = 0, has_loop = True, epfd = 3, evLoop = ae_fresh_loop 8 10, channels = Map.empty,
     acceptors = Map.empty, next_free = 1, pipe_rd = 4, pipe_wr = 5, lastCrondTime = 0, kernel = sim_start,
     app = \<lparr>gid = 0, working = [], unsignalled = 0, gactorFinished = replicate n (actor_new 1 7 0), usr_state = 0\<rparr>\<rparr>"

lemma counting_ok: "actor_handlers_ok (\<lambda>k fd. sk_pipe k) counting"
  by (auto simp: actor_handlers_ok_def counting_def intro: exI [of _ "usr_state (app w) + v" for w v])

lemma sim_wake_spec: "wr \<noteq> -1 \<Longrightarrow> wake_spec sim_os (\<lambda>k fd. sk_pipe k) rd wr"
  by (simp add: wake_spec_def sim_os_def)

theorem actors_exactly_once_witness:
  "\<exists>c. (actor_step sim_os (\<lambda>k fd. sk_pipe k) counting)\<^sup>*\<^sup>*
       \<lparr>pc = Waiting, submitted = [], ended = [], handled = [], net = actors_start 0\<rparr> c
     \<and> length (submitted c) = 1 \<and> mset (submitted c) = mset (working (app (net c))) + mset (ended c)"
proof -
  let ?start = "\<lparr>pc = Waiting, submitted = [], ended = [], handled = [], net = actors_start 0\<rparr>"
  let ?c = "?start\<lparr>net := snd (evactor_handle 0 0 7 (net ?start)), submitted := [last (working (app (snd (evactor_handle 0 0 7 (net ?start)))))]\<rparr>"
  have "actor_step sim_os (\<lambda>k fd. sk_pipe k) counting ?start ?c"
    using actor_step.submit [of 0 7 ?start "fst (evactor_handle 0 0 7 (net ?start))" "snd (evactor_handle 0 0 7 (net ?start))"] by simp
  then have run: "(actor_step sim_os (\<lambda>k fd. sk_pipe k) counting)\<^sup>*\<^sup>* ?start ?c" by (rule r_into_rtranclp)
  have wk: "wake_spec sim_os (\<lambda>k fd. sk_pipe k) (pipe_rd (net ?start)) (pipe_wr (net ?start))"
    by (simp add: actors_start_def sim_wake_spec)
  have "actors_fresh ?start" by (simp add: actors_fresh_def actors_start_def)
  from actors_exactly_once [OF counting_ok this wk run]
  have "mset (submitted ?c) = mset (working (app (net ?c))) + mset (ended ?c)" by (rule conjunct1)
  moreover have "length (submitted ?c) = 1" by simp
  ultimately show ?thesis using run by blast
qed


end
