(* ===== verification/Msg_Net.thy ===== *)
theory Msg_Net
  imports Libnet_Runs Msg_Parser
begin

text \<open>
  The message server and client on top of the library (\<^verbatim>\<open>msgd.h\<close>, \<^verbatim>\<open>msgd.c\<close>, \<^verbatim>\<open>msgc.h\<close>, \<^verbatim>\<open>msgc.c\<close>).
  Their objects live in the \<open>app\<close> component of the library's state, at addresses. The functions that
  their users pass, \<open>uh\<close> for messages and \<open>uc\<close> for the closing, work on the whole state.
\<close>

section \<open>State\<close>

datatype msg_proc = Msgd_Acceptor | Msgd_Channel | Msgc_Channel

text \<open>\<open>'x\<close> is the part of a user object that the application adds.\<close>

record 'x msg_usr =
  cbUsrStatus :: u8
  mu_parser :: msgparser
  mu_gid :: u32
  mu_c :: nat
  mu_msgd :: nat
  mu_ext :: 'x

record 'm msgd =
  md_handler :: 'm
  md_pfnClose :: "'m option"
  md_timeout :: int
  md_maxCon :: int
  md_acceptor :: nat
  md_curCon :: int

record ('m, 'x) msgc =
  mc_handler :: 'm
  mc_pfnclose :: "'m option"
  mc_usrdata :: 'x
  mc_parser :: msgparser
  mc_c :: nat
  mc_timeout :: int

text \<open>\<open>recvBuffer\<close> and \<open>sendBuffer\<close> are the static buffers, \<open>g_ID\<close> the static counter of \<^verbatim>\<open>_acceptor_callback\<close>.\<close>

record ('m, 'x) msg_app =
  msgds :: "nat \<Rightarrow> 'm msgd option"
  usrs :: "nat \<Rightarrow> 'x msg_usr option"
  msgcs :: "nat \<Rightarrow> ('m, 'x) msgc option"
  next_obj :: nat
  g_ID :: u32
  recvBuffer :: "byte list"
  sendBuffer :: "byte list"

type_synonym ('k, 'm, 'x) msg_net = "(msg_proc, nat, 'k, ('m, 'x) msg_app) libnet"

type_synonym ('k, 'm, 'x) usr_handle =
  "'m \<Rightarrow> nat \<Rightarrow> u16 \<Rightarrow> u16 \<Rightarrow> byte list \<Rightarrow> ('k, 'm, 'x) msg_net \<Rightarrow> (bool \<times> ('k, 'm, 'x) msg_net) option"

type_synonym ('k, 'm, 'x) usr_close_handle = "'m \<Rightarrow> nat \<Rightarrow> ('k, 'm, 'x) msg_net \<Rightarrow> ('k, 'm, 'x) msg_net option"

section \<open>Memory\<close>

definition upd_msgd :: "nat \<Rightarrow> ('m msgd \<Rightarrow> 'm msgd) \<Rightarrow> ('k, 'm, 'x) msg_net \<Rightarrow> ('k, 'm, 'x) msg_net option" where
  "upd_msgd m f w = (case msgds (app w) m of
       None \<Rightarrow> None
     | Some d \<Rightarrow> Some (w\<lparr>app := (app w)\<lparr>msgds := (msgds (app w))(m \<mapsto> f d)\<rparr>\<rparr>))"

definition upd_usr :: "nat \<Rightarrow> ('x msg_usr \<Rightarrow> 'x msg_usr) \<Rightarrow> ('k, 'm, 'x) msg_net \<Rightarrow> ('k, 'm, 'x) msg_net option" where
  "upd_usr u f w = (case usrs (app w) u of
       None \<Rightarrow> None
     | Some d \<Rightarrow> Some (w\<lparr>app := (app w)\<lparr>usrs := (usrs (app w))(u \<mapsto> f d)\<rparr>\<rparr>))"

definition upd_msgc :: "nat \<Rightarrow> (('m, 'x) msgc \<Rightarrow> ('m, 'x) msgc) \<Rightarrow> ('k, 'm, 'x) msg_net \<Rightarrow> ('k, 'm, 'x) msg_net option" where
  "upd_msgc m f w = (case msgcs (app w) m of
       None \<Rightarrow> None
     | Some d \<Rightarrow> Some (w\<lparr>app := (app w)\<lparr>msgcs := (msgcs (app w))(m \<mapsto> f d)\<rparr>\<rparr>))"

section \<open>Parsing what a channel has received\<close>

text \<open>
  \<^verbatim>\<open>msgparser_parser\<close> works on the parser and the queue in place, while the handler it calls may
  change everything else. Here both are taken out and put back when it is done; the handler sees
  neither of them, except that sending counts in the parser (so that field is the one in memory).
  A handler without a result has no result; so has one that lets the channel or the parser be
  freed, which \<^verbatim>\<open>msgparser_parser\<close> goes on to use.
\<close>

definition continue_with :: "(u16 \<Rightarrow> u16 \<Rightarrow> byte list \<Rightarrow> 'w \<Rightarrow> (bool \<times> 'w) option) \<Rightarrow> 'w option msg_continue" where
  "continue_with h wo m s d = (case Option.bind wo (h m s d) of None \<Rightarrow> (None, False) | Some (go, w) \<Rightarrow> (Some w, go))"

definition merge_parser :: "msgparser \<Rightarrow> msgparser \<Rightarrow> msgparser" where
  "merge_parser coder mem = coder\<lparr>sendPacketCount := sendPacketCount mem\<rparr>"

definition parse_channel :: "(u16 \<Rightarrow> u16 \<Rightarrow> byte list \<Rightarrow> ('k, 'm, 'x) msg_net \<Rightarrow> (bool \<times> ('k, 'm, 'x) msg_net) option)
    \<Rightarrow> nat \<Rightarrow> msgparser \<Rightarrow> ('k, 'm, 'x) msg_net \<Rightarrow> (bool \<times> msgparser \<times> ('k, 'm, 'x) msg_net) option" where
  "parse_channel h c coder w = do {
     ch \<leftarrow> channels w c;
     (ok, (coder1, buf, q), wo) \<leftarrow> msgparser_parser (continue_with h) (coder, recvBuffer (app w), inDataqueue ch) (Some w);
     w1 \<leftarrow> wo;
     w2 \<leftarrow> upd_channel w1 c (\<lambda>d. d\<lparr>inDataqueue := q\<rparr>);
     Some (ok, coder1, w2\<lparr>app := (app w2)\<lparr>recvBuffer := buf\<rparr>\<rparr>)
   }"

text \<open>Packing a message and sending it, the end of \<^verbatim>\<open>usr_send\<close> and of \<^verbatim>\<open>msgc_send\<close>.\<close>

definition pack_and_send :: "'k os \<Rightarrow> nat \<Rightarrow> u16 \<Rightarrow> u16 \<Rightarrow> byte list option \<Rightarrow> u16 \<Rightarrow> ('k, 'm, 'x) msg_net
    \<Rightarrow> (bool \<times> ('k, 'm, 'x) msg_net) option" where
  "pack_and_send os c mc sc pData n w = do {
     (buf, sz) \<leftarrow> make_msg_packet (sendBuffer (app w)) mc sc pData n;
     evnet_channelsend os c (take (unat sz) buf) (w\<lparr>app := (app w)\<lparr>sendBuffer := buf\<rparr>\<rparr>)
   }"

section \<open>The server\<close>

text \<open>The \<open>EVCLOSED\<close> branch, which is all that a closing channel needs of the handlers.\<close>

definition msgd_closed :: "('k, 'm, 'x) usr_close_handle \<Rightarrow> nat \<Rightarrow> ('k, 'm, 'x) msg_net \<Rightarrow> ('k, 'm, 'x) msg_net option" where
  "msgd_closed uc u w = do {
     usr \<leftarrow> usrs (app w) u;
     let m = mu_msgd usr;
     md \<leftarrow> msgds (app w) m;
     w1 \<leftarrow> (case md_pfnClose md of None \<Rightarrow> Some w | Some f \<Rightarrow> uc f u w);
     w2 \<leftarrow> upd_msgd m (\<lambda>d. d\<lparr>md_curCon := md_curCon d - 1\<rparr>) w1;
     _ \<leftarrow> usrs (app w2) u;
     Some (w2\<lparr>app := (app w2)\<lparr>usrs := (usrs (app w2))(u := None)\<rparr>\<rparr>)
   }"

definition msgc_closed :: "('k, 'm, 'x) usr_close_handle \<Rightarrow> nat \<Rightarrow> ('k, 'm, 'x) msg_net \<Rightarrow> ('k, 'm, 'x) msg_net option" where
  "msgc_closed uc m w = do {
     mc \<leftarrow> msgcs (app w) m;
     (case mc_pfnclose mc of None \<Rightarrow> Some w | Some f \<Rightarrow> uc f m w)
   }"

definition msg_closing :: "('k, 'm, 'x) usr_close_handle \<Rightarrow> (msg_proc, nat, 'k, ('m, 'x) msg_app) dispatch" where
  "msg_closing uc p usr msg w = do {
     u \<leftarrow> usr;
     (case msg of
        EVCLOSED c e \<Rightarrow> (case p of Msgd_Channel \<Rightarrow> msgd_closed uc u w | Msgc_Channel \<Rightarrow> msgc_closed uc u w | Msgd_Acceptor \<Rightarrow> None)
      | _ \<Rightarrow> None)
   }"

text \<open>The \<open>EVDATA\<close> branch; \<^verbatim>\<open>msgd_continte\<close> looks the handler up for every message.\<close>

definition msgd_continte :: "('k, 'm, 'x) usr_handle \<Rightarrow> nat \<Rightarrow> u16 \<Rightarrow> u16 \<Rightarrow> byte list \<Rightarrow> ('k, 'm, 'x) msg_net
    \<Rightarrow> (bool \<times> ('k, 'm, 'x) msg_net) option" where
  "msgd_continte uh u mc sc d w = do {
     usr \<leftarrow> usrs (app w) u;
     md \<leftarrow> msgds (app w) (mu_msgd usr);
     uh (md_handler md) u mc sc d w
   }"

definition msgd_data :: "'k os \<Rightarrow> ('k, 'm, 'x) usr_handle \<Rightarrow> ('k, 'm, 'x) usr_close_handle \<Rightarrow> nat \<Rightarrow> nat
    \<Rightarrow> ('k, 'm, 'x) msg_net \<Rightarrow> ('k, 'm, 'x) msg_net option" where
  "msgd_data os uh uc c u w = do {
     usr \<leftarrow> usrs (app w) u;
     (ok, coder, w1) \<leftarrow> parse_channel (msgd_continte uh u) c (mu_parser usr) w;
     w2 \<leftarrow> upd_usr u (\<lambda>d. d\<lparr>mu_parser := merge_parser coder (mu_parser d)\<rparr>) w1;
     if ok then Some w2 else evnet_closechannel os (msg_closing uc) c 0 w2
   }"

definition usr_send :: "'k os \<Rightarrow> nat \<Rightarrow> u16 \<Rightarrow> u16 \<Rightarrow> byte list option \<Rightarrow> u16 \<Rightarrow> ('k, 'm, 'x) msg_net
    \<Rightarrow> (bool \<times> ('k, 'm, 'x) msg_net) option" where
  "usr_send os u mc sc pData n w = do {
     usr \<leftarrow> usrs (app w) u;
     if mu_c usr = 0 then Some (False, w)
     else do {
       w1 \<leftarrow> upd_usr u (\<lambda>d. d\<lparr>mu_parser := (mu_parser d)\<lparr>sendPacketCount := sendPacketCount (mu_parser d) + 1\<rparr>\<rparr>) w;
       pack_and_send os (mu_c usr) mc sc pData n w1
     }
   }"

definition usr_close :: "'k os \<Rightarrow> ('k, 'm, 'x) usr_close_handle \<Rightarrow> nat \<Rightarrow> int \<Rightarrow> ('k, 'm, 'x) msg_net
    \<Rightarrow> ('k, 'm, 'x) msg_net option" where
  "usr_close os uc u errorCode w = do {
     usr \<leftarrow> usrs (app w) u;
     evnet_closechannel os (msg_closing uc) (mu_c usr) errorCode w
   }"

text \<open>
  \<^verbatim>\<open>_acceptor_callback\<close>; \<open>ext\<close> is what zero bytes are for the application's part of the object. The
  result of \<^verbatim>\<open>evnet_channelbind\<close> is not looked at.
\<close>

definition msgd_accepted :: "'k os \<Rightarrow> ('k, 'm, 'x) usr_close_handle \<Rightarrow> 'x \<Rightarrow> nat \<Rightarrow> nat \<Rightarrow> ('k, 'm, 'x) msg_net
    \<Rightarrow> ('k, 'm, 'x) msg_net option" where
  "msgd_accepted os uc ext m c w = do {
     md \<leftarrow> msgds (app w) m;
     if md_maxCon md \<le> md_curCon md then evnet_closechannel os (msg_closing uc) c 0 w
     else do {
       let u = next_obj (app w);
       let usr = \<lparr>cbUsrStatus = 0, mu_parser = msgparser_zero, mu_gid = g_ID (app w), mu_c = c, mu_msgd = m, mu_ext = ext\<rparr>;
       let w1 = w\<lparr>app := (app w)\<lparr>usrs := (usrs (app w))(u \<mapsto> usr), next_obj := u + 1, g_ID := g_ID (app w) + 1\<rparr>\<rparr>;
       (ok, w2) \<leftarrow> evnet_channelbind os c Msgd_Channel (word_of_int (md_timeout md)) u w1;
       upd_msgd m (\<lambda>d. d\<lparr>md_curCon := md_curCon d + 1\<rparr>) w2
     }
   }"

text \<open>The address of the new server, 0 for \<^verbatim>\<open>NULL\<close>.\<close>

definition msgd_start :: "'k os \<Rightarrow> 'm \<Rightarrow> 'm option \<Rightarrow> u16 \<Rightarrow> int \<Rightarrow> int \<Rightarrow> ('k, 'm, 'x) msg_net
    \<Rightarrow> (nat \<times> ('k, 'm, 'x) msg_net) option" where
  "msgd_start os handler close port maxCon tmo w = do {
     let m = next_obj (app w);
     let (a, w1) = evnet_createacceptor os port Msgd_Acceptor m (w\<lparr>app := (app w)\<lparr>next_obj := m + 1\<rparr>\<rparr>);
     if a = 0 then Some (0, w1)
     else do {
       let md = \<lparr>md_handler = handler, md_pfnClose = close, md_timeout = tmo, md_maxCon = maxCon, md_acceptor = a, md_curCon = 0\<rparr>;
       (r, w2) \<leftarrow> evnet_acceptorstart os a (w1\<lparr>app := (app w1)\<lparr>msgds := (msgds (app w1))(m \<mapsto> md)\<rparr>\<rparr>);
       Some (m, w2)
     }
   }"

definition msgd_stop :: "'k os \<Rightarrow> nat \<Rightarrow> ('k, 'm, 'x) msg_net \<Rightarrow> ('k, 'm, 'x) msg_net option" where
  "msgd_stop os m w = do {
     md \<leftarrow> msgds (app w) m;
     w1 \<leftarrow> evnet_acceptorstop os (md_acceptor md) w;
     w2 \<leftarrow> evnet_destroyacceptor os (md_acceptor md) w1;
     Some (w2\<lparr>app := (app w2)\<lparr>msgds := (msgds (app w2))(m := None)\<rparr>\<rparr>)
   }"

section \<open>The client\<close>

definition msgc_continte :: "('k, 'm, 'x) usr_handle \<Rightarrow> nat \<Rightarrow> u16 \<Rightarrow> u16 \<Rightarrow> byte list \<Rightarrow> ('k, 'm, 'x) msg_net
    \<Rightarrow> (bool \<times> ('k, 'm, 'x) msg_net) option" where
  "msgc_continte uh m mc sc d w = do { c \<leftarrow> msgcs (app w) m; uh (mc_handler c) m mc sc d w }"

definition msgc_data :: "'k os \<Rightarrow> ('k, 'm, 'x) usr_handle \<Rightarrow> ('k, 'm, 'x) usr_close_handle \<Rightarrow> nat \<Rightarrow> nat
    \<Rightarrow> ('k, 'm, 'x) msg_net \<Rightarrow> ('k, 'm, 'x) msg_net option" where
  "msgc_data os uh uc c m w = do {
     mc \<leftarrow> msgcs (app w) m;
     (ok, coder, w1) \<leftarrow> parse_channel (msgc_continte uh m) c (mc_parser mc) w;
     w2 \<leftarrow> upd_msgc m (\<lambda>d. d\<lparr>mc_parser := merge_parser coder (mc_parser d)\<rparr>) w1;
     if ok then Some w2 else evnet_closechannel os (msg_closing uc) c 0 w2
   }"

text \<open>The result of \<^verbatim>\<open>evnet_channelbind\<close> is not looked at.\<close>

definition msgc_open :: "'k os \<Rightarrow> nat \<Rightarrow> 'm \<Rightarrow> 'm option \<Rightarrow> 'x \<Rightarrow> byte list \<Rightarrow> u16 \<Rightarrow> int \<Rightarrow> ('k, 'm, 'x) msg_net
    \<Rightarrow> (bool \<times> ('k, 'm, 'x) msg_net) option" where
  "msgc_open os m handler close usrdata ip port tmo w = do {
     w1 \<leftarrow> upd_msgc m (\<lambda>d. d\<lparr>mc_handler := handler, mc_pfnclose := close, mc_usrdata := usrdata, mc_timeout := tmo\<rparr>) w;
     (c, w2) \<leftarrow> evnet_createchannel os ip port w1;
     w3 \<leftarrow> upd_msgc m (\<lambda>d. d\<lparr>mc_c := c\<rparr>) w2;
     if c = 0 then Some (False, w3)
     else do {
       (ok, w4) \<leftarrow> evnet_channelbind os c Msgc_Channel (word_of_int tmo) m w3;
       Some (True, w4)
     }
   }"

definition msgc_send :: "'k os \<Rightarrow> nat \<Rightarrow> u16 \<Rightarrow> u16 \<Rightarrow> byte list option \<Rightarrow> u16 \<Rightarrow> ('k, 'm, 'x) msg_net
    \<Rightarrow> (bool \<times> ('k, 'm, 'x) msg_net) option" where
  "msgc_send os m mc sc pData n w = do {
     d \<leftarrow> msgcs (app w) m;
     if mc_c d = 0 then Some (False, w)
     else do {
       w1 \<leftarrow> upd_msgc m (\<lambda>d. d\<lparr>mc_parser := (mc_parser d)\<lparr>sendPacketCount := sendPacketCount (mc_parser d) + 1\<rparr>\<rparr>) w;
       pack_and_send os (mc_c d) mc sc pData n w1
     }
   }"

definition msgc_close :: "'k os \<Rightarrow> ('k, 'm, 'x) usr_close_handle \<Rightarrow> nat \<Rightarrow> int \<Rightarrow> ('k, 'm, 'x) msg_net
    \<Rightarrow> ('k, 'm, 'x) msg_net option" where
  "msgc_close os uc m errorcode w = do {
     d \<leftarrow> msgcs (app w) m;
     evnet_closechannel os (msg_closing uc) (mc_c d) errorcode w
   }"

section \<open>All handlers\<close>

text \<open>What the library calls: the callbacks of the three files. Messages that a callback does not know are ignored.\<close>

definition msg_dispatch :: "'k os \<Rightarrow> ('k, 'm, 'x) usr_handle \<Rightarrow> ('k, 'm, 'x) usr_close_handle \<Rightarrow> 'x
    \<Rightarrow> (msg_proc, nat, 'k, ('m, 'x) msg_app) dispatch" where
  "msg_dispatch os uh uc ext p usr msg w = do {
     u \<leftarrow> usr;
     (case p of
        Msgd_Acceptor \<Rightarrow> (case msg of EVACCEPTED c \<Rightarrow> msgd_accepted os uc ext u c w | _ \<Rightarrow> None)
      | Msgd_Channel \<Rightarrow> (case msg of
            EVDATA c \<Rightarrow> msgd_data os uh uc c u w
          | EVCLOSED c e \<Rightarrow> msgd_closed uc u w
          | _ \<Rightarrow> (if usrs (app w) u = None then None else Some w))
      | Msgc_Channel \<Rightarrow> (case msg of
            EVDATA c \<Rightarrow> msgc_data os uh uc c u w
          | EVCLOSED c e \<Rightarrow> msgc_closed uc u w
          | _ \<Rightarrow> Some w))
   }"

end
