(* ===== verification/Channel_App.thy ===== *)
theory Channel_App
  imports Libnet
begin

text \<open>
  The state of the layers above the library: only their own handlers change it. Shared by the theories of
  the message server and of the HTTP server.
\<close>

section \<open>What the library does to the layers above\<close>

text \<open>The library changes their state only by calling the handlers.\<close>

lemma upd_channel_app: "upd_channel w a f = Some w' \<Longrightarrow> app w' = app w"
  by (auto simp: upd_channel_def split: option.splits)

lemma unlink_app: "unlink_channel a w = Some w' \<Longrightarrow> app w' = app w"
  by (auto simp: unlink_channel_def Let_def Option.bind_eq_Some_conv dest!: upd_channel_app split: if_splits)

lemma event_app:
  "add_event os fd msk p a w = Some (r, w') \<Longrightarrow> app w' = app w" "del_event os fd msk w = Some w' \<Longrightarrow> app w' = app w"
  by (auto simp: add_event_def del_event_def Option.bind_eq_Some_conv)

lemma disable_app: "disable os fl msk a w = Some w' \<Longrightarrow> app w' = app w"
  by (auto simp: disable_def Option.bind_eq_Some_conv dest!: upd_channel_app event_app split: if_splits)

lemma bind_app: "channel_bind os a h tmo usr w = Some (ok, w') \<Longrightarrow> app w' = app w"
  by (fastforce simp: channel_bind_def Let_def Option.bind_eq_Some_conv dest!: upd_channel_app event_app
      split: if_splits prod.splits)

lemma send_app: "channel_send os a data w = Some (ok, w') \<Longrightarrow> app w' = app w"
  by (fastforce simp: channel_send_def Option.bind_eq_Some_conv dest!: upd_channel_app event_app split: if_splits)

lemma create_app: "channel_create fd ip port ups w = Some (c, w') \<Longrightarrow> app w' = app w"
  by (auto simp: channel_create_def link_channel_def Let_def Option.bind_eq_Some_conv dest!: upd_channel_app split: if_splits)

text \<open>What every handler of \<open>EVCLOSED\<close> keeps, closing a channel keeps.\<close>

lemma close_app:
  assumes hnd: "\<And>h u e w1 w2. P (app w1) \<Longrightarrow> hnd h u (EVCLOSED a e) w1 = Some w2 \<Longrightarrow> P (app w2)"
    and P: "P (app w)" and cl: "channel_close os hnd a e w = Some w'"
  shows "P (app w')"
proof -
  obtain c w1 w2 w3 w4 w5 d where s: "channels w a = Some c" "unlink_channel a w = Some w1"
    "(case ch_handler c of None \<Rightarrow> Some w1 | Some h \<Rightarrow> hnd h (ch_pUsr c) (EVCLOSED a e) w1) = Some w2"
    "disable os FLG_RECV_ENABLED AE_READABLE a w2 = Some w3" "disable os FLG_SEND_ENABLED AE_WRITABLE a w3 = Some w4"
    "upd_channel w4 a (\<lambda>d. d\<lparr>inDataqueue := dataqueue_remove_data (inDataqueue d) True,
                                outDataqueue := dataqueue_remove_data (outDataqueue d) True\<rparr>) = Some w5"
    "channels w5 a = Some d"
    using cl by (auto simp: channel_close_def Option.bind_eq_Some_conv)
  have "app w' = app w5" using cl s by (auto simp: channel_close_def Let_def)
  also have "app w5 = app w2" using disable_app [OF s(4)] disable_app [OF s(5)] upd_channel_app [OF s(6)] by simp
  finally have "app w' = app w2" .
  moreover have "P (app w1)" using unlink_app [OF s(2)] P by simp
  then have "P (app w2)" using s(3) hnd by (cases "ch_handler c") auto
  ultimately show ?thesis by simp
qed

text \<open>A channel that has been closed is gone.\<close>

lemma close_frees: "channel_close os hnd a e w = Some w' \<Longrightarrow> channels w' a = None"
  by (auto simp: channel_close_def Let_def Option.bind_eq_Some_conv)

end
