(* ===== verification/Channel_Props.thy ===== *)
theory Channel_Props
  imports Sim_Kernel
begin

text \<open>
  The properties of the channels: the list they form, the stream of the bytes that are sent, the
  time-outs, and what ends a channel.
\<close>

section \<open>Two channels\<close>

text \<open>For the witnesses: two outgoing channels are created, one of them is bound.\<close>

definition sim_two :: "(nat, unit, sim_kernel, unit) libnet option" where
  "sim_two = do {
     (r, w1) \<leftarrow> evnet_init sim_os 8 10 1 net_start;
     (a, w2) \<leftarrow> evnet_createchannel sim_os ''10.0.0.1'' 80 w1;
     (b, w3) \<leftarrow> evnet_createchannel sim_os ''10.0.0.2'' 80 w2;
     (ok, w4) \<leftarrow> evnet_channelbind sim_os b 1 60 () w3;
     if r = 0 then Some w4 else None
   }"

lemma sim_two_ok: "map_option (\<lambda>w. channelHead w = 2 \<and> ring (nx_of w) (pv_of w) [2, 1] \<and> map_option ch_fd (channels w 1) = Some 4
    \<and> map_option (\<lambda>c. (ch_handler c, outDataqueue c)) (channels w 2) = Some (Some 1, dq_init)
    \<and> sk_sent (kernel w) 5 = [] \<and> map_option ch_fd (channels w 2) = Some 5) sim_two = Some True"
  by code_simp

lemma sim_twoE:
  obtains w c where "sim_two = Some w" "net_inv 8 sim_kv {} {} w" "channel_ring w [2, 1]"
    "channels w 2 = Some c" "ch_handler c \<noteq> None" "outDataqueue c = dq_init" "sk_sent (kernel w) (ch_fd c) = []"
proof -
  obtain w c d where w: "sim_two = Some w" "channelHead w = 2" "ring (nx_of w) (pv_of w) [2, 1]"
    "channels w 2 = Some c" "channels w 1 = Some d"
    "ch_handler c = Some 1" "outDataqueue c = dq_init" "ch_fd c = 5" "sk_sent (kernel w) 5 = []"
    using sim_two_ok by auto
  then obtain w1 a w2 b w3 ok where r: "evnet_init sim_os 8 10 1 net_start = Some (0, w1)"
    "evnet_createchannel sim_os ''10.0.0.1'' 80 w1 = Some (a, w2)" "evnet_createchannel sim_os ''10.0.0.2'' 80 w2 = Some (b, w3)"
    "evnet_channelbind sim_os b 1 60 () w3 = Some (ok, w)"
    by (auto simp: sim_two_def Option.bind_eq_Some_conv split: if_splits)
  have "net_step sim_os discard w1 w2" "net_step sim_os discard w2 w3"
    by (rule net_step.create [OF r(2)] net_step.create [OF r(3)], simp add: IPSTRSIZE_def)+
  moreover have "net_step sim_os discard w3 w" by (rule net_step.bind [OF r(4)])
  ultimately have "(net_step sim_os discard)\<^sup>*\<^sup>* w1 w" by (metis converse_rtranclp_into_rtranclp r_into_rtranclp)
  then have "net_inv (int 8) sim_kv {} {} w" by (rule reachable_inv [OF discard_env net_start_fresh r(1)])
  moreover have "channel_ring w [2, 1]" using w(2-5) by (auto simp: channel_ring_def)
  ultimately show thesis using that w by simp
qed

section \<open>The list of the channels\<close>

text \<open>
  C30. The ring of \<^verbatim>\<open>next\<close> and \<^verbatim>\<open>prev\<close> pointers implements a list: \<^verbatim>\<open>channel_create\<close> puts a new channel
  in front, \<^verbatim>\<open>channel_close\<close> takes exactly the closed one out, wherever it is, in front of which
  there can only be channels that the handler of the closing has created.
\<close>

theorem channel_list_refinement:
  assumes "os_spec os kv" and "handlers_ok N kv hnd" and "close_keeps_ring hnd" and "net_inv N kv R D w"
    and "channel_ring w xs"
  shows "(\<forall>fd ip port ups. length ip < IPSTRSIZE \<longrightarrow>
      (\<exists>a w'. channel_create fd ip port ups w = Some (a, w') \<and> channel_ring w' (a # xs)))
    \<and> (\<forall>a\<in>set xs - D. \<forall>e. \<exists>w' ns. channel_close os hnd a e w = Some w' \<and> channel_ring w' (ns @ remove1 a xs))"
proof (intro conjI allI ballI impI)
  fix fd port ups and ip :: "byte list" assume "length ip < IPSTRSIZE"
  then show "\<exists>a w'. channel_create fd ip port ups w = Some (a, w') \<and> channel_ring w' (a # xs)"
    using create_ring(1) [OF assms(5)] net_inv_memD(1,3) [OF assms(4)] by blast
next
  fix a e assume a: "a \<in> set xs - D"
  then have "a \<in> dom (channels w)" using assms(5) unfolding channel_ring_def by blast
  then show "\<exists>w' ns. channel_close os hnd a e w = Some w' \<and> channel_ring w' (ns @ remove1 a xs)"
    using close_correct [OF assms(1,2,4), of a e] a assms(3,5) by (auto simp: returns_def)
qed

theorem channel_list_refinement_witness:
  "\<exists>w w' ns. sim_two = Some w \<and> channel_close sim_os discard 2 0 w = Some w' \<and> channel_ring w' (ns @ [1])"
proof -
  obtain w where w: "sim_two = Some w" "net_inv 8 sim_kv {} {} w" "channel_ring w [2, 1]" by (rule sim_twoE)
  have "\<forall>a\<in>set [2, 1] - {}. \<forall>e. \<exists>w' ns. channel_close sim_os discard a e w = Some w' \<and> channel_ring w' (ns @ remove1 a [2, 1])"
    using channel_list_refinement [OF evnet_envD(6) [OF discard_env] discard_ok evnet_envD(5) [OF discard_env] w(2,3)] by simp
  then show ?thesis using w(1) by fastforce
qed

section \<open>The stream of bytes\<close>

text \<open>What a channel has sent so far followed by what it has still to send.\<close>

definition out_stream :: "('k \<Rightarrow> int \<Rightarrow> byte list) \<Rightarrow> ('h, 'u, 'k, 'a) libnet \<Rightarrow> nat \<Rightarrow> byte list option" where
  "out_stream sent w a = map_option (\<lambda>c. sent (kernel w) (ch_fd c) @ dq_contents (outDataqueue c)) (channels w a)"

text \<open>The clock and the registration of events send nothing.\<close>

definition sent_kept :: "'k os \<Rightarrow> ('k \<Rightarrow> int \<Rightarrow> byte list) \<Rightarrow> bool" where
  "sent_kept os sent \<longleftrightarrow> (\<forall>op fd ev k. sent (snd (sys_epoll_ctl os op fd ev k)) = sent k)
     \<and> (\<forall>k. sent (snd (sys_time os k)) = sent k)"

lemma send_frame:
  assumes keep: "sent_kept os sent" and a: "channels w a = Some c" and sd: "channel_send os a data w = Some (ok, w')"
  obtains f q where "dataqueue_insert_data (outDataqueue c) data = Some q" "sent (kernel w') = sent (kernel w)"
    "channels w' a = Some (c\<lparr>outDataqueue := q, flg := f\<rparr>)"
proof -
  obtain q where q: "dataqueue_insert_data (outDataqueue c) data = Some q"
    using sd a by (auto simp: channel_send_def Option.bind_eq_Some_conv)
  have add: "sent (kernel w2) = sent (kernel w1) \<and> channels w2 = channels w1"
    if "add_event os fd msk p b w1 = Some (r, w2)" for fd msk p b w1 r w2
    using that ctl_frame(1) [of sent "sys_epoll_ctl os"] keep
    by (auto simp: add_event_def sent_kept_def Option.bind_eq_Some_conv)
  have "sent (kernel w') = sent (kernel w) \<and> (\<exists>f. channels w' a = Some (c\<lparr>outDataqueue := q, flg := f\<rparr>))"
  proof (cases "flag_set (flg c) FLG_SEND_ENABLED")
    case True
    then show ?thesis using sd a q by (auto simp: channel_send_def upd_channel_def intro!: exI [of _ "flg c"])
  next
    case False
    let ?w1 = "w\<lparr>channels := (channels w)(a \<mapsto> c\<lparr>outDataqueue := q\<rparr>)\<rparr>"
    obtain r w2 where ad: "add_event os (ch_fd c) AE_WRITABLE Write_Callback a ?w1 = Some (r, w2)"
      using sd a q False by (auto simp: channel_send_def upd_channel_def Option.bind_eq_Some_conv)
    then show ?thesis using sd a q False add [OF ad]
      by (cases "r = 0") (auto simp: channel_send_def upd_channel_def
          intro: exI [of _ "flg c"] exI [of _ "flg c OR FLG_SEND_ENABLED"])
  qed
  then show thesis using that q by blast
qed

lemma write_out_stream:
  assumes os: "os_ok os kv sent" and keep: "sent_kept os sent" and inv: "net_inv N kv R D w"
    and a: "channels w a = Some c" and wr: "write_out os hnd a w = Some (True, r, w')"
  shows "out_stream sent w' a = out_stream sent w a"
    and "0 < dataSize (outDataqueue c) \<Longrightarrow> \<exists>c'. channels w' a = Some c'
      \<and> length (dq_contents (outDataqueue c')) < length (dq_contents (outDataqueue c))"
proof -
  have ss: "send_spec os sent" using os by (simp add: os_ok_def)
  have ok: "dq_inv (outDataqueue c)" using net_invD(2) [OF inv a] by (simp add: chan_ok_def)
  have both: "out_stream sent w' a = out_stream sent w a \<and> (\<exists>c'. channels w' a = Some c'
      \<and> length (dq_contents (outDataqueue c')) < length (dq_contents (outDataqueue c)))" if D: "0 < dataSize (outDataqueue c)"
  proof (rule write_out_chunk [OF ss a ok D, where hnd = hnd])
    fix q chunk r1 k1
    assume ch: "chunk \<noteq> []" "prefix chunk (dq_contents (outDataqueue c))" "aesocwrite os (ch_fd c) chunk (kernel w) = (r1, k1)"
      and bad: "r1 \<le> 0 \<Longrightarrow> write_out os hnd a w = do { w2 \<leftarrow> channel_close os hnd a (-1)
         (w\<lparr>kernel := k1, channels := (channels w)(a \<mapsto> c\<lparr>outDataqueue := q\<rparr>)\<rparr>); Some (False, r1, w2) }"
      and good: "0 < r1 \<Longrightarrow> \<exists>now k2 q'. unix_time os k1 = (now, k2)
       \<and> write_out os hnd a w = Some (True, r1, w\<lparr>kernel := k2,
           channels := (channels w)(a \<mapsto> c\<lparr>lastinteraction := now, outDataqueue := q'\<rparr>)\<rparr>)
       \<and> dq_inv q' \<and> dq_contents q' = drop (nat r1) (dq_contents (outDataqueue c)) \<and> nat r1 \<le> length chunk"
    have pos: "0 < r1"
    proof (rule ccontr)
      assume "\<not> 0 < r1"
      then obtain w2 where "write_out os hnd a w = Some (False, r1, w2)"
        using bad wr by (cases "channel_close os hnd a (-1) (w\<lparr>kernel := k1, channels := (channels w)(a \<mapsto> c\<lparr>outDataqueue := q\<rparr>)\<rparr>)") auto
      then show False using wr by simp
    qed
    obtain now k2 q' where k2: "unix_time os k1 = (now, k2)" "nat r1 \<le> length chunk"
      and q': "dq_contents q' = drop (nat r1) (dq_contents (outDataqueue c))"
      and w': "w' = w\<lparr>kernel := k2, channels := (channels w)(a \<mapsto> c\<lparr>lastinteraction := now, outDataqueue := q'\<rparr>)\<rparr>"
      using good [OF pos] wr by auto
    have "sent k2 = sent k1" using k2(1) keep by (auto simp: unix_time_def sent_kept_def split: prod.splits) (metis snd_conv)
    moreover have "sent k1 = (sent (kernel w))(ch_fd c := sent (kernel w) (ch_fd c) @ take (nat r1) chunk)"
      using aesocwrite_correct(1) [OF ss ch(3) pos] by simp
    moreover have "take (nat r1) chunk = take (nat r1) (dq_contents (outDataqueue c))" using ch(2) k2(2) by (auto simp: prefix_def)
    moreover have "0 < length (dq_contents (outDataqueue c))" using ch(1,2) by (auto simp: prefix_def)
    ultimately show ?thesis using w' q' a pos by (auto simp: out_stream_def)
  qed
  then show "0 < dataSize (outDataqueue c) \<Longrightarrow> \<exists>c'. channels w' a = Some c'
      \<and> length (dq_contents (outDataqueue c')) < length (dq_contents (outDataqueue c))" by blast
  show "out_stream sent w' a = out_stream sent w a"
    using both wr a by (cases "0 < dataSize (outDataqueue c)") (auto simp: write_out_def)
qed



section \<open>Time-outs\<close>

text \<open>
  C32. The check of the time-outs never closes the last channel of a ring of two or more, however
  long it has been idle: the loop stops when the next channel is the last one.
\<close>

theorem last_channel_never_times_out:
  assumes "os_spec os kv" and "handlers_ok N kv hnd" and "close_keeps_ring hnd" and "net_inv N kv {} {} w"
    and "channel_ring w xs" and "2 \<le> length xs"
  shows "\<exists>w' ps. channel_crond os hnd w = Some w' \<and> channel_ring w' (ps @ [last xs])"
proof -
  have ne: "xs \<noteq> []" using assms(6) by auto
  have "channelHead w = hd xs" "hd xs \<noteq> 0" using assms(5) ne unfolding channel_ring_def by (metis, metis hd_in_set)
  then show ?thesis using check_timeouts_correct [OF assms(1-5) ne] assms(6)
    by (auto simp: returns_def channel_crond_def)
qed

theorem last_channel_never_times_out_witness:
  "\<exists>w w' ps. sim_two = Some w \<and> channel_crond sim_os discard w = Some w' \<and> channel_ring w' (ps @ [1])"
proof -
  obtain w where w: "sim_two = Some w" "net_inv 8 sim_kv {} {} w" "channel_ring w [2, 1]" by (rule sim_twoE)
  show ?thesis
    using last_channel_never_times_out [OF evnet_envD(6) [OF discard_env] discard_ok evnet_envD(5) [OF discard_env] w(2,3)] w(1)
    by auto
qed

section \<open>What ends a channel\<close>

text \<open>
  C33. Reading ends the channel not only on an error or the end of the stream: a \<^verbatim>\<open>recv\<close> that would
  block or was interrupted by a signal closes it as well, and so does a \<^verbatim>\<open>send\<close> that would block.
  Bytes still queued for sending are lost.
\<close>

theorem would_block_closes:
  assumes "channels w a = Some c" and "connected c"
  shows "(\<forall>r e buf k1. sys_recv os (ch_fd c) BUFF_LEN (kernel w) = ((r, e, buf), k1) \<and> r \<le> 0 \<longrightarrow>
      read_callback os hnd a w = channel_close os hnd a (-1) (w\<lparr>kernel := k1\<rparr>))
    \<and> (\<forall>q chunk r e k1. 0 < dataSize (outDataqueue c) \<and> dq_peek (outDataqueue c) = Some (q, chunk) \<and> chunk \<noteq> []
        \<and> sys_send os (ch_fd c) chunk (kernel w) = ((r, e), k1) \<and> r \<le> 0 \<longrightarrow>
      write_callback os hnd a w = channel_close os hnd a (-1)
        (w\<lparr>kernel := k1, channels := (channels w)(a \<mapsto> c\<lparr>outDataqueue := q\<rparr>)\<rparr>))"
proof (intro conjI allI impI)
  fix r e buf k1 assume "sys_recv os (ch_fd c) BUFF_LEN (kernel w) = ((r, e, buf), k1) \<and> r \<le> 0"
  then obtain r' where "aesocread os (ch_fd c) BUFF_LEN (kernel w) = ((r', []), k1)" "r' \<le> 0"
    by (cases "r < 0") (auto simp: aesocread_def BUFF_LEN_def)
  then show "read_callback os hnd a w = channel_close os hnd a (-1) (w\<lparr>kernel := k1\<rparr>)"
    using assms by (simp add: read_callback_def read_data_def)
next
  fix q chunk r e k1
  assume s: "0 < dataSize (outDataqueue c) \<and> dq_peek (outDataqueue c) = Some (q, chunk) \<and> chunk \<noteq> []
        \<and> sys_send os (ch_fd c) chunk (kernel w) = ((r, e), k1) \<and> r \<le> 0"
  then obtain r' where "aesocwrite os (ch_fd c) chunk (kernel w) = (r', k1)" "r' \<le> 0"
    by (cases "r < 0") (auto simp: aesocwrite_def)
  then show "write_callback os hnd a w = channel_close os hnd a (-1)
        (w\<lparr>kernel := k1, channels := (channels w)(a \<mapsto> c\<lparr>outDataqueue := q\<rparr>)\<rparr>)"
    using assms s by (cases "channel_close os hnd a (-1) (w\<lparr>kernel := k1, channels := (channels w)(a \<mapsto> c\<lparr>outDataqueue := q\<rparr>)\<rparr>)")
      (simp_all add: write_callback_def write_data_def write_out_def upd_channel_def)
qed

theorem would_block_closes_witness:
  "let w = net_start\<lparr>channels := [1 \<mapsto> (new_channel 5 ''10.0.0.1'' 80 False)\<lparr>connected := True\<rparr>], kernel := sim_start\<lparr>sk_in := \<lambda>_. []\<rparr>\<rparr>
   in read_callback sim_os discard 1 w = channel_close sim_os discard 1 (-1) w"
proof -
  let ?w = "net_start\<lparr>channels := [1 \<mapsto> (new_channel 5 ''10.0.0.1'' 80 False)\<lparr>connected := True\<rparr>], kernel := sim_start\<lparr>sk_in := \<lambda>_. []\<rparr>\<rparr>"
  have "sys_recv sim_os 5 BUFF_LEN (kernel ?w) = ((-1, EWOULDBLOCK, []), kernel ?w)"
    by (simp add: sim_os_def sim_recv_def BUFF_LEN_def)
  then show ?thesis
    using would_block_closes [of ?w 1 "(new_channel 5 ''10.0.0.1'' 80 False)\<lparr>connected := True\<rparr>", THEN conjunct1, rule_format, of sim_os "-1" EWOULDBLOCK "[]" "kernel ?w" discard]
    by (simp add: Let_def)
qed

end
