(* ===== verification/Msg_Count.thy ===== *)
theory Msg_Count
  imports Msg_Net Channel_App Channel_Props
begin

text \<open>
  The connections of a message server: the counter \<^verbatim>\<open>curCon\<close> is the number of its user objects and
  stays within the limit, whatever the callbacks and the application do.
\<close>

section \<open>The counter\<close>

definition users_of :: "nat \<Rightarrow> ('m, 'x) msg_app \<Rightarrow> nat set" where
  "users_of m s = {u. \<exists>usr. usrs s u = Some usr \<and> mu_msgd usr = m}"

definition msgd_count :: "nat \<Rightarrow> ('m, 'x) msg_app \<Rightarrow> bool" where
  "msgd_count m s \<longleftrightarrow> (\<exists>md. msgds s m = Some md \<and> md_curCon md = int (card (users_of m s)) \<and> md_curCon md \<le> max 0 (md_maxCon md))
     \<and> finite (users_of m s) \<and> (\<forall>u. next_obj s \<le> u \<longrightarrow> usrs s u = None) \<and> m < next_obj s"

lemma msgd_countE:
  assumes "msgd_count m s"
  obtains md where "msgds s m = Some md" "md_curCon md = int (card (users_of m s))" "md_curCon md \<le> max 0 (md_maxCon md)"
    "finite (users_of m s)" "\<forall>u. next_obj s \<le> u \<longrightarrow> usrs s u = None" "m < next_obj s"
  using assms by (auto simp: msgd_count_def)

text \<open>
  What is asked of the application: its functions keep the counts (they may close connections and
  start servers), and do not let the object they are called for be freed.
\<close>

definition close_handlers_count :: "nat \<Rightarrow> ('k, 'm, 'x) usr_close_handle \<Rightarrow> bool" where
  "close_handlers_count m uc \<longleftrightarrow> (\<forall>f u w w'. msgd_count m (app w) \<and> uc f u w = Some w' \<longrightarrow> msgd_count m (app w')
     \<and> (\<forall>usr. usrs (app w) u = Some usr \<longrightarrow> (\<exists>usr'. usrs (app w') u = Some usr' \<and> mu_msgd usr' = mu_msgd usr)))"

lemma close_handlers_countD:
  assumes "close_handlers_count m uc" and "msgd_count m (app w)" and "uc f u w = Some w'"
  shows "msgd_count m (app w')"
    and "usrs (app w) u = Some usr \<Longrightarrow> \<exists>usr'. usrs (app w') u = Some usr' \<and> mu_msgd usr' = mu_msgd usr"
  using assms unfolding close_handlers_count_def by blast+

lemma closed_count:
  assumes uc: "close_handlers_count m uc" and inv: "msgd_count m (app w)" and cl: "msgd_closed uc u w = Some w'"
  shows "msgd_count m (app w')"
proof -
  obtain usr md w1 w2 usr2 where s: "usrs (app w) u = Some usr" "msgds (app w) (mu_msgd usr) = Some md"
    "(case md_pfnClose md of None \<Rightarrow> Some w | Some f \<Rightarrow> uc f u w) = Some w1"
    "upd_msgd (mu_msgd usr) (\<lambda>d. d\<lparr>md_curCon := md_curCon d - 1\<rparr>) w1 = Some w2" "usrs (app w2) u = Some usr2"
    "app w' = (app w2)\<lparr>usrs := (usrs (app w2))(u := None)\<rparr>"
    using cl by (auto simp: msgd_closed_def Let_def Option.bind_eq_Some_conv)
  have w1: "msgd_count m (app w1)" "\<exists>usr'. usrs (app w1) u = Some usr' \<and> mu_msgd usr' = mu_msgd usr"
    using s(1,3) inv close_handlers_countD [OF uc inv] by (cases "md_pfnClose md"; auto)+
  then obtain usr1 where usr1: "usrs (app w1) u = Some usr1" "mu_msgd usr1 = mu_msgd usr" by blast
  obtain md1 where md1: "msgds (app w1) m = Some md1" "md_curCon md1 = int (card (users_of m (app w1)))"
    "md_curCon md1 \<le> max 0 (md_maxCon md1)" "finite (users_of m (app w1))" "\<forall>u. next_obj (app w1) \<le> u \<longrightarrow> usrs (app w1) u = None"
    "m < next_obj (app w1)"
    by (rule msgd_countE [OF w1(1)])
  obtain md2 where md2: "msgds (app w1) (mu_msgd usr) = Some md2"
    "app w2 = (app w1)\<lparr>msgds := (msgds (app w1))(mu_msgd usr \<mapsto> md2\<lparr>md_curCon := md_curCon md2 - 1\<rparr>)\<rparr>"
    using s(4) by (auto simp: upd_msgd_def split: option.splits)
  have users: "users_of m (app w') = users_of m (app w1) - {u}"
    using s(6) md2(2) by (auto simp: users_of_def)
  have "u \<in> users_of m (app w1) \<longleftrightarrow> mu_msgd usr = m" using usr1 by (auto simp: users_of_def)
  moreover from this have "card (users_of m (app w')) = (if mu_msgd usr = m then card (users_of m (app w1)) - 1 else card (users_of m (app w1)))"
    using users md1(4) by (auto simp: card_Diff_singleton)
  moreover have "0 < card (users_of m (app w1))" if "mu_msgd usr = m"
    using that calculation(1) md1(4) by (auto simp: card_gt_0_iff)
  ultimately show ?thesis
    using s(6) md1 md2 users by (auto simp: msgd_count_def)
qed

lemma closing_count:
  assumes uc: "close_handlers_count m uc" and inv: "msgd_count m (app w)"
    and cl: "evnet_closechannel os (msg_closing uc) c e w = Some w'"
  shows "msgd_count m (app w')"
proof (rule close_app [where P = "msgd_count m", OF _ inv cl [unfolded evnet_closechannel_def]])
  fix p u e w1 w2 assume a: "msgd_count m (app w1)" "msg_closing uc p u (EVCLOSED c e) w1 = Some w2"
  then obtain v where v: "u = Some v" by (cases u) (simp_all add: msg_closing_def)
  show "msgd_count m (app w2)"
  proof (cases p)
    case Msgd_Channel
    then show ?thesis using a v closed_count [OF uc a(1)] by (simp add: msg_closing_def)
  next
    case Msgc_Channel
    then have "msgc_closed uc v w1 = Some w2" using a v by (simp add: msg_closing_def)
    then show ?thesis using a(1) close_handlers_countD(1) [OF uc a(1)]
      by (auto simp: msgc_closed_def Option.bind_eq_Some_conv split: option.splits)
  qed (use a v in \<open>simp add: msg_closing_def\<close>)
qed

text \<open>A change that concerns neither the servers' counters nor who belongs to which server.\<close>

lemma msgd_count_cong:
  assumes "msgd_count m s" and "msgds s' m = msgds s m" and "next_obj s \<le> next_obj s'"
    and "\<And>u. map_option mu_msgd (usrs s' u) = map_option mu_msgd (usrs s u)"
  shows "msgd_count m s'"
proof -
  have "users_of m s' = users_of m s"
  proof (intro set_eqI)
    fix u show "u \<in> users_of m s' \<longleftrightarrow> u \<in> users_of m s"
      using assms(4) [of u] by (cases "usrs s' u"; cases "usrs s u") (auto simp: users_of_def)
  qed
  moreover have "usrs s' u = None" if "next_obj s' \<le> u" for u
    using assms(1,3) assms(4) [of u] that by (auto simp: msgd_count_def)
  ultimately show ?thesis using assms(1-3) by (auto simp: msgd_count_def)
qed

lemma upd_usr_count:
  assumes "upd_usr u f w = Some w'" and "\<And>d. mu_msgd (f d) = mu_msgd d" and "msgd_count m (app w)"
  shows "msgd_count m (app w')"
  by (rule msgd_count_cong [OF assms(3)]) (use assms(1,2) in \<open>auto simp: upd_usr_def split: option.splits\<close>)

lemma upd_msgc_count:
  assumes "upd_msgc c f w = Some w'" and "msgd_count m (app w)"
  shows "msgd_count m (app w')"
  by (rule msgd_count_cong [OF assms(2)]) (use assms(1) in \<open>auto simp: upd_msgc_def split: option.splits\<close>)

definition handlers_count :: "nat \<Rightarrow> ('k, 'm, 'x) usr_handle \<Rightarrow> bool" where
  "handlers_count m uh \<longleftrightarrow> (\<forall>f u mc sc d w b w'. msgd_count m (app w) \<and> uh f u mc sc d w = Some (b, w') \<longrightarrow> msgd_count m (app w'))"

text \<open>What the message handler keeps, the parser keeps.\<close>

lemma parser_loop_keeps:
  assumes "\<And>u m s d. Q u \<Longrightarrow> Q (fst (pfn u m s d))"
  shows "parser_loop pfn fuel st u = Some (ok, st1, u1) \<Longrightarrow> Q u \<Longrightarrow> Q u1"
proof (induction fuel arbitrary: st u)
  case (Suc fuel)
  show ?case
  proof (cases "dataSize (snd (snd st)) = 0")
    case False
    then obtain r st2 where cmd: "command st = Some (r, st2)"
      using Suc.prems(1) by (auto simp: Option.bind_eq_Some_conv)
    show ?thesis
    proof (cases r)
      case (Cmd_Packet sz)
      obtain coder buf q where st2: "st2 = (coder, buf, q)" by (cases st2)
      show ?thesis
      proof (cases "unat sz < sizeof_CMD_Head")
        case big: False
        then obtain hd8 d u2 go where d: "mem_read buf 0 sizeof_CMD_Head = Some hd8"
          "mem_read buf sizeof_CMD_Head (unat sz - sizeof_CMD_Head) = Some d"
          "pfn u (wMainCmdID (CommandInfo (bytes_head hd8))) (wSubCmdID (CommandInfo (bytes_head hd8))) d = (u2, go)"
          using Suc.prems(1) False cmd Cmd_Packet st2 by (auto simp: Option.bind_eq_Some_conv Let_def) (metis surj_pair)
        have "Q u2" using assms [OF Suc.prems(2)] d(3) by (metis fst_conv)
        then show ?thesis using Suc.prems(1) Suc.IH False cmd Cmd_Packet st2 big d by (auto simp: Let_def split: if_splits)
      qed (use Suc.prems False cmd Cmd_Packet in auto)
    qed (use Suc.prems False cmd in auto)
  qed (use Suc.prems in auto)
qed simp

lemma parse_channel_count:
  assumes h: "\<And>mc sc d w b w'. msgd_count m (app w) \<Longrightarrow> h mc sc d w = Some (b, w') \<Longrightarrow> msgd_count m (app w')"
    and inv: "msgd_count m (app w)" and pc: "parse_channel h c coder w = Some (ok, coder1, w')"
  shows "msgd_count m (app w')"
proof -
  obtain ch buf q w1 w2 where ch: "channels w c = Some ch" and s: "msgparser_parser (continue_with h) (coder, recvBuffer (app w), inDataqueue ch) (Some w)
      = Some (ok, (coder1, buf, q), Some w1)" "upd_channel w1 c (\<lambda>d. d\<lparr>inDataqueue := q\<rparr>) = Some w2"
    "w' = w2\<lparr>app := (app w2)\<lparr>recvBuffer := buf\<rparr>\<rparr>"
    using pc by (simp add: parse_channel_def Option.bind_eq_Some_conv) blast
  let ?Q = "\<lambda>wo. case wo of None \<Rightarrow> True | Some w \<Rightarrow> msgd_count m (app w)"
  have keeps: "?Q (fst (continue_with h wo mc sc d))" if "?Q wo" for wo mc sc d
    using that h by (cases wo) (auto simp: continue_with_def split: option.splits)
  have "?Q (Some w1)"
    using parser_loop_keeps [of ?Q "continue_with h", OF keeps s(1) [unfolded msgparser_parser_def]] inv by simp
  then have "msgd_count m (app w2)" using upd_channel_app [OF s(2)] by simp
  then show ?thesis by (rule msgd_count_cong) (simp_all add: s(3))
qed

section \<open>The callbacks keep the counter\<close>

lemma accepted_count:
  assumes uc: "close_handlers_count m uc" and inv: "msgd_count m (app w)" and ac: "msgd_accepted os uc ext n c w = Some w'"
  shows "msgd_count m (app w')"
proof -
  obtain md where md: "msgds (app w) n = Some md" using ac by (auto simp: msgd_accepted_def Option.bind_eq_Some_conv)
  show ?thesis
  proof (cases "md_maxCon md \<le> md_curCon md")
    case True
    then have "evnet_closechannel os (msg_closing uc) c 0 w = Some w'" using ac md by (simp add: msgd_accepted_def)
    then show ?thesis by (rule closing_count [OF uc inv])
  next
    case False
    let ?u = "next_obj (app w)"
    let ?usr = "\<lparr>cbUsrStatus = 0, mu_parser = msgparser_zero, mu_gid = g_ID (app w), mu_c = c, mu_msgd = n, mu_ext = ext\<rparr>"
    let ?s = "(app w)\<lparr>usrs := (usrs (app w))(?u \<mapsto> ?usr), next_obj := ?u + 1, g_ID := g_ID (app w) + 1\<rparr>"
    obtain ok w2 where w2: "evnet_channelbind os c Msgd_Channel (word_of_int (md_timeout md)) ?u (w\<lparr>app := ?s\<rparr>) = Some (ok, w2)"
      "upd_msgd n (\<lambda>d. d\<lparr>md_curCon := md_curCon d + 1\<rparr>) w2 = Some w'"
      using ac md False by (auto simp: msgd_accepted_def Let_def Option.bind_eq_Some_conv)
    have "app w2 = ?s" using bind_app [OF w2(1) [unfolded evnet_channelbind_def]] by simp
    then have w': "app w' = ?s\<lparr>msgds := (msgds (app w))(n \<mapsto> md\<lparr>md_curCon := md_curCon md + 1\<rparr>)\<rparr>"
      using w2(2) md by (auto simp: upd_msgd_def)
    obtain mm where mm: "msgds (app w) m = Some mm" "md_curCon mm = int (card (users_of m (app w)))"
      "md_curCon mm \<le> max 0 (md_maxCon mm)" "finite (users_of m (app w))"
      "\<forall>u. ?u \<le> u \<longrightarrow> usrs (app w) u = None" "m < ?u" by (rule msgd_countE [OF inv])
    have new: "usrs (app w) ?u = None" using mm(5) by simp
    have users: "users_of m (app w') = (if n = m then insert ?u (users_of m (app w)) else users_of m (app w))"
      using new by (auto simp: users_of_def w')
    have "?u \<notin> users_of m (app w)" using new by (simp add: users_of_def)
    then have "card (users_of m (app w')) = (if n = m then card (users_of m (app w)) + 1 else card (users_of m (app w)))"
      using users mm(4) by simp
    then show ?thesis using False md mm users by (auto simp: msgd_count_def w')
  qed
qed

lemma data_count:
  assumes uh: "handlers_count m uh" and uc: "close_handlers_count m uc" and inv: "msgd_count m (app w)"
  shows "msgd_data os uh uc c u w = Some w' \<Longrightarrow> msgd_count m (app w')"
    and "msgc_data os uh uc c u w = Some w' \<Longrightarrow> msgd_count m (app w')"
proof -
  have server: "msgd_count m (app w')" if "msgd_count m (app w)" "msgd_continte uh u mc sc d w = Some (b, w')" for mc sc d w b w'
    using that uh by (auto simp: msgd_continte_def handlers_count_def Option.bind_eq_Some_conv)
  have client: "msgd_count m (app w')" if "msgd_count m (app w)" "msgc_continte uh u mc sc d w = Some (b, w')" for mc sc d w b w'
    using that uh by (auto simp: msgc_continte_def handlers_count_def Option.bind_eq_Some_conv)
  have last: "msgd_count m (app w')" if "(if ok then Some w2 else evnet_closechannel os (msg_closing uc) c 0 w2) = Some w'"
    "msgd_count m (app w2)" for ok w2
    using that closing_count [OF uc] by (auto split: if_splits)
  show "msgd_count m (app w')" if run: "msgd_data os uh uc c u w = Some w'"
  proof -
    obtain usr ok coder w1 w2 where u: "usrs (app w) u = Some usr" and s: "parse_channel (msgd_continte uh u) c (mu_parser usr) w = Some (ok, coder, w1)"
      "upd_usr u (\<lambda>d. d\<lparr>mu_parser := merge_parser coder (mu_parser d)\<rparr>) w1 = Some w2"
      "(if ok then Some w2 else evnet_closechannel os (msg_closing uc) c 0 w2) = Some w'"
      using run by (simp add: msgd_data_def Option.bind_eq_Some_conv) blast
    have "msgd_count m (app w1)" by (rule parse_channel_count [OF server inv s(1)])
    then have "msgd_count m (app w2)" using upd_usr_count [OF s(2)] by simp
    with s(3) show ?thesis by (rule last)
  qed
  show "msgd_count m (app w')" if run: "msgc_data os uh uc c u w = Some w'"
  proof -
    obtain mc ok coder w1 w2 where u: "msgcs (app w) u = Some mc" and s: "parse_channel (msgc_continte uh u) c (mc_parser mc) w = Some (ok, coder, w1)"
      "upd_msgc u (\<lambda>d. d\<lparr>mc_parser := merge_parser coder (mc_parser d)\<rparr>) w1 = Some w2"
      "(if ok then Some w2 else evnet_closechannel os (msg_closing uc) c 0 w2) = Some w'"
      using run by (simp add: msgc_data_def Option.bind_eq_Some_conv) blast
    have "msgd_count m (app w1)" by (rule parse_channel_count [OF client inv s(1)])
    then have "msgd_count m (app w2)" using upd_msgc_count [OF s(2)] by simp
    with s(3) show ?thesis by (rule last)
  qed
qed

lemma dispatch_count:
  assumes uh: "handlers_count m uh" and uc: "close_handlers_count m uc" and inv: "msgd_count m (app w)"
    and ds: "msg_dispatch os uh uc ext p usr msg w = Some w'"
  shows "msgd_count m (app w')"
proof -
  obtain u where u: "usr = Some u" using ds by (cases usr) (simp_all add: msg_dispatch_def)
  show ?thesis
  proof (cases p)
    case Msgd_Acceptor
    then show ?thesis using ds u accepted_count [OF uc inv] by (cases msg) (simp_all add: msg_dispatch_def)
  next
    case Msgd_Channel
    then show ?thesis using ds u inv data_count(1) [OF uh uc inv] closed_count [OF uc inv]
      by (cases msg) (auto simp: msg_dispatch_def split: if_splits)
  next
    case Msgc_Channel
    then show ?thesis using ds u inv data_count(2) [OF uh uc inv] close_handlers_countD(1) [OF uc inv]
      by (cases msg) (auto simp: msg_dispatch_def msgc_closed_def Option.bind_eq_Some_conv split: option.splits)
  qed
qed

lemma pack_and_send_count:
  assumes "pack_and_send os c mc sc d n w = Some (ok, w')" and "msgd_count m (app w)"
  shows "msgd_count m (app w')"
proof -
  obtain buf and sz :: u16 where s: "evnet_channelsend os c (take (unat sz) buf) (w\<lparr>app := (app w)\<lparr>sendBuffer := buf\<rparr>\<rparr>) = Some (ok, w')"
    using assms(1) by (auto simp: pack_and_send_def Option.bind_eq_Some_conv)
  show ?thesis using send_app [OF s [unfolded evnet_channelsend_def]] by (intro msgd_count_cong [OF assms(2)]) simp_all
qed

section \<open>Runs\<close>

text \<open>
  What happens to the messages' layer: the library calls one of its callbacks, the application
  sends, closes, opens a connection or starts another server, and the library and the kernel do
  what does not concern this layer.
\<close>

inductive msg_step :: "'k os \<Rightarrow> ('k, 'm, 'x) usr_handle \<Rightarrow> ('k, 'm, 'x) usr_close_handle \<Rightarrow> 'x
    \<Rightarrow> ('k, 'm, 'x) msg_net \<Rightarrow> ('k, 'm, 'x) msg_net \<Rightarrow> bool"
  for os :: "'k os" and uh :: "('k, 'm, 'x) usr_handle" and uc :: "('k, 'm, 'x) usr_close_handle" and ext :: 'x where
  call: "msg_dispatch os uh uc ext p usr msg w = Some w' \<Longrightarrow> msg_step os uh uc ext w w'"
| send: "usr_send os u mc sc d n w = Some (ok, w') \<Longrightarrow> msg_step os uh uc ext w w'"
| send_client: "msgc_send os u mc sc d n w = Some (ok, w') \<Longrightarrow> msg_step os uh uc ext w w'"
| close: "usr_close os uc u e w = Some w' \<Longrightarrow> msg_step os uh uc ext w w'"
| close_client: "msgc_close os uc u e w = Some w' \<Longrightarrow> msg_step os uh uc ext w w'"
| start: "msgd_start os h cl port maxCon tmo w = Some (m, w') \<Longrightarrow> msg_step os uh uc ext w w'"
| library: "app w' = app w \<Longrightarrow> msg_step os uh uc ext w w'"

lemma start_count:
  assumes "msgd_start os h cl port maxCon tmo w = Some (n, w')" and inv: "msgd_count m (app w)"
  shows "msgd_count m (app w')"
proof -
  let ?m = "next_obj (app w)" and ?w = "w\<lparr>app := (app w)\<lparr>next_obj := next_obj (app w) + 1\<rparr>\<rparr>"
  obtain a w1 where a: "evnet_createacceptor os port Msgd_Acceptor ?m ?w = (a, w1)" by fastforce
  have app1: "app w1 = app ?w" using a by (auto simp: evnet_createacceptor_def acceptor_create_def Let_def split: prod.splits if_splits)
  have m: "m < ?m" by (rule msgd_countE [OF inv])
  show ?thesis
  proof (cases "a = 0")
    case True
    then show ?thesis using assms(1) a app1 by (intro msgd_count_cong [OF inv]) (simp_all add: msgd_start_def Let_def)
  next
    case False
    then have "\<exists>md. app w' = (app w1)\<lparr>msgds := (msgds (app w1))(?m \<mapsto> md)\<rparr>"
      using assms(1) a by (auto simp: msgd_start_def Let_def Option.bind_eq_Some_conv evnet_acceptorstart_def
          acceptor_start_def dest!: event_app)
    then show ?thesis using app1 m by (intro msgd_count_cong [OF inv]) auto
  qed
qed

lemma msg_step_count:
  assumes uh: "handlers_count m uh" and uc: "close_handlers_count m uc" and step: "msg_step os uh uc ext w w'" and inv: "msgd_count m (app w)"
  shows "msgd_count m (app w')"
  using step
proof (cases rule: msg_step.cases)
  case (call p usr msg)
  then show ?thesis by (rule dispatch_count [OF uh uc inv])
next
  case (send u mc sc d n ok)
  then show ?thesis using inv pack_and_send_count upd_usr_count
    by (fastforce simp: usr_send_def Option.bind_eq_Some_conv split: if_splits)
next
  case (send_client u mc sc d n ok)
  then show ?thesis using inv pack_and_send_count upd_msgc_count
    by (fastforce simp: msgc_send_def Option.bind_eq_Some_conv split: if_splits)
next
  case (close u e)
  then show ?thesis using closing_count [OF uc inv] by (auto simp: usr_close_def Option.bind_eq_Some_conv)
next
  case (close_client u e)
  then show ?thesis using closing_count [OF uc inv] by (auto simp: msgc_close_def Option.bind_eq_Some_conv)
next
  case (start h cl port maxCon tmo n)
  then show ?thesis by (rule start_count [OF _ inv])
next
  case library
  then show ?thesis using inv by simp
qed

end
