(* ===== verification/Msg_Net_Props.thy ===== *)
theory Msg_Net_Props
  imports Msg_Count
begin

text \<open>The properties of the message server and client.\<close>

section \<open>Connections\<close>


text \<open>For the witnesses: a server that takes one connection, its handler accepts all, and a channel.\<close>

definition take_all :: "(sim_kernel, unit, unit) usr_handle" where
  "take_all f u mc sc d w = Some (True, w)"

definition ignore_close :: "(sim_kernel, unit, unit) usr_close_handle" where
  "ignore_close f u w = Some w"

definition msg_start :: "(sim_kernel, unit, unit) msg_net" where
  "msg_start = \<lparr>channelHead = 0, has_loop = True, epfd = 3, evLoop = ae_fresh_loop 8 10, channels = Map.empty,
     acceptors = Map.empty, next_free = 1, pipe_rd = 4, pipe_wr = 5, lastCrondTime = 0, kernel = sim_start\<lparr>sk_next := 8\<rparr>,
     app = \<lparr>msgds = [1 \<mapsto> \<lparr>md_handler = (), md_pfnClose = None, md_timeout = 60, md_maxCon = 1, md_acceptor = 9, md_curCon = 0\<rparr>],
            usrs = Map.empty, msgcs = Map.empty, next_obj = 2, g_ID = 0, recvBuffer = [], sendBuffer = []\<rparr>\<rparr>"

definition msg_run :: "((sim_kernel, unit, unit) msg_net \<times> (sim_kernel, unit, unit) msg_net) option" where
  "msg_run = do {
     (c, w1) \<leftarrow> channel_create 7 ''10.0.0.1'' 4711 False msg_start;
     w2 \<leftarrow> msg_dispatch sim_os take_all ignore_close () Msgd_Acceptor (Some 1) (EVACCEPTED c) w1;
     Some (w1, w2)
   }"

lemma msg_run_ok: "map_option (\<lambda>(w1, w2). map_option md_curCon (msgds (app w2) 1)) msg_run = Some (Some 1)"
  by code_simp

lemma msg_start_count: "msgd_count 1 (app msg_start)"
  by (simp add: msgd_count_def msg_start_def users_of_def)

lemma take_all_count: "handlers_count m take_all" "close_handlers_count m ignore_close"
  by (auto simp: handlers_count_def take_all_def close_handlers_count_def ignore_close_def)


section \<open>Messages\<close>

text \<open>The handler takes one message after the other.\<close>

fun deliver_all :: "(u16 \<Rightarrow> u16 \<Rightarrow> byte list \<Rightarrow> 'w \<Rightarrow> (bool \<times> 'w) option) \<Rightarrow> (u16 \<times> u16 \<times> byte list) list \<Rightarrow> 'w \<Rightarrow> 'w option" where
  "deliver_all h [] w = Some w"
| "deliver_all h ((m, s, d) # fs) w = do { (go, w1) \<leftarrow> h m s d w; if go then deliver_all h fs w1 else None }"

abbreviation frames :: "(u16 \<times> u16 \<times> byte list) list \<Rightarrow> byte list" where
  "frames fs \<equiv> concat (map (\<lambda>(m, s, d). frame_bytes m s d) fs)"

lemma dispatch_deliver:
  assumes "\<forall>(m, s, d) \<in> set fs. sizeof_CMD_Head + length d \<le> SOCKET_PACKET" and "next_frame r = Need_More"
    and "deliver_all h fs w = Some w1"
  shows "Msg_Parser.dispatch (continue_with h) (frames fs @ r) (Some w) = (True, Some w1, r)"
  using assms(1,3)
proof (induction fs arbitrary: w)
  case Nil
  then show ?case using assms(2) by (simp add: dispatch.simps)
next
  case (Cons f fs)
  obtain m s d where f: "f = (m, s, d)" by (cases f)
  obtain w2 where w2: "h m s d w = Some (True, w2)" "deliver_all h fs w2 = Some w1"
    using Cons.prems(2) f by (auto simp: Option.bind_eq_Some_conv split: if_splits)
  have "next_frame (frame_bytes m s d @ frames fs @ r) = Frame m s d (frames fs @ r)"
    using Cons.prems(1) f by (intro next_frame_frame_bytes) simp
  moreover have "continue_with h (Some w) m s d = (Some w2, True)" using w2(1) by (simp add: continue_with_def)
  ultimately show ?case using Cons.IH [OF _ w2(2)] Cons.prems(1) f by (subst dispatch.simps) simp
qed

text \<open>For the witnesses: a connection with one message pending.\<close>

definition one_message :: dataqueue where
  "one_message = \<lparr>insertPos = 10, terminalPos = 10, queryPos = 0, dataSize = 10, bufferSize = 10,
     m_pDataQueueBuffer = Some (frame_bytes 1 2 ''hi'')\<rparr>"

definition msg_connected :: "(sim_kernel, unit, unit) msg_net" where
  "msg_connected = msg_start\<lparr>channels := [1 \<mapsto> (new_channel 7 ''10.0.0.1'' 4711 False)\<lparr>inDataqueue := one_message\<rparr>],
     app := (app msg_start)\<lparr>recvBuffer := replicate PACKET_BUFFER NUL, usrs := [5 \<mapsto> \<lparr>cbUsrStatus = 0, mu_parser = msgparser_zero,
       mu_gid = 0, mu_c = 1, mu_msgd = 1, mu_ext = ()\<rparr>]\<rparr>\<rparr>"

lemma one_message_ok:
  "mp_inv (msgparser_zero, replicate PACKET_BUFFER NUL, one_message)"
  "mp_pending (msgparser_zero, replicate PACKET_BUFFER NUL, one_message) = frame_bytes 1 2 ''hi''"
proof -
  have len: "length (frame_bytes 1 2 ''hi'') = 10" by (simp add: frame_bytes_def frame_sizes)
  then show "mp_inv (msgparser_zero, replicate PACKET_BUFFER NUL, one_message)"
    by (simp add: one_message_def msgparser_zero_def dq_inv_def dq_linear_def dq_bytes_def)
  show "mp_pending (msgparser_zero, replicate PACKET_BUFFER NUL, one_message) = frame_bytes 1 2 ''hi''"
    using len by (simp add: one_message_def msgparser_zero_def dq_contents_def dq_bytes_def seg_def)
qed

text \<open>
  C39. When the bytes pending for a connection are the frames of some messages and the start of
  another, \<^verbatim>\<open>_channel_callback\<close> hands the server's handler exactly these messages, in order, and keeps
  the rest pending; all else is as the handler left it.
\<close>

theorem msgd_delivers:
  assumes "usrs (app w) u = Some usr" and "channels w c = Some ch"
    and "mp_inv (mu_parser usr, recvBuffer (app w), inDataqueue ch)"
    and "mp_pending (mu_parser usr, recvBuffer (app w), inDataqueue ch) = concat (map (\<lambda>(m, s, d). frame_bytes m s d) fs) @ r"
    and "\<forall>(m, s, d) \<in> set fs. sizeof_CMD_Head + length d \<le> SOCKET_PACKET" and "next_frame r = Need_More"
    and "deliver_all (msgd_continte uh u) fs w = Some w1" and "channels w1 c = Some ch1" and "usrs (app w1) u = Some usr1"
  shows "\<exists>coder buf q. msgd_data os uh uc c u w = Some (w1\<lparr>channels := (channels w1)(c \<mapsto> ch1\<lparr>inDataqueue := q\<rparr>),
        app := (app w1)\<lparr>usrs := (usrs (app w1))(u \<mapsto> usr1\<lparr>mu_parser := merge_parser coder (mu_parser usr1)\<rparr>), recvBuffer := buf\<rparr>\<rparr>)
    \<and> mp_inv (coder, buf, q) \<and> mp_pending (coder, buf, q) = r"
proof -
  let ?st = "(mu_parser usr, recvBuffer (app w), inDataqueue ch)"
  obtain ok st1 u1 rest where p: "msgparser_parser (continue_with (msgd_continte uh u)) ?st (Some w) = Some (ok, st1, u1)"
    "Msg_Parser.dispatch (continue_with (msgd_continte uh u)) (mp_pending ?st) (Some w) = (ok, u1, rest)"
    "ok \<longrightarrow> mp_inv st1 \<and> mp_pending st1 = rest"
    using msgparser_parser_dispatch [OF assms(3), of "continue_with (msgd_continte uh u)" "Some w"] by auto
  have d: "ok" "u1 = Some w1" "rest = r"
    using p(2) dispatch_deliver [OF assms(5,6,7)] assms(4) by simp_all
  obtain coder buf q where st1: "st1 = (coder, buf, q)" by (cases st1)
  let ?w2 = "w1\<lparr>channels := (channels w1)(c \<mapsto> ch1\<lparr>inDataqueue := q\<rparr>)\<rparr>"
  have "parse_channel (msgd_continte uh u) c (mu_parser usr) w = Some (True, coder, ?w2\<lparr>app := (app w1)\<lparr>recvBuffer := buf\<rparr>\<rparr>)"
    using assms(2,8) p(1) d st1 by (simp add: parse_channel_def upd_channel_def)
  then have "msgd_data os uh uc c u w = Some (w1\<lparr>channels := (channels w1)(c \<mapsto> ch1\<lparr>inDataqueue := q\<rparr>),
        app := (app w1)\<lparr>usrs := (usrs (app w1))(u \<mapsto> usr1\<lparr>mu_parser := merge_parser coder (mu_parser usr1)\<rparr>), recvBuffer := buf\<rparr>\<rparr>)"
    using assms(1,9) by (simp add: msgd_data_def upd_usr_def)
  then show ?thesis using p(3) d st1 by blast
qed

theorem msgd_delivers_witness:
  "\<exists>w2. msgd_data sim_os take_all ignore_close 1 5 msg_connected = Some w2"
  using msgd_delivers [of msg_connected 5 "the (usrs (app msg_connected) 5)" 1 "the (channels msg_connected 1)" "[(1, 2, ''hi'')]" "[]"
      take_all msg_connected "the (channels msg_connected 1)" "the (usrs (app msg_connected) 5)" sim_os ignore_close]
    one_message_ok
  by (auto simp: msg_connected_def msg_start_def msgd_continte_def take_all_def next_frame_def frame_sizes)



section \<open>What goes wrong around the callbacks\<close>

text \<open>
  When a connection cannot be bound, the server counts it nevertheless; the channel has no handler,
  so that its closing is not counted down.
\<close>

lemma msgd_counts_unbound:
  assumes "msgds (app w) m = Some md" and "md_curCon md < md_maxCon md" and "channels w c = Some ch" "ch_handler ch = None"
    and "evnet_channelbind os c Msgd_Channel (word_of_int (md_timeout md)) (next_obj (app w))
       (w\<lparr>app := (app w)\<lparr>usrs := (usrs (app w))(next_obj (app w) \<mapsto> \<lparr>cbUsrStatus = 0, mu_parser = msgparser_zero,
          mu_gid = g_ID (app w), mu_c = c, mu_msgd = m, mu_ext = ext\<rparr>), next_obj := next_obj (app w) + 1, g_ID := g_ID (app w) + 1\<rparr>\<rparr>)
       = Some (False, w2)"
  shows "\<exists>w' md'. msgd_accepted os uc ext m c w = Some w' \<and> msgds (app w') m = Some md' \<and> md_curCon md' = md_curCon md + 1
    \<and> channels w' = channels w2"
  using assms bind_app [OF assms(5) [unfolded evnet_channelbind_def]]
  by (simp add: msgd_accepted_def Let_def upd_msgd_def)

text \<open>
  \<^verbatim>\<open>msgd_stop\<close> frees the server and leaves its connections open: the next callback for one of them
  reads freed memory.
\<close>

lemma msgd_stop_dangles:
  assumes "msgd_stop os m w = Some w'" and "usrs (app w) u = Some usr" and "mu_msgd usr = m"
  shows "usrs (app w') u = Some usr \<and> msgd_closed uc u w' = None"
proof -
  obtain md w1 w2 where md: "msgds (app w) m = Some md" and s: "evnet_acceptorstop os (md_acceptor md) w = Some w1" "evnet_destroyacceptor os (md_acceptor md) w1 = Some w2"
    "w' = w2\<lparr>app := (app w2)\<lparr>msgds := (msgds (app w2))(m := None)\<rparr>\<rparr>"
    using assms(1) by (auto simp: msgd_stop_def Option.bind_eq_Some_conv)
  have "app w1 = app w" using s(1)
    by (auto simp: evnet_acceptorstop_def acceptor_stop_def Option.bind_eq_Some_conv dest: event_app(2))
  moreover have "app w2 = app w1" using s(2)
    by (auto simp: evnet_destroyacceptor_def acceptor_destroy_def Let_def Option.bind_eq_Some_conv)
  ultimately show ?thesis using s(3) assms(2,3) by (simp add: msgd_closed_def)
qed

end
