(* ===== verification/Http_Utils.thy ===== *)
theory Http_Utils
  imports Evnet_Prelude
begin

text \<open>
  What the HTTP layers need from outside the repository: the functions of the helper library
  (\<^verbatim>\<open>libos.h\<close> and \<^verbatim>\<open>buffer.h\<close> are not part of it) and the files of the C library, both as records of
  functions that the models take as arguments; and the string functions of the C library.

  A C string is the list of its characters without the terminating zero.
\<close>

record 'b utils =
  cmmn_strndup :: "byte list \<Rightarrow> byte list"
  cmmn_strdup :: "byte list \<Rightarrow> byte list"
  cmmn_strincmp :: "byte list \<Rightarrow> byte list \<Rightarrow> int \<Rightarrow> int"
  natoi :: "byte list \<Rightarrow> int"
  stricmp :: "byte list \<Rightarrow> byte list \<Rightarrow> int"
  fmt2 :: "byte list \<Rightarrow> byte list list \<Rightarrow> byte list"
  buffer_zero :: 'b
  buffer_init :: "'b \<Rightarrow> 'b"
  buffer_append :: "'b \<Rightarrow> byte list \<Rightarrow> 'b"
  buffer_data :: "'b \<Rightarrow> byte list"
  malloc_bytes :: "nat \<Rightarrow> byte list"

text \<open>Files; \<open>fopen\<close> is \<^verbatim>\<open>fopen(name,"ab+")\<close>, and the handle 0 is \<^verbatim>\<open>NULL\<close>.\<close>

record 'k files =
  fopen :: "byte list \<Rightarrow> 'k \<Rightarrow> nat \<times> 'k"
  fwrite :: "nat \<Rightarrow> byte list \<Rightarrow> 'k \<Rightarrow> 'k"
  fclose :: "nat \<Rightarrow> 'k \<Rightarrow> 'k"
  fremove :: "byte list \<Rightarrow> 'k \<Rightarrow> 'k"
  frename :: "byte list \<Rightarrow> byte list \<Rightarrow> 'k \<Rightarrow> 'k"

text \<open>\<^verbatim>\<open>strstr\<close> gives the rest of the string from the first occurrence on, \<^verbatim>\<open>strchr\<close> likewise.\<close>

fun strstr :: "byte list \<Rightarrow> byte list \<Rightarrow> byte list option" where
  "strstr s t = (if prefix t s then Some s else (case s of [] \<Rightarrow> None | c # cs \<Rightarrow> strstr cs t))"

declare strstr.simps [simp del]

definition strchr :: "byte list \<Rightarrow> byte \<Rightarrow> byte list option" where
  "strchr s c = strstr s [c]"

lemma strstr_suffix: "strstr s t = Some r \<Longrightarrow> suffix r s \<and> prefix t r"
proof (induction s t rule: strstr.induct)
  case (1 s t)
  show ?case
  proof (cases "prefix t s")
    case False
    then show ?thesis using 1 strstr.simps [of s t] by (cases s) (auto intro: suffix_ConsI)
  qed (use 1 strstr.simps [of s t] in simp)
qed

lemma take_append_le: "n \<le> length a \<Longrightarrow> take n (a @ b) = take n a"
  by simp

lemma strstr_append:
  assumes "\<not> sublist t (s @ butlast t)" and "t \<noteq> []"
  shows "strstr (s @ t @ r) t = Some (t @ r)"
  using assms
proof (induction s)
  case Nil
  then show ?case by (simp add: strstr.simps [of "t @ r"])
next
  case (Cons c s)
  have "\<not> prefix t (c # s @ t @ r)"
  proof
    assume p: "prefix t (c # s @ t @ r)"
    then have "t = take (length t) (c # s @ t @ r)" by (auto simp: prefix_def)
    also have "\<dots> = take (length t) (c # s @ butlast t)"
    proof -
      obtain n where n: "length t = Suc n" using Cons.prems(2) by (cases "length t") auto
      then have "t = butlast t @ [last t]" "length (butlast t) = n" using Cons.prems(2) by simp_all
      have "take n ((s @ butlast t) @ [last t] @ r) = take n (s @ butlast t)"
        by (rule take_append_le) (simp add: n)
      moreover have "s @ t @ r = (s @ butlast t) @ [last t] @ r" using Cons.prems(2) by simp
      ultimately have "take n (s @ t @ r) = take n (s @ butlast t)" by (simp only:)
      then show ?thesis using n by simp
    qed
    finally have "prefix t (c # s @ butlast t)" by (metis take_is_prefix)
    with Cons.prems(1) show False by (simp add: sublist_Cons_right)
  qed
  moreover have "\<not> sublist t (s @ butlast t)" using Cons.prems(1) by (simp add: sublist_Cons_right)
  ultimately show ?case using Cons by (simp add: strstr.simps [of "c # s @ t @ r"])
qed

lemma strchr_append: "c \<notin> set s \<Longrightarrow> strchr (s @ c # r) c = Some (c # r)"
  unfolding strchr_def
  by (induction s) (auto simp: strstr.simps [of "_ # _"] strstr.simps [of "c # r"])

lemma strchr_None: "c \<notin> set s \<Longrightarrow> strchr s c = None"
  unfolding strchr_def
proof (induction s)
  case Nil
  show ?case by (simp add: strstr.simps [of "[]"])
next
  case (Cons x s)
  then show ?case by (auto simp: strstr.simps [of "x # s"])
qed

end
