(* ===== verification/Upload.thy ===== *)
theory Upload
  imports Http_Utils Http_Execute Multipart
begin

text \<open>
  A request being served (\<^verbatim>\<open>struct node_s\<close> of \<^verbatim>\<open>httpd.h\<close>) and the upload of a file in its body
  (\<^verbatim>\<open>upload.c\<close>).
\<close>

section \<open>Nodes\<close>

datatype node_status = estatusnone | estatnodeeady | estatushandle | estatusdone

record header_t =
  fieldname :: "byte list"
  fieldvalue :: "byte list option"

record upload =
  up_mp :: "multipart_parser option"
  up_mhdr :: "header_t list"
  up_pFile :: nat
  up_isComplete :: bool
  up_filename :: "byte list"

text \<open>
  The union \<^verbatim>\<open>req\<close>. Looking at the member that was not stored last has no result.

\<close>

datatype 'b req = Req_Buffer 'b | Req_Upload upload

text \<open>
  \<open>'b\<close> is \<^verbatim>\<open>buffer_t\<close>, and \<open>'x\<close> what the application adds to the struct (with the union \<^verbatim>\<open>u\<close>, which only
  applications use). \<open>nd_pfnSend\<close> says whether the pointer to \<^verbatim>\<open>node_send\<close> has been set; \<open>nd_usr\<close> is an
  address.
\<close>

record ('b, 'x) node =
  nd_parser :: http_parser
  nd_URL :: "byte list option"
  nd_method :: http_method
  nd_status :: node_status
  nd_usr :: nat
  nd_pfnSend :: bool
  nd_sendsize :: u32
  nd_sentsize :: u32
  nd_headers :: "header_t list"
  nd_IsFileUpload :: bool
  nd_req :: "'b req"
  nd_ext :: 'x

text \<open>
  The loop over a header list, up to the first field of a name. A list is in the order of
  \<^verbatim>\<open>list_for_each\<close>; \<^verbatim>\<open>list_add\<close> inserts at its head.
\<close>

definition find_header :: "'b utils \<Rightarrow> byte list \<Rightarrow> header_t list \<Rightarrow> byte list option" where
  "find_header ut name hs = (case find (\<lambda>h. stricmp ut (fieldname h) name = 0) hs of
       None \<Rightarrow> None | Some h \<Rightarrow> fieldvalue h)"

text \<open>
  The value goes to the first header of the list; when the list is empty, \<^verbatim>\<open>list_entry\<close> makes a header
  out of the memory around the list head, and there is no result.
\<close>

definition set_value :: "byte list \<Rightarrow> header_t list \<Rightarrow> header_t list option" where
  "set_value v hs = (case hs of [] \<Rightarrow> None | h # r \<Rightarrow> Some (h\<lparr>fieldvalue := Some v\<rparr> # r))"

section \<open>File names\<close>

definition getUploadDir :: "byte list" where
  "getUploadDir = ''./upload''"

text \<open>\<^verbatim>\<open>upload_pathName\<close> writes into a static buffer of 1024 bytes.\<close>

definition upload_pathName :: "byte list \<Rightarrow> byte list option" where
  "upload_pathName name =
     (let path = getUploadDir @ ''/'' @ name in if length path < 1024 then Some path else None)"

definition FILENAME_SIZE :: nat where "FILENAME_SIZE = 256"

section \<open>The callbacks of the multipart parser\<close>

text \<open>
  They work on the node that the parser's \<^verbatim>\<open>data\<close> pointer leads to and on the files. A callback without a
  result leaves \<open>None\<close> behind, and so do all that follow.
\<close>

type_synonym ('k, 'b, 'x) node_st = "'k \<times> ('b, 'x) node"

definition in_memory :: "('s \<Rightarrow> (int \<times> 's) option) \<Rightarrow> 's option \<Rightarrow> int \<times> 's option" where
  "in_memory f u = (case Option.bind u f of None \<Rightarrow> (0, None) | Some (r, s) \<Rightarrow> (r, Some s))"

definition get_upload :: "('b, 'x) node \<Rightarrow> upload option" where
  "get_upload n = (case nd_req n of Req_Upload up \<Rightarrow> Some up | Req_Buffer b \<Rightarrow> None)"

definition set_upload :: "upload \<Rightarrow> ('b, 'x) node \<Rightarrow> ('b, 'x) node" where
  "set_upload up n = n\<lparr>nd_req := Req_Upload up\<rparr>"

definition read_header_name :: "'b utils \<Rightarrow> byte list \<Rightarrow> ('k, 'b, 'x) node_st \<Rightarrow> (int \<times> ('k, 'b, 'x) node_st) option" where
  "read_header_name ut s = (\<lambda>(k, n). do {
     up \<leftarrow> get_upload n;
     let hd = \<lparr>fieldname = cmmn_strndup ut s, fieldvalue = None\<rparr>;
     Some (0, k, set_upload (up\<lparr>up_mhdr := hd # up_mhdr up\<rparr>) n)
   })"

definition read_header_value :: "'b utils \<Rightarrow> byte list \<Rightarrow> ('k, 'b, 'x) node_st \<Rightarrow> (int \<times> ('k, 'b, 'x) node_st) option" where
  "read_header_value ut s = (\<lambda>(k, n). do {
     up \<leftarrow> get_upload n;
     hs \<leftarrow> set_value (cmmn_strndup ut s) (up_mhdr up);
     Some (0, k, set_upload (up\<lparr>up_mhdr := hs\<rparr>) n)
   })"

definition on_part_data :: "'k files \<Rightarrow> byte list \<Rightarrow> ('k, 'b, 'x) node_st \<Rightarrow> (int \<times> ('k, 'b, 'x) node_st) option" where
  "on_part_data fs s = (\<lambda>(k, n). do {
     up \<leftarrow> get_upload n;
     Some (0, if up_pFile up \<noteq> 0 then fwrite fs (up_pFile up) s k else k, n)
   })"

text \<open>\<open>upload_name\<close> finds the file name in the value of \<^verbatim>\<open>Content-Disposition\<close>.\<close>

definition upload_name :: "byte list \<Rightarrow> byte list option" where
  "upload_name contentValue = do {
     pST0 \<leftarrow> strstr contentValue (''filename='' @ [CHR 0x22]);
     let pST = drop 10 pST0;
     pED \<leftarrow> strstr pST [CHR 0x22];
     let n = length pST - length pED;
     if FILENAME_SIZE \<le> n then None else Some (take n pST)
   }"

definition up_on_headers_complete :: "'b utils \<Rightarrow> 'k files \<Rightarrow> ('k, 'b, 'x) node_st \<Rightarrow> (int \<times> ('k, 'b, 'x) node_st) option" where
  "up_on_headers_complete ut fs = (\<lambda>(k, n). do {
     up \<leftarrow> get_upload n;
     (case Option.bind (find_header ut ''Content-Disposition'' (up_mhdr up)) upload_name of
        None \<Rightarrow> Some (- 1, k, n)
      | Some name \<Rightarrow>
          let pathname = fmt2 ut ''%s/%s'' [getUploadDir, name];
              (f, k1) = fopen fs pathname (fremove fs pathname k);
              n1 = set_upload (up\<lparr>up_filename := name, up_pFile := f\<rparr>) n
          in Some (if f = 0 then - 1 else 0, k1, n1))
   })"

definition on_part_data_end :: "'k files \<Rightarrow> ('k, 'b, 'x) node_st \<Rightarrow> (int \<times> ('k, 'b, 'x) node_st) option" where
  "on_part_data_end fs = (\<lambda>(k, n). do {
     up \<leftarrow> get_upload n;
     if up_pFile up \<noteq> 0 then Some (0, fclose fs (up_pFile up) k, set_upload (up\<lparr>up_pFile := 0\<rparr>) n)
     else Some (0, k, n)
   })"

definition on_body_end :: "('k, 'b, 'x) node_st \<Rightarrow> (int \<times> ('k, 'b, 'x) node_st) option" where
  "on_body_end = (\<lambda>(k, n). do {
     up \<leftarrow> get_upload n;
     Some (0, k, set_upload (up\<lparr>up_isComplete := True\<rparr>) n)
   })"

definition parser_body_settings :: "'b utils \<Rightarrow> 'k files \<Rightarrow> ('k, 'b, 'x) node_st option multipart_parser_settings" where
  "parser_body_settings ut fs =
     \<lparr>mp_on_header_field = Some (\<lambda>s. in_memory (read_header_name ut s)),
      mp_on_header_value = Some (\<lambda>s. in_memory (read_header_value ut s)),
      mp_on_part_data = Some (\<lambda>s. in_memory (on_part_data fs s)),
      mp_on_part_data_begin = None,
      mp_on_headers_complete = Some (in_memory (up_on_headers_complete ut fs)),
      mp_on_part_data_end = Some (in_memory (on_part_data_end fs)),
      mp_on_body_end = Some (in_memory on_body_end)\<rparr>"

section \<open>The operations\<close>

text \<open>
  The text behind \<^verbatim>\<open>boundary=\<close>: \<^verbatim>\<open>p+9\<close> is outside the string when nothing follows the word \<^verbatim>\<open>boundary\<close>, and
  with its two hyphens the boundary is copied to 128 bytes on the stack, whatever its length.
\<close>

definition BOUNDARY_SIZE :: nat where "BOUNDARY_SIZE = 128"

definition copy_boundary :: "byte list \<Rightarrow> byte list option" where
  "copy_boundary p =
     (if length p < 9 then None
      else let b = ''--'' @ drop 9 p in if length b < BOUNDARY_SIZE then Some b else None)"

definition upload_handleHeader :: "'b utils \<Rightarrow> ('b, 'x) node \<Rightarrow> (bool \<times> ('b, 'x) node) option" where
  "upload_handleHeader ut n =
     (case find_header ut ''Content-Type'' (nd_headers n) of
        None \<Rightarrow> Some (False, n)
      | Some contentValue \<Rightarrow>
          if strstr contentValue ''multipart/form-data;'' = None then Some (False, n)
          else (case strstr contentValue ''boundary'' of
             None \<Rightarrow> Some (False, n)
           | Some p \<Rightarrow> do {
               boundary \<leftarrow> copy_boundary p;
               let mp = multipart_parser_init boundary (malloc_bytes ut (length boundary + 9));
               Some (True, set_upload \<lparr>up_mp = Some mp, up_mhdr = [], up_pFile = 0, up_isComplete = False,
                                       up_filename = []\<rparr> n)
             }))"

definition upload_checkURL :: "byte list \<Rightarrow> bool" where
  "upload_checkURL url \<longleftrightarrow> strstr url ''/upload'' \<noteq> None"

text \<open>
  The parser is taken out of the node while it runs; the callbacks neither read nor change it.
\<close>

definition upload_bodyContinue :: "'b utils \<Rightarrow> 'k files \<Rightarrow> byte list \<Rightarrow> ('k, 'b, 'x) node_st
    \<Rightarrow> (nat \<times> ('k, 'b, 'x) node_st) option" where
  "upload_bodyContinue ut fs bs = (\<lambda>(k, n). do {
     up \<leftarrow> get_upload n;
     mp \<leftarrow> up_mp up;
     (r, mp1, u) \<leftarrow> multipart_parser_execute (parser_body_settings ut fs) mp bs (Some (k, n));
     (k1, n1) \<leftarrow> u;
     up1 \<leftarrow> get_upload n1;
     Some (r, k1, set_upload (up1\<lparr>up_mp := Some mp1\<rparr>) n1)
   })"

definition upload_clear :: "'k files \<Rightarrow> ('k, 'b, 'x) node_st \<Rightarrow> ('k, 'b, 'x) node_st option" where
  "upload_clear fs = (\<lambda>(k, n). do {
     up \<leftarrow> get_upload n;
     Some (if up_pFile up \<noteq> 0 then fclose fs (up_pFile up) k else k,
           set_upload (up\<lparr>up_mp := None, up_pFile := 0\<rparr>) n)
   })"

end
