(* ===== verification/Httpd.thy ===== *)
theory Httpd
  imports Libnet_Runs Upload
begin

text \<open>
  The HTTP server (\<^verbatim>\<open>httpd.h\<close>, \<^verbatim>\<open>httpd.c\<close>) on top of the library. Servers, users and nodes live in the
  \<open>app\<close> component of the library's state, at addresses. The function that the application passes, \<open>uh\<close>,
  works on the whole state. Debugging output is left out.
\<close>

section \<open>State\<close>

datatype http_proc = Httpd_Acceptor | Httpd_Channel

datatype node_evt = ENODEHANDLE | ENODECLEAR | ENODECONTINUE

record http_usr =
  hu_channel :: nat
  hu_node :: nat
  hu_httpd :: nat
  hu_dwUsrID :: u32

text \<open>\<open>hd_usr_list\<close> holds the users in the order of the list; \<^verbatim>\<open>nodesize\<close> is the type \<open>'x\<close>.\<close>

record 'h httpd =
  hd_handler :: 'h
  hd_timeout :: int
  hd_acceptor :: nat
  hd_curCon :: int
  hd_usr_list :: "nat list"

text \<open>\<open>h_ID\<close> is the static counter of \<^verbatim>\<open>_acceptor_callback\<close>.\<close>

record ('h, 'b, 'x) http_app =
  httpds :: "nat \<Rightarrow> 'h httpd option"
  husrs :: "nat \<Rightarrow> http_usr option"
  nodes :: "nat \<Rightarrow> ('b, 'x) node option"
  h_next :: nat
  h_ID :: u32

type_synonym ('k, 'h, 'b, 'x) http_net = "(http_proc, nat, 'k, ('h, 'b, 'x) http_app) libnet"

type_synonym ('k, 'h, 'b, 'x) node_handle =
  "'h \<Rightarrow> nat \<Rightarrow> node_evt \<Rightarrow> int \<Rightarrow> int \<Rightarrow> ('k, 'h, 'b, 'x) http_net \<Rightarrow> ('k, 'h, 'b, 'x) http_net option"

section \<open>Memory\<close>

definition upd_httpd :: "nat \<Rightarrow> ('h httpd \<Rightarrow> 'h httpd) \<Rightarrow> ('k, 'h, 'b, 'x) http_net \<Rightarrow> ('k, 'h, 'b, 'x) http_net option" where
  "upd_httpd m f w = (case httpds (app w) m of
       None \<Rightarrow> None
     | Some d \<Rightarrow> Some (w\<lparr>app := (app w)\<lparr>httpds := (httpds (app w))(m \<mapsto> f d)\<rparr>\<rparr>))"

definition upd_husr :: "nat \<Rightarrow> (http_usr \<Rightarrow> http_usr) \<Rightarrow> ('k, 'h, 'b, 'x) http_net \<Rightarrow> ('k, 'h, 'b, 'x) http_net option" where
  "upd_husr u f w = (case husrs (app w) u of
       None \<Rightarrow> None
     | Some d \<Rightarrow> Some (w\<lparr>app := (app w)\<lparr>husrs := (husrs (app w))(u \<mapsto> f d)\<rparr>\<rparr>))"

definition upd_node :: "nat \<Rightarrow> (('b, 'x) node \<Rightarrow> ('b, 'x) node) \<Rightarrow> ('k, 'h, 'b, 'x) http_net \<Rightarrow> ('k, 'h, 'b, 'x) http_net option" where
  "upd_node n f w = (case nodes (app w) n of
       None \<Rightarrow> None
     | Some d \<Rightarrow> Some (w\<lparr>app := (app w)\<lparr>nodes := (nodes (app w))(n \<mapsto> f d)\<rparr>\<rparr>))"

section \<open>The callbacks of the HTTP parser\<close>

definition node_c_on_message_begin :: "http_parser \<Rightarrow> ('k, 'b, 'x) node_st \<Rightarrow> (int \<times> ('k, 'b, 'x) node_st) option" where
  "node_c_on_message_begin p = (\<lambda>(k, n).
     if p_method p \<noteq> HTTP_POST \<and> p_method p \<noteq> HTTP_GET then Some (- 1, k, n)
     else Some (0, k, n\<lparr>nd_method := p_method p\<rparr>))"

definition node_c_on_url :: "'b utils \<Rightarrow> byte list \<Rightarrow> ('k, 'b, 'x) node_st \<Rightarrow> (int \<times> ('k, 'b, 'x) node_st) option" where
  "node_c_on_url ut s = (\<lambda>(k, n).
     let url = cmmn_strndup ut s
     in Some (0, k, n\<lparr>nd_URL := Some url, nd_IsFileUpload := upload_checkURL url\<rparr>))"

definition node_c_on_header_field :: "'b utils \<Rightarrow> byte list \<Rightarrow> ('k, 'b, 'x) node_st \<Rightarrow> (int \<times> ('k, 'b, 'x) node_st) option" where
  "node_c_on_header_field ut s = (\<lambda>(k, n).
     let hd = \<lparr>fieldname = cmmn_strndup ut s, fieldvalue = None\<rparr>
     in Some (0, k, n\<lparr>nd_headers := hd # nd_headers n\<rparr>))"

definition node_c_on_header_value :: "'b utils \<Rightarrow> byte list \<Rightarrow> ('k, 'b, 'x) node_st \<Rightarrow> (int \<times> ('k, 'b, 'x) node_st) option" where
  "node_c_on_header_value ut s = (\<lambda>(k, n). do {
     hs \<leftarrow> set_value (cmmn_strndup ut s) (nd_headers n);
     Some (0, k, n\<lparr>nd_headers := hs\<rparr>)
   })"

definition node_c_on_headers_complete :: "'b utils \<Rightarrow> ('k, 'b, 'x) node_st \<Rightarrow> (int \<times> ('k, 'b, 'x) node_st) option" where
  "node_c_on_headers_complete ut = (\<lambda>(k, n).
     if nd_IsFileUpload n then do {
       (ok, n1) \<leftarrow> upload_handleHeader ut n;
       Some (if ok then 0 else - 1, k, n1)
     }
     else Some (0, k, n))"

definition node_c_on_body :: "'b utils \<Rightarrow> 'k files \<Rightarrow> byte list \<Rightarrow> ('k, 'b, 'x) node_st \<Rightarrow> (int \<times> ('k, 'b, 'x) node_st) option" where
  "node_c_on_body ut fs s = (\<lambda>(k, n).
     if nd_IsFileUpload n then do {
       (r, st) \<leftarrow> upload_bodyContinue ut fs s (k, n);
       Some (if length s \<noteq> r then - 1 else 0, st)
     }
     else (case nd_req n of
         Req_Buffer b \<Rightarrow> Some (0, k, n\<lparr>nd_req := Req_Buffer (buffer_append ut b s)\<rparr>)
       | Req_Upload up \<Rightarrow> None))"

definition node_c_on_message_complete :: "('k, 'b, 'x) node_st \<Rightarrow> (int \<times> ('k, 'b, 'x) node_st) option" where
  "node_c_on_message_complete = (\<lambda>(k, n). Some (0, k, n\<lparr>nd_status := estatnodeeady\<rparr>))"

definition c_http_parser_settings :: "'b utils \<Rightarrow> 'k files \<Rightarrow> ('k, 'b, 'x) node_st option http_parser_settings" where
  "c_http_parser_settings ut fs =
     \<lparr>on_message_begin = Some (\<lambda>p. in_memory (node_c_on_message_begin p)),
      on_url = Some (\<lambda>p s. in_memory (node_c_on_url ut s)),
      on_status_complete = None,
      on_header_field = Some (\<lambda>p s. in_memory (node_c_on_header_field ut s)),
      on_header_value = Some (\<lambda>p s. in_memory (node_c_on_header_value ut s)),
      on_headers_complete = Some (\<lambda>p. in_memory (node_c_on_headers_complete ut)),
      on_body = Some (\<lambda>p s. in_memory (node_c_on_body ut fs s)),
      on_message_complete = Some (\<lambda>p. in_memory node_c_on_message_complete)\<rparr>"

section \<open>Parsing into a node\<close>

text \<open>
  \<open>node_run\<close> is the call of \<^verbatim>\<open>http_parser_execute\<close>. The result of \<^verbatim>\<open>_node_parser\<close> is its return
  value and \<^verbatim>\<open>*pos\<close>, which is 0 when it is not assigned.
\<close>

definition node_run :: "'b utils \<Rightarrow> 'k files \<Rightarrow> byte list \<Rightarrow> ('k, 'b, 'x) node_st \<Rightarrow> (nat \<times> ('k, 'b, 'x) node_st) option" where
  "node_run ut fs buffer = (\<lambda>(k, n). do {
     (usedlen, p, u) \<leftarrow> http_parser_execute (c_http_parser_settings ut fs) buffer (nd_parser n) (Some (k, n));
     (k1, n1) \<leftarrow> u;
     Some (usedlen, k1, n1\<lparr>nd_parser := p\<rparr>)
   })"

definition node_parser :: "'b utils \<Rightarrow> 'k files \<Rightarrow> byte list \<Rightarrow> ('k, 'b, 'x) node_st \<Rightarrow> (int \<times> nat \<times> ('k, 'b, 'x) node_st) option" where
  "node_parser ut fs buffer s = do {
     (usedlen, k, n) \<leftarrow> node_run ut fs buffer s;
     Some (if nd_status n = estatnodeeady then (0, usedlen, k, n)
           else if usedlen = length buffer then (- 1, length buffer, k, n)
           else (0, 0, k, n))
   }"

definition node_free :: "nat \<Rightarrow> ('k, 'h, 'b, 'x) http_net \<Rightarrow> ('k, 'h, 'b, 'x) http_net option" where
  "node_free n w = (if nodes (app w) n = None then None
     else Some (w\<lparr>app := (app w)\<lparr>nodes := (nodes (app w))(n := None)\<rparr>\<rparr>))"

text \<open>The node that requests go into; 0 is \<^verbatim>\<open>NULL\<close>. \<open>ext\<close> is what zero bytes are for the application's part.\<close>

definition new_node :: "'b utils \<Rightarrow> 'x \<Rightarrow> nat \<Rightarrow> ('b, 'x) node" where
  "new_node ut ext u =
     \<lparr>nd_parser = http_parser_init HTTP_REQUEST, nd_URL = None, nd_method = HTTP_DELETE, nd_status = estatusnone,
      nd_usr = u, nd_pfnSend = False, nd_sendsize = 0, nd_sentsize = 0, nd_headers = [], nd_IsFileUpload = False,
      nd_req = Req_Buffer (buffer_init ut (buffer_zero ut)), nd_ext = ext\<rparr>"

definition uncomplete_node :: "'b utils \<Rightarrow> 'x \<Rightarrow> nat \<Rightarrow> ('k, 'h, 'b, 'x) http_net \<Rightarrow> (nat \<times> ('k, 'h, 'b, 'x) http_net) option" where
  "uncomplete_node ut ext c w = do {
     pu \<leftarrow> evnet_channeluser c w;
     u \<leftarrow> pu;
     usr \<leftarrow> husrs (app w) u;
     if hu_node usr \<noteq> 0 then do {
       n \<leftarrow> nodes (app w) (hu_node usr);
       Some (if nd_status n = estatusnone then hu_node usr else 0, w)
     }
     else do {
       let a = h_next (app w);
       w1 \<leftarrow> upd_husr u (\<lambda>d. d\<lparr>hu_node := a\<rparr>)
              (w\<lparr>app := (app w)\<lparr>nodes := (nodes (app w))(a \<mapsto> new_node ut ext u), h_next := a + 1\<rparr>\<rparr>);
       Some (a, w1)
     }
   }"

section \<open>Closing\<close>

definition httpd_channelClose :: "('k, 'h, 'b, 'x) node_handle \<Rightarrow> nat \<Rightarrow> nat \<Rightarrow> ('k, 'h, 'b, 'x) http_net
    \<Rightarrow> ('k, 'h, 'b, 'x) http_net option" where
  "httpd_channelClose uh m c w = do {
     pu \<leftarrow> evnet_channeluser c w;
     u \<leftarrow> pu;
     usr \<leftarrow> husrs (app w) u;
     w1 \<leftarrow> (if hu_node usr \<noteq> 0 then do {
              d \<leftarrow> httpds (app w) m;
              w1 \<leftarrow> uh (hd_handler d) (hu_node usr) ENODECLEAR 0 0 w;
              node_free (hu_node usr) w1
            }
            else Some w);
     _ \<leftarrow> husrs (app w1) u;
     Some (w1\<lparr>app := (app w1)\<lparr>husrs := (husrs (app w1))(u := None)\<rparr>\<rparr>)
   }"

definition httpd_closed :: "('k, 'h, 'b, 'x) node_handle \<Rightarrow> nat \<Rightarrow> nat \<Rightarrow> ('k, 'h, 'b, 'x) http_net
    \<Rightarrow> ('k, 'h, 'b, 'x) http_net option" where
  "httpd_closed uh c u w = do {
     usr \<leftarrow> husrs (app w) u;
     let m = hu_httpd usr;
     w1 \<leftarrow> upd_httpd m (\<lambda>d. d\<lparr>hd_usr_list := remove1 u (hd_usr_list d), hd_curCon := hd_curCon d - 1\<rparr>) w;
     httpd_channelClose uh m c w1
   }"

text \<open>What a closing channel needs of the handlers.\<close>

definition httpd_closing :: "('k, 'h, 'b, 'x) node_handle \<Rightarrow> (http_proc, nat, 'k, ('h, 'b, 'x) http_app) dispatch" where
  "httpd_closing uh p usr msg w = do {
     u \<leftarrow> usr;
     (case msg of
        EVCLOSED c e \<Rightarrow> (case p of Httpd_Channel \<Rightarrow> httpd_closed uh c u w | Httpd_Acceptor \<Rightarrow> None)
      | _ \<Rightarrow> None)
   }"

section \<open>Serving\<close>

definition node_send :: "'k os \<Rightarrow> nat \<Rightarrow> byte list \<Rightarrow> bool \<Rightarrow> ('k, 'h, 'b, 'x) http_net \<Rightarrow> ('k, 'h, 'b, 'x) http_net option" where
  "node_send os n data isLastPacket w = do {
     nd \<leftarrow> nodes (app w) n;
     usr \<leftarrow> husrs (app w) (nd_usr nd);
     (ok, w1) \<leftarrow> evnet_channelsend os (hu_channel usr) data w;
     upd_node n (\<lambda>d. d\<lparr>nd_sendsize := nd_sendsize d + word_of_nat (length data),
                       nd_status := (if isLastPacket then estatusdone else nd_status d)\<rparr>) w1
   }"

definition getFiledvalue :: "'b utils \<Rightarrow> nat \<Rightarrow> byte list \<Rightarrow> ('k, 'h, 'b, 'x) http_net \<Rightarrow> byte list option option" where
  "getFiledvalue ut n name w = map_option (\<lambda>nd. find_header ut name (nd_headers nd)) (nodes (app w) n)"

definition no_address :: "'b utils \<Rightarrow> byte list option \<Rightarrow> bool" where
  "no_address ut str = (case str of None \<Rightarrow> True | Some s \<Rightarrow> length s = 0 \<or> stricmp ut ''unknown'' s = 0)"

text \<open>The address as the bytes before the first zero of the static buffer.\<close>

definition getRemoteAddr :: "'b utils \<Rightarrow> nat \<Rightarrow> ('k, 'h, 'b, 'x) http_net \<Rightarrow> byte list option" where
  "getRemoteAddr ut n w = do {
     str1 \<leftarrow> getFiledvalue ut n ''X-Real-IP'' w;
     str2 \<leftarrow> (if no_address ut str1 then getFiledvalue ut n ''x-forwarded-for'' w else Some str1);
     str3 \<leftarrow> (if no_address ut str2 then getFiledvalue ut n ''Proxy-Client-IP'' w else Some str2);
     str4 \<leftarrow> (if no_address ut str3 then getFiledvalue ut n ''WL-Proxy-Client-IP'' w else Some str3);
     (case (if no_address ut str4 then None else str4) of
        Some str \<Rightarrow>
          let len = (case strchr str CHR '','' of Some pEd \<Rightarrow> length str - length pEd | None \<Rightarrow> length str)
          in Some (take (min len (IPSTRSIZE - 1)) str)
      | None \<Rightarrow> do {
          nd \<leftarrow> nodes (app w) n;
          usr \<leftarrow> husrs (app w) (nd_usr nd);
          ip \<leftarrow> evnet_channelip (hu_channel usr) w;
          if length ip < IPSTRSIZE then Some ip else None
        })
   }"

definition node_continue :: "('k, 'h, 'b, 'x) node_handle \<Rightarrow> nat \<Rightarrow> nat \<Rightarrow> ('k, 'h, 'b, 'x) http_net
    \<Rightarrow> ('k, 'h, 'b, 'x) http_net option" where
  "node_continue uh m n w = do {
     w1 \<leftarrow> upd_node n (\<lambda>d. d\<lparr>nd_status := estatushandle, nd_pfnSend := True\<rparr>) w;
     d \<leftarrow> httpds (app w1) m;
     uh (hd_handler d) n ENODEHANDLE 0 0 w1
   }"

text \<open>
  The loop of the \<open>EVDATA\<close> branch. Every round but the last takes at least a byte from the queue, so that
  \<open>fuel\<close> above its length is enough.
\<close>

fun httpd_data_loop :: "'k os \<Rightarrow> 'b utils \<Rightarrow> 'k files \<Rightarrow> ('k, 'h, 'b, 'x) node_handle \<Rightarrow> 'x \<Rightarrow> nat \<Rightarrow> nat \<Rightarrow> nat
    \<Rightarrow> ('k, 'h, 'b, 'x) http_net \<Rightarrow> ('k, 'h, 'b, 'x) http_net option" where
  "httpd_data_loop os ut fs uh ext m c 0 w = None"
| "httpd_data_loop os ut fs uh ext m c (Suc fuel) w = do {
     ch \<leftarrow> channels w c;
     if dataSize (inDataqueue ch) = 0 then Some w
     else do {
       (no, w1) \<leftarrow> uncomplete_node ut ext c w;
       if no = 0 then Some w1
       else do {
         (q, buffer) \<leftarrow> dq_peek (inDataqueue ch);
         w2 \<leftarrow> upd_channel w1 c (\<lambda>d. d\<lparr>inDataqueue := q\<rparr>);
         nd \<leftarrow> nodes (app w2) no;
         (r, pos, k, nd1) \<leftarrow> node_parser ut fs buffer (kernel w2, nd);
         w3 \<leftarrow> upd_node no (\<lambda>_. nd1) (w2\<lparr>kernel := k\<rparr>);
         let distill = upd_channel w3 c (\<lambda>d. d\<lparr>inDataqueue := dataqueue_distill_data (inDataqueue d) (word_of_nat pos)\<rparr>);
         if r = 0 then
           if nd_status nd1 \<noteq> estatnodeeady then evnet_closechannel os (httpd_closing uh) c 0 w3
           else do { w4 \<leftarrow> distill; node_continue uh m no w4 }
         else if pos = 0 then Some w3
         else do { w4 \<leftarrow> distill; httpd_data_loop os ut fs uh ext m c fuel w4 }
       }
     }
   }"

definition httpd_data :: "'k os \<Rightarrow> 'b utils \<Rightarrow> 'k files \<Rightarrow> ('k, 'h, 'b, 'x) node_handle \<Rightarrow> 'x \<Rightarrow> nat \<Rightarrow> nat
    \<Rightarrow> ('k, 'h, 'b, 'x) http_net \<Rightarrow> ('k, 'h, 'b, 'x) http_net option" where
  "httpd_data os ut fs uh ext c u w = do {
     usr \<leftarrow> husrs (app w) u;
     ch \<leftarrow> channels w c;
     httpd_data_loop os ut fs uh ext (hu_httpd usr) c (unat (dataSize (inDataqueue ch)) + 1) w
   }"

text \<open>The \<open>EVSENT\<close> branch.\<close>

definition httpd_sent :: "('k, 'h, 'b, 'x) node_handle \<Rightarrow> int \<Rightarrow> nat \<Rightarrow> ('k, 'h, 'b, 'x) http_net
    \<Rightarrow> ('k, 'h, 'b, 'x) http_net option" where
  "httpd_sent uh sz u w = do {
     usr \<leftarrow> husrs (app w) u;
     if hu_node usr = 0 then Some w
     else do {
       let no = hu_node usr;
       w1 \<leftarrow> upd_node no (\<lambda>d. d\<lparr>nd_sentsize := nd_sentsize d + word_of_int sz\<rparr>) w;
       nd \<leftarrow> nodes (app w1) no;
       if nd_sendsize nd \<noteq> nd_sentsize nd then Some w1
       else do {
         d \<leftarrow> httpds (app w1) (hu_httpd usr);
         (case nd_status nd of
            estatushandle \<Rightarrow> uh (hd_handler d) no ENODECONTINUE sz 0 w1
          | estatusdone \<Rightarrow> do {
              w2 \<leftarrow> upd_husr u (\<lambda>d. d\<lparr>hu_node := 0\<rparr>) w1;
              w3 \<leftarrow> uh (hd_handler d) no ENODECLEAR 0 0 w2;
              node_free no w3
            }
          | _ \<Rightarrow> Some w1)
       }
     }
   }"

text \<open>\<^verbatim>\<open>_acceptor_callback\<close>; the result of \<^verbatim>\<open>evnet_channelbind\<close> is not looked at.\<close>

definition httpd_accepted :: "'k os \<Rightarrow> ('k, 'h, 'b, 'x) node_handle \<Rightarrow> nat \<Rightarrow> nat \<Rightarrow> ('k, 'h, 'b, 'x) http_net
    \<Rightarrow> ('k, 'h, 'b, 'x) http_net option" where
  "httpd_accepted os uh m c w = do {
     d \<leftarrow> httpds (app w) m;
     if evnet_size w \<le> hd_curCon d then evnet_closechannel os (httpd_closing uh) c 0 w
     else do {
       let u = h_next (app w);
       let usr = \<lparr>hu_channel = c, hu_node = 0, hu_httpd = m, hu_dwUsrID = h_ID (app w)\<rparr>;
       let w1 = w\<lparr>app := (app w)\<lparr>husrs := (husrs (app w))(u \<mapsto> usr), h_next := u + 1, h_ID := h_ID (app w) + 1\<rparr>\<rparr>;
       (ok, w2) \<leftarrow> evnet_channelbind os c Httpd_Channel (word_of_int (hd_timeout d)) u w1;
       upd_httpd m (\<lambda>d. d\<lparr>hd_usr_list := hd_usr_list d @ [u], hd_curCon := hd_curCon d + 1\<rparr>) w2
     }
   }"

section \<open>Starting and stopping\<close>

text \<open>The address of the new server, 0 for \<^verbatim>\<open>NULL\<close>.\<close>

definition httpd_start :: "'k os \<Rightarrow> 'h \<Rightarrow> u16 \<Rightarrow> int \<Rightarrow> ('k, 'h, 'b, 'x) http_net
    \<Rightarrow> (nat \<times> ('k, 'h, 'b, 'x) http_net) option" where
  "httpd_start os handler port tmo w = do {
     let m = h_next (app w);
     let (a, w1) = evnet_createacceptor os port Httpd_Acceptor m (w\<lparr>app := (app w)\<lparr>h_next := m + 1\<rparr>\<rparr>);
     if a = 0 then Some (0, w1)
     else do {
       let d = \<lparr>hd_handler = handler, hd_timeout = tmo, hd_acceptor = a, hd_curCon = 0, hd_usr_list = []\<rparr>;
       (r, w2) \<leftarrow> evnet_acceptorstart os a (w1\<lparr>app := (app w1)\<lparr>httpds := (httpds (app w1))(m \<mapsto> d)\<rparr>\<rparr>);
       Some (m, w2)
     }
   }"

text \<open>
  The loop over the users in \<^verbatim>\<open>httpd_stop\<close>: \<open>pos\<close> is a user or the list head (\<open>None\<close>), and the next one is read
  before the body. A \<open>pos\<close> that is no longer in the list has no result. The handlers that run when
  a channel is closed may add users, so that the loop need not end.
\<close>

definition next_in :: "nat list \<Rightarrow> nat \<Rightarrow> nat option" where
  "next_in xs u = (case dropWhile (\<lambda>x. x \<noteq> u) xs of _ # y # _ \<Rightarrow> Some y | _ \<Rightarrow> None)"

partial_function (option) httpd_close_users :: "'k os \<Rightarrow> ('k, 'h, 'b, 'x) node_handle \<Rightarrow> nat \<Rightarrow> nat option
    \<Rightarrow> ('k, 'h, 'b, 'x) http_net \<Rightarrow> ('k, 'h, 'b, 'x) http_net option" where
  "httpd_close_users os uh m pos w = (case pos of
       None \<Rightarrow> Some w
     | Some u \<Rightarrow> do {
         d \<leftarrow> httpds (app w) m;
         usr \<leftarrow> (if u \<in> set (hd_usr_list d) then husrs (app w) u else None);
         w1 \<leftarrow> (if hu_channel usr \<noteq> 0 then evnet_closechannel os (httpd_closing uh) (hu_channel usr) 0 w else Some w);
         httpd_close_users os uh m (next_in (hd_usr_list d) u) w1
       })"

definition httpd_stop :: "'k os \<Rightarrow> ('k, 'h, 'b, 'x) node_handle \<Rightarrow> nat \<Rightarrow> ('k, 'h, 'b, 'x) http_net
    \<Rightarrow> ('k, 'h, 'b, 'x) http_net option" where
  "httpd_stop os uh m w = do {
     d \<leftarrow> httpds (app w) m;
     w1 \<leftarrow> httpd_close_users os uh m (case hd_usr_list d of [] \<Rightarrow> None | u # us \<Rightarrow> Some u) w;
     d1 \<leftarrow> httpds (app w1) m;
     w2 \<leftarrow> evnet_acceptorstop os (hd_acceptor d1) w1;
     w3 \<leftarrow> evnet_destroyacceptor os (hd_acceptor d1) w2;
     Some (w3\<lparr>app := (app w3)\<lparr>httpds := (httpds (app w3))(m := None)\<rparr>\<rparr>)
   }"

section \<open>All handlers\<close>

definition httpd_dispatch :: "'k os \<Rightarrow> 'b utils \<Rightarrow> 'k files \<Rightarrow> ('k, 'h, 'b, 'x) node_handle \<Rightarrow> 'x
    \<Rightarrow> (http_proc, nat, 'k, ('h, 'b, 'x) http_app) dispatch" where
  "httpd_dispatch os ut fs uh ext p usr msg w = do {
     u \<leftarrow> usr;
     (case p of
        Httpd_Acceptor \<Rightarrow> (case msg of EVACCEPTED c \<Rightarrow> httpd_accepted os uh u c w | _ \<Rightarrow> None)
      | Httpd_Channel \<Rightarrow> (case msg of
            EVDATA c \<Rightarrow> httpd_data os ut fs uh ext c u w
          | EVCLOSED c e \<Rightarrow> httpd_closed uh c u w
          | EVSENT c sz \<Rightarrow> httpd_sent uh sz u w
          | EVACCEPTED c \<Rightarrow> None))
   }"

end
