(* ===== verification/Url_Helpers.thy ===== *)
theory Url_Helpers
  imports Http_Utils Http_Request
begin

text \<open>
  The helpers for URLs at the end of \<^verbatim>\<open>httparser.c\<close>: the parts of a URL, and the head of a client's
  request. Writing past a static buffer has no result; what a function returns is the string in its
  buffer. A null pointer is an inner \<open>None\<close>.
\<close>

definition HOST_SIZE :: nat where "HOST_SIZE = 128"

section \<open>Numbers\<close>

text \<open>\<^verbatim>\<open>atoi\<close> of the C library; its behaviour is not defined when the number is no \<^verbatim>\<open>int\<close>.\<close>

definition int_range :: "int \<Rightarrow> bool" where
  "int_range i \<longleftrightarrow> - (2 ^ 31) \<le> i \<and> i < 2 ^ 31"

definition c_space :: "byte \<Rightarrow> bool" where
  "c_space c \<longleftrightarrow> c = CHR '' '' \<or> (9 :: nat) \<le> of_char c \<and> of_char c \<le> (13 :: nat)"

definition digits_value :: "byte list \<Rightarrow> int" where
  "digits_value ds = foldl (\<lambda>a c. 10 * a + (int (of_char c) - 48)) 0 ds"

definition atoi :: "byte list \<Rightarrow> int option" where
  "atoi s =
     (let t = dropWhile c_space s;
          neg = (t \<noteq> [] \<and> hd t = CHR ''-'');
          ds = takeWhile IS_NUM (if t \<noteq> [] \<and> (hd t = CHR ''-'' \<or> hd t = CHR ''+'') then tl t else t);
          v = (if neg then - digits_value ds else digits_value ds)
      in if int_range v then Some v else None)"

text \<open>\<^verbatim>\<open>%d\<close>\<close>

definition decimal_int :: "int \<Rightarrow> byte list" where
  "decimal_int i = (if i < 0 then CHR ''-'' # decimal (nat (- i)) else decimal (nat i))"

section \<open>The parts of a URL\<close>

text \<open>The search for \<^verbatim>\<open>://\<close>: the rest of the URL behind it.\<close>

fun after_scheme :: "byte list \<Rightarrow> byte list option" where
  "after_scheme [] = None"
| "after_scheme (c # url) =
     (if c = CHR '':'' \<and> take 2 url = ''//'' then Some (drop 2 url) else after_scheme url)"

definition host_char :: "byte \<Rightarrow> bool" where
  "host_char c \<longleftrightarrow> c \<noteq> CHR '':'' \<and> c \<noteq> CHR ''/''"

text \<open>
  \<open>_url_host_port_\<close> gives the host and, when \<^verbatim>\<open>port\<close> is not \<^verbatim>\<open>NULL\<close>, the port.
\<close>

definition url_host_port :: "byte list \<Rightarrow> u16 option \<Rightarrow> (byte list \<times> u16 option) option" where
  "url_host_port url def =
     (case after_scheme url of
        None \<Rightarrow> Some ([], def)
      | Some r \<Rightarrow>
          let host = takeWhile host_char r; rest = dropWhile host_char r
          in if HOST_SIZE \<le> length host then None
             else if def \<noteq> None \<and> rest \<noteq> [] \<and> hd rest = CHR '':''
             then do { p \<leftarrow> atoi (tl rest); Some (host, Some (word_of_int p)) }
             else Some (host, def))"

definition we_url_host :: "byte list \<Rightarrow> byte list option" where
  "we_url_host url = map_option fst (url_host_port url None)"

definition we_url_port :: "byte list \<Rightarrow> int \<Rightarrow> u16 option" where
  "we_url_port url def = Option.bind (url_host_port url (Some (word_of_int def))) snd"

definition we_url_path :: "byte list \<Rightarrow> byte list" where
  "we_url_path url =
     (let pcPath = (case strstr url ''//'' of Some p \<Rightarrow> strstr (drop 2 p) ''/'' | None \<Rightarrow> strstr url ''/'')
      in case pcPath of None \<Rightarrow> ''/'' | Some p \<Rightarrow> p)"

definition we_url_hostport :: "byte list \<Rightarrow> byte list option option" where
  "we_url_hostport url =
     (case strstr url ''//'' of
        None \<Rightarrow> Some None
      | Some t \<Rightarrow>
          let pcTemp = drop 2 t;
              n = (case strstr pcTemp ''/'' of Some t2 \<Rightarrow> length pcTemp - length t2 | None \<Rightarrow> length pcTemp)
          in if n < HOST_SIZE then Some (Some (take n pcTemp)) else None)"

section \<open>The head of a request\<close>

text \<open>
  The two formats, as functions of what is put into them, and the length of the format for
  \<^verbatim>\<open>POST\<close>. The one for \<^verbatim>\<open>GET\<close> has a line feed without a carriage return.
\<close>

definition fmtHdrPost :: "byte list \<Rightarrow> byte list \<Rightarrow> byte list \<Rightarrow> byte list" where
  "fmtHdrPost path hostport len =
     ''POST '' @ path @ '' HTTP/1.1'' @ [CR, LF] @ ''Host: '' @ hostport @ [CR, LF]
     @ ''Content-Type: application/x-www-form-urlencoded; charset=UTF-8'' @ [CR, LF]
     @ ''Content-Length: '' @ len @ [CR, LF] @ ''User-Agent: MBrowser'' @ [CR, LF] @ ''Accept: */*'' @ [CR, LF, CR, LF]"

definition fmtHdrGet :: "byte list \<Rightarrow> byte list \<Rightarrow> byte list" where
  "fmtHdrGet path hostport =
     ''GET '' @ path @ '' HTTP/1.1'' @ [CR, LF] @ ''Host: '' @ hostport @ [CR, LF]
     @ ''User-Agent: MBrowser'' @ [LF] @ ''Accept: */*'' @ [CR, LF, CR, LF]"

definition fmtHdrPost_len :: nat where
  "fmtHdrPost_len = length (fmtHdrPost ''%s'' ''%s'' ''%d'')"

text \<open>\<^verbatim>\<open>strlen\<close> of a null host has no result. The method is \<^verbatim>\<open>HTTP_GET\<close>, that is 1, or anything else.\<close>

definition we_url_make_header :: "int \<Rightarrow> byte list \<Rightarrow> int \<Rightarrow> byte list option" where
  "we_url_make_header iMethod url postLen = do {
     hp \<leftarrow> we_url_hostport url;
     hostport \<leftarrow> hp;
     let path = we_url_path url;
     let iHdrLen = fmtHdrPost_len + length path + length hostport + 16 + 1;
     let header = (if iMethod = 1 then fmtHdrGet path hostport else fmtHdrPost path hostport (decimal_int postLen));
     if length header < iHdrLen then Some header else None
   }"

section \<open>Lemmas\<close>

lemma length_decimal: "n < 10 ^ k \<Longrightarrow> 0 < k \<Longrightarrow> length (decimal n) \<le> k"
proof (induction k arbitrary: n)
  case (Suc k)
  show ?case
  proof (cases "n < 10")
    case True
    then show ?thesis by (simp add: decimal.simps [of n])
  next
    case False
    then have "n div 10 < 10 ^ k" "0 < k" using Suc.prems(1) by (cases k; simp)+
    then show ?thesis using Suc.IH [of "n div 10"] False by (simp add: decimal.simps [of n])
  qed
qed simp

lemma length_decimal_int: "int_range i \<Longrightarrow> length (decimal_int i) \<le> 11"
proof -
  assume i: "int_range i"
  have "length (decimal n) \<le> 10" if "int n \<le> 2 ^ 31" for n
    using that by (intro length_decimal) simp_all
  moreover from i have "nat i \<le> 2 ^ 31" "nat (- i) \<le> 2 ^ 31" by (simp_all add: int_range_def nat_le_iff)
  ultimately have "length (decimal (nat i)) \<le> 10" "length (decimal (nat (- i))) \<le> 10" by force+
  then show ?thesis by (simp add: decimal_int_def)
qed

lemma decimal_digits: "list_all IS_NUM (decimal n)"
proof (induction n rule: decimal.induct)
  case (1 n)
  then show ?case using digit_char_num(1) [of n] digit_char_num(1) [of "n mod 10"]
    by (simp add: decimal.simps [of n])
qed

lemma decimal_value: "digits_value (decimal n) = int n"
proof (induction n rule: decimal.induct)
  case (1 n)
  have d: "int (of_char (digit_char d)) = 48 + int d" if "d < 10" for d
    using that by (simp add: digit_char_def)
  show ?case
  proof (cases "n < 10")
    case True
    then show ?thesis using d [of n] by (simp add: decimal.simps [of n] digits_value_def)
  next
    case False
    have "digits_value (decimal n) = 10 * digits_value (decimal (n div 10)) + (int (of_char (digit_char (n mod 10))) - 48)"
      using False by (simp add: decimal.simps [of n] digits_value_def)
    also have "\<dots> = 10 * int (n div 10) + int (n mod 10)" using 1 [OF False] d [of "n mod 10"] by simp
    also have "\<dots> = int n" by presburger
    finally show ?thesis .
  qed
qed

lemma decimal_first: "\<exists>c cs. decimal n = c # cs"
  by (cases "decimal n") (auto simp: decimal.simps [of n] split: if_splits)

lemma atoi_decimal:
  assumes "n < 2 ^ 31" and "r = [] \<or> \<not> IS_NUM (hd r)"
  shows "atoi (decimal n @ r) = Some (int n)"
proof -
  obtain c cs where c: "decimal n = c # cs" using decimal_first by blast
  have num: "IS_NUM c" using decimal_digits [of n] c by simp
  then have o: "(48 :: nat) \<le> of_char c" "of_char c \<le> (57 :: nat)" by (simp_all add: IS_NUM_def)
  then have "\<not> c_space c" "c \<noteq> CHR ''-''" "c \<noteq> CHR ''+''" by (auto simp: c_space_def)
  moreover have "takeWhile IS_NUM (decimal n @ r) = decimal n"
    using decimal_digits [of n] assms(2) by (cases r) (simp_all add: takeWhile_append list_all_iff)
  ultimately show ?thesis
    using assms(1) by (simp add: atoi_def c int_range_def Let_def) (simp add: decimal_value flip: c)
qed

text \<open>A URL made of its parts: scheme, host, an optional port, and a path.\<close>

record url =
  u_scheme :: "byte list"
  u_host :: "byte list"
  u_port :: "nat option"
  u_path :: "byte list"

definition url_authority :: "url \<Rightarrow> byte list" where
  "url_authority u = u_host u @ (case u_port u of None \<Rightarrow> [] | Some n \<Rightarrow> CHR '':'' # decimal n)"

definition render_url :: "url \<Rightarrow> byte list" where
  "render_url u = u_scheme u @ ''://'' @ url_authority u @ u_path u"

definition valid_url :: "url \<Rightarrow> bool" where
  "valid_url u \<longleftrightarrow> CHR '':'' \<notin> set (u_scheme u) \<and> CHR ''/'' \<notin> set (u_scheme u)
     \<and> list_all host_char (u_host u) \<and> length (url_authority u) < HOST_SIZE
     \<and> (\<forall>n. u_port u = Some n \<longrightarrow> n < 2 ^ 16)
     \<and> u_path u \<noteq> [] \<and> hd (u_path u) = CHR ''/''"

lemma after_scheme_append: "CHR '':'' \<notin> set s \<Longrightarrow> after_scheme (s @ ''://'' @ r) = Some r"
  by (induction s) auto

lemma strstr_slashes: "CHR ''/'' \<notin> set s \<Longrightarrow> strstr (s @ CHR '':'' # CHR ''/'' # CHR ''/'' # r) ''//'' = Some (''//'' @ r)"
proof (induction s)
  case Nil
  show ?case
    by (simp add: strstr.simps [of "CHR '':'' # CHR ''/'' # CHR ''/'' # r"] strstr.simps [of "CHR ''/'' # CHR ''/'' # r"])
next
  case (Cons c s)
  then have "c \<noteq> CHR ''/''" by auto
  then show ?case using Cons by (simp add: strstr.simps [of "c # s @ CHR '':'' # CHR ''/'' # CHR ''/'' # r"])
qed

lemma strstr_slash: "CHR ''/'' \<notin> set s \<Longrightarrow> strstr (s @ CHR ''/'' # r) ''/'' = Some (CHR ''/'' # r)"
  using strchr_append [of "CHR ''/''" s r] by (simp add: strchr_def)

lemma slash_not_num: "\<not> IS_NUM CHR ''/''" "\<not> IS_NUM CHR '':''"
  by (simp_all add: IS_NUM_def)

lemma no_slash_authority:
  assumes "valid_url u"
  shows "CHR ''/'' \<notin> set (url_authority u)"
proof -
  have "CHR ''/'' \<notin> set (decimal n)" for n
    using decimal_digits [of n] slash_not_num by (auto simp: list_all_iff)
  moreover have "CHR ''/'' \<notin> set (u_host u)" using assms by (auto simp: valid_url_def list_all_iff host_char_def)
  ultimately show ?thesis by (simp add: url_authority_def split: option.splits)
qed

lemma hostport_render: "valid_url u \<Longrightarrow> we_url_hostport (render_url u) = Some (Some (url_authority u))"
proof -
  assume v: "valid_url u"
  obtain r where r: "u_path u = CHR ''/'' # r" using v by (cases "u_path u") (auto simp: valid_url_def)
  show ?thesis
    using v r strstr_slashes [of "u_scheme u" "url_authority u @ u_path u"] strstr_slash [OF no_slash_authority [OF v], of r]
    by (simp add: we_url_hostport_def render_url_def valid_url_def Let_def)
qed

lemma path_render: "valid_url u \<Longrightarrow> we_url_path (render_url u) = u_path u"
proof -
  assume v: "valid_url u"
  obtain r where r: "u_path u = CHR ''/'' # r" using v by (cases "u_path u") (auto simp: valid_url_def)
  show ?thesis
    using v r strstr_slashes [of "u_scheme u" "url_authority u @ u_path u"] strstr_slash [OF no_slash_authority [OF v], of r]
    by (simp add: we_url_path_def render_url_def valid_url_def Let_def)
qed

lemma host_port_render:
  assumes v: "valid_url u"
  shows "url_host_port (render_url u) def =
    Some (u_host u, if def = None then None else case u_port u of None \<Rightarrow> def | Some n \<Rightarrow> Some (word_of_nat n))"
proof -
  obtain r where r: "u_path u = CHR ''/'' # r" using v by (cases "u_path u") (auto simp: valid_url_def)
  have h: "list_all host_char (u_host u)" "length (u_host u) < HOST_SIZE" using v by (auto simp: valid_url_def url_authority_def)
  have nh: "\<not> host_char CHR '':''" "\<not> host_char CHR ''/''" by (simp_all add: host_char_def)
  have a: "after_scheme (render_url u) = Some (url_authority u @ u_path u)"
    using v after_scheme_append [of "u_scheme u" "url_authority u @ u_path u"] by (simp add: render_url_def valid_url_def)
  have split: "takeWhile host_char (u_host u @ c # cs) = u_host u" "dropWhile host_char (u_host u @ c # cs) = c # cs"
    if "\<not> host_char c" for c cs
    using that h by (simp_all add: takeWhile_append dropWhile_append list_all_iff)
  show ?thesis
  proof (cases "u_port u")
    case None
    then show ?thesis using a r h(2) split [OF nh(2), of r] by (simp add: url_host_port_def url_authority_def Let_def)
  next
    case (Some n)
    then have n: "n < 2 ^ 31" using v by (auto simp: valid_url_def)
    have at: "atoi (decimal n @ CHR ''/'' # r) = Some (int n)"
      by (rule atoi_decimal) (use n slash_not_num in auto)
    show ?thesis
      using a r h(2) split [OF nh(1), of "decimal n @ CHR ''/'' # r"] Some at
      by (auto simp: url_host_port_def url_authority_def Let_def)
  qed
qed

end
