(* ===== verification/Url_Props.thy ===== *)
theory Url_Props
  imports Url_Helpers Http_Roundtrip
begin

text \<open>
  Properties of the URL helpers: the parts of a rendered URL are found again, the head of a request
  fits its memory, and the HTTP parser reads the client's requests as they were meant.
\<close>

section \<open>The client's head through the parser\<close>

text \<open>A header line whose name the parser follows for a while and then gives up.\<close>

lemma run_given_up_name:
  assumes name: "quiet_run n (p, u) =
      Some (p\<lparr>p_state := s_header_field, header_state := h_general, p_index := i\<rparr>, u @ map (Got Header_Field) n)"
    and v: "v \<noteq> CHR '' ''" "v \<noteq> TAB" "list_all (\<lambda>c. c \<noteq> CR \<and> c \<noteq> LF) (v # vs)"
    and e: "e = crlf \<or> e = [LF]"
  shows "quiet_run (n @ '': '' @ v # vs @ e) (p, u) =
    Some (p\<lparr>p_state := s_header_value_lws, header_state := h_general, p_index := 0\<rparr>,
          u @ map (Got Header_Field) n @ map (Got Header_Value) (v # vs))"
proof -
  let ?p1 = "p\<lparr>p_state := s_header_field, header_state := h_general, p_index := i\<rparr>"
  let ?p2 = "?p1\<lparr>p_state := s_header_value_start\<rparr>"
  let ?p3 = "?p1\<lparr>p_index := 0, p_state := s_header_value\<rparr>"
  let ?u1 = "u @ map (Got Header_Field) n"
  have 2: "quiet_run '': '' (?p1, ?u1) = Some (?p2, ?u1)" using run_colon [of ?p1 ?u1] by simp
  have 3: "quiet_exec 4 v (?p2, ?u1) = Some (?p3, ?u1 @ [Got Header_Value v])"
    using v by (simp add: quiet_simps at_s_header_value_start_def header_value_first_def Let_def)
  have 4: "quiet_run vs (?p3, ?u1 @ [Got Header_Value v]) = Some (?p3, (?u1 @ [Got Header_Value v]) @ map (Got Header_Value) vs)"
    by (rule run_value_general) (use v in simp_all)
  have "quiet_exec 4 LF (?p3, w) = Some (?p3\<lparr>p_state := s_header_value_lws\<rparr>, w)" for w
    by (simp add: quiet_simps quiet_exec_3 at_s_header_value_def at_s_header_almost_done_def STRICT_CHECK_def)
  then have 5: "quiet_run e (?p3, w) = Some (?p3\<lparr>p_state := s_header_value_lws\<rparr>, w)" for w
    using e run_value_end [of ?p3 w] by (auto simp del: quiet_exec.simps)
  show ?thesis
    by (rule quiet_append [OF name], rule quiet_append [OF 2], rule quiet_step [OF 3],
        rule quiet_append [OF 4], rule trans [OF 5]) simp
qed

lemma TOKEN_more:
  "TOKEN CHR ''T'' = CHR ''t''" "TOKEN CHR ''y'' = CHR ''y''" "TOKEN CHR ''p'' = CHR ''p''"
  "TOKEN CHR ''U'' = CHR ''u''" "TOKEN CHR ''s'' = CHR ''s''" "TOKEN CHR ''r'' = CHR ''r''" "TOKEN CHR ''A'' = CHR ''a''"
  by (simp_all add: TOKEN_spec token_spec_def IS_ALPHA_def IS_NUM_def LOWER_def of_char_def)

lemma run_content_type_name:
  assumes "at_header p"
  shows "\<exists>i. quiet_run ''Content-Type'' (p, u) =
    Some (p\<lparr>p_state := s_header_field, header_state := h_general, p_index := i\<rparr>, u @ map (Got Header_Field) ''Content-Type'')"
proof -
  let ?p1 = "p\<lparr>p_index := 0, p_state := s_header_field, header_state := h_C\<rparr>"
  have 1: "quiet_exec 4 CHR ''C'' (p, u) = Some (?p1, u @ [Got Header_Field CHR ''C''])"
    using run_name_first [OF assms, of "CHR ''C''" u] by (simp add: TOKEN_letters)
  have "quiet_run ''ontent-Type'' (?p1, u @ [Got Header_Field CHR ''C'']) =
      Some (?p1\<lparr>p_index := 8, header_state := h_general\<rparr>, (u @ [Got Header_Field CHR ''C'']) @ map (Got Header_Field) ''ontent-Type'')"
    by (simp add: quiet_simps at_s_header_field_def header_name_char_def match_char_def TOKEN_letters TOKEN_more
        CONTENT_LENGTH_def c_str_def Let_def)
  then have "quiet_run ''Content-Type'' (p, u) = Some (?p1\<lparr>p_index := 8, header_state := h_general\<rparr>,
      (u @ [Got Header_Field CHR ''C'']) @ map (Got Header_Field) ''ontent-Type'')" by (rule quiet_step [OF 1])
  then show ?thesis by (intro exI [of _ 8]) (cases p; simp)
qed

lemma run_user_agent_name:
  assumes "at_header p"
  shows "\<exists>i. quiet_run ''User-Agent'' (p, u) =
    Some (p\<lparr>p_state := s_header_field, header_state := h_general, p_index := i\<rparr>, u @ map (Got Header_Field) ''User-Agent'')"
proof -
  let ?p1 = "p\<lparr>p_index := 0, p_state := s_header_field, header_state := h_matching_upgrade\<rparr>"
  have 1: "quiet_exec 4 CHR ''U'' (p, u) = Some (?p1, u @ [Got Header_Field CHR ''U''])"
    using run_name_first [OF assms, of "CHR ''U''" u] by (simp add: TOKEN_letters TOKEN_more)
  have "quiet_run ''ser-Agent'' (?p1, u @ [Got Header_Field CHR ''U'']) =
      Some (?p1\<lparr>p_index := 1, header_state := h_general\<rparr>, (u @ [Got Header_Field CHR ''U'']) @ map (Got Header_Field) ''ser-Agent'')"
    by (simp add: quiet_simps at_s_header_field_def header_name_char_def match_char_def TOKEN_letters TOKEN_more
        UPGRADE_def c_str_def Let_def)
  then have "quiet_run ''User-Agent'' (p, u) = Some (?p1\<lparr>p_index := 1, header_state := h_general\<rparr>,
      (u @ [Got Header_Field CHR ''U'']) @ map (Got Header_Field) ''ser-Agent'')" by (rule quiet_step [OF 1])
  then show ?thesis by (intro exI [of _ 1]) (cases p; simp)
qed

text \<open>A host and a path that can stand in a request.\<close>

definition sendable :: "byte list \<Rightarrow> byte list \<Rightarrow> bool" where
  "sendable path hostport \<longleftrightarrow> valid_target path \<and> valid_header (''Host'', hostport)"

lemma run_client_start:
  assumes p: "p_state p = s_start_req" and m: "m \<noteq> HTTP_CONNECT" and s: "sendable path hp"
  shows "quiet_run (method_strings m @ '' '' @ path @ '' HTTP/1.1'' @ crlf @ header_line (''Host'', hp)) (p, u) =
    Some (p\<lparr>p_flags := 0, p_method := m, http_major := 1, http_minor := 1, content_length := HTTP_UINT32_MAX,
            p_state := s_header_value_lws, header_state := h_general, p_index := 0\<rparr>,
          u @ [Saw Message_Begin] @ map (Got Url) path @ header_events (''Host'', hp))"
proof -
  let ?p1 = "p\<lparr>p_flags := 0, content_length := HTTP_UINT32_MAX, p_method := m,
      p_index := word_of_nat (length (method_strings m) + 1), p_state := s_req_spaces_before_url\<rparr>"
  let ?u1 = "u @ [Saw Message_Begin]" and ?u2 = "(u @ [Saw Message_Begin]) @ map (Got Url) path"
  have 1: "quiet_run (method_strings m @ '' '') (p, u) = Some (?p1, ?u1)" by (rule run_method [OF p])
  obtain t where t: "t \<in> path_states" and 2: "quiet_run path (?p1, ?u1) = Some (?p1\<lparr>p_state := t\<rparr>, ?u2)"
    using run_target [of ?p1 path ?u1] m s by (auto simp: sendable_def)
  let ?p3 = "?p1\<lparr>p_state := t, http_major := 1, http_minor := 1, p_state := s_header_field_start\<rparr>"
  have 3: "quiet_run ('' HTTP/1.1'' @ crlf) (?p1\<lparr>p_state := t\<rparr>, ?u2) = Some (?p3, ?u2)"
    by (rule run_version) (use t in simp)
  have 4: "quiet_run (header_line (''Host'', hp)) (?p3, ?u2) =
      Some (?p3\<lparr>p_state := s_header_value_lws, header_state := h_general, p_index := 0\<rparr>, ?u2 @ header_events (''Host'', hp))"
    by (rule run_header) (use s in \<open>simp_all add: at_header_def sendable_def\<close>)
  have "quiet_run ((method_strings m @ '' '') @ path @ ('' HTTP/1.1'' @ crlf) @ header_line (''Host'', hp)) (p, u) =
      Some (?p3\<lparr>p_state := s_header_value_lws, header_state := h_general, p_index := 0\<rparr>, ?u2 @ header_events (''Host'', hp))"
    by (rule quiet_append [OF 1], rule quiet_append [OF 2], rule quiet_append [OF 3], rule 4)
  then show ?thesis by (cases p) simp
qed

definition agent_header :: header where "agent_header = (''User-Agent'', ''MBrowser'')"
definition accept_header :: header where "accept_header = (''Accept'', ''*/*'')"
definition type_header :: header where
  "type_header = (''Content-Type'', ''application/x-www-form-urlencoded; charset=UTF-8'')"

lemma run_accept:
  assumes "at_header p"
  shows "quiet_run (header_line accept_header) (p, u) =
    Some (p\<lparr>p_state := s_header_value_lws, header_state := h_general, p_index := 0\<rparr>, u @ header_events accept_header)"
  by (rule run_header [OF assms])
    (simp add: accept_header_def valid_header_def TOKEN_spec token_spec_def IS_ALPHA_def IS_NUM_def LOWER_def of_char_def)

lemma run_agent:
  assumes "at_header p" and "e = crlf \<or> e = [LF]"
  shows "quiet_run (''User-Agent: MBrowser'' @ e) (p, u) =
    Some (p\<lparr>p_state := s_header_value_lws, header_state := h_general, p_index := 0\<rparr>, u @ header_events agent_header)"
proof -
  obtain i where n: "quiet_run ''User-Agent'' (p, u) =
    Some (p\<lparr>p_state := s_header_field, header_state := h_general, p_index := i\<rparr>, u @ map (Got Header_Field) ''User-Agent'')"
    using run_user_agent_name [OF assms(1)] by blast
  show ?thesis
    using run_given_up_name [OF n, of "CHR ''M''" "''Browser''" e] assms(2)
    by (simp add: agent_header_def header_events_def del: quiet_run.simps)
qed

lemma run_type:
  assumes "at_header p"
  shows "quiet_run (header_line type_header) (p, u) =
    Some (p\<lparr>p_state := s_header_value_lws, header_state := h_general, p_index := 0\<rparr>, u @ header_events type_header)"
proof -
  obtain i where n: "quiet_run ''Content-Type'' (p, u) =
    Some (p\<lparr>p_state := s_header_field, header_state := h_general, p_index := i\<rparr>, u @ map (Got Header_Field) ''Content-Type'')"
    using run_content_type_name [OF assms(1)] by blast
  show ?thesis
    using run_given_up_name [OF n, of "CHR ''a''" "''pplication/x-www-form-urlencoded; charset=UTF-8''" crlf]
    by (simp add: type_header_def header_line_def header_events_def del: quiet_run.simps)
qed

lemma at_lws: "at_header (p\<lparr>p_state := s_header_value_lws, header_state := h, p_index := i\<rparr>)"
  by (simp add: at_header_def)

lemma run_client_end:
  assumes "at_header p" and "e = crlf \<or> e = [LF]"
  shows "quiet_run ((''User-Agent: MBrowser'' @ e) @ header_line accept_header @ [CR]) (p, u) =
    Some (p\<lparr>p_state := s_headers_almost_done, header_state := h_general, p_index := 0\<rparr>,
          u @ header_events agent_header @ header_events accept_header)"
proof -
  let ?p = "p\<lparr>p_state := s_header_value_lws, header_state := h_general, p_index := 0\<rparr>"
  have acc: "quiet_run (header_line accept_header) (?p, w) = Some (?p, w @ header_events accept_header)" for w
    using run_accept [of ?p w] at_lws [where p = p] by simp
  have cr: "quiet_run [CR] (?p, w) = Some (?p\<lparr>p_state := s_headers_almost_done\<rparr>, w)" for w
    by (rule run_head_cr) (rule at_lws)
  show ?thesis
    by (rule quiet_append [OF run_agent [OF assms]], rule quiet_append [OF acc], rule trans [OF cr]) simp
qed

section \<open>Whole requests\<close>

text \<open>What the callbacks of a server should see of a client's request.\<close>

definition client_headers :: "int \<Rightarrow> byte list \<Rightarrow> nat \<Rightarrow> header list" where
  "client_headers iMethod hostport n = (''Host'', hostport)
     # (if iMethod = 1 then [] else [type_header, length_header n]) @ [agent_header, accept_header]"

definition client_events :: "int \<Rightarrow> byte list \<Rightarrow> byte list \<Rightarrow> byte list \<Rightarrow> http_event list" where
  "client_events iMethod path hostport body = [Saw Message_Begin] @ map (Got Url) path
     @ concat (map header_events (client_headers iMethod hostport (length body))) @ [Headers]
     @ map (Got Body) body @ [Saw Message_Complete]"

lemma ref_client_get:
  assumes p: "ready p" and s: "sendable path hp" and len: "length (fmtHdrGet path hp) \<le> 8192"
  shows "\<exists>p'. ref_run recorder (fmtHdrGet path hp) (p, u) = Some (p', u @ client_events 1 path hp []) \<and> ready p'"
proof -
  let ?hd = "(method_strings HTTP_GET @ '' '' @ path @ '' HTTP/1.1'' @ crlf @ header_line (''Host'', hp))
      @ (''User-Agent: MBrowser'' @ [LF]) @ header_line accept_header @ [CR]"
  let ?u = "u @ [Saw Message_Begin] @ map (Got Url) path @ header_events (''Host'', hp)"
  have hdr: "fmtHdrGet path hp = ?hd @ [LF] @ []"
    by (simp add: fmtHdrGet_def header_line_def accept_header_def)
  have 1: "quiet_run ?hd (p, u) = Some (p\<lparr>p_flags := 0, p_method := HTTP_GET, http_major := 1, http_minor := 1,
      content_length := HTTP_UINT32_MAX, p_state := s_headers_almost_done, header_state := h_general, p_index := 0\<rparr>,
      ?u @ header_events agent_header @ header_events accept_header)"
    by (rule quiet_append [OF run_client_start [OF _ _ s]], use p in \<open>simp add: ready_def\<close>, simp)
      (rule trans [OF run_client_end], simp add: at_header_def, simp, simp)
  show ?thesis
    using ref_head_and_body [OF 1 _ p, of "[]"] len
    unfolding hdr by (auto simp: client_events_def client_headers_def)
qed

lemma ref_client_post:
  assumes p: "ready p" and s: "sendable path hp" and m: "iMethod \<noteq> 1" and n: "length body < 2 ^ 31"
    and len: "length (fmtHdrPost path hp (decimal (length body))) \<le> 8192"
  shows "\<exists>p'. ref_run recorder (fmtHdrPost path hp (decimal (length body)) @ body) (p, u) =
    Some (p', u @ client_events iMethod path hp body) \<and> ready p'"
proof -
  let ?n = "length body"
  let ?a = "method_strings HTTP_POST @ '' '' @ path @ '' HTTP/1.1'' @ crlf @ header_line (''Host'', hp)"
  let ?z = "(''User-Agent: MBrowser'' @ crlf) @ header_line accept_header @ [CR]"
  let ?hd = "?a @ header_line type_header @ header_line (length_header ?n) @ ?z"
  let ?p1 = "p\<lparr>p_flags := 0, p_method := HTTP_POST, http_major := 1, http_minor := 1, content_length := HTTP_UINT32_MAX,
      p_state := s_header_value_lws, header_state := h_general, p_index := 0\<rparr>"
  let ?p2 = "?p1\<lparr>p_state := s_header_value_lws, header_state := h_content_length, p_index := 0, content_length := word_of_nat ?n\<rparr>"
  let ?u1 = "u @ [Saw Message_Begin] @ map (Got Url) path @ header_events (''Host'', hp)"
  let ?u2 = "?u1 @ header_events type_header" and ?u3 = "(?u1 @ header_events type_header) @ header_events (length_header ?n)"
  have hdr: "fmtHdrPost path hp (decimal ?n) = ?hd @ [LF]"
    by (simp add: fmtHdrPost_def header_line_def accept_header_def type_header_def length_header_def)
  have at: "at_header ?p1" "at_header ?p2" by (simp_all add: at_header_def)
  have 1: "quiet_run ?a (p, u) = Some (?p1, ?u1)"
    by (rule run_client_start [OF _ _ s]) (use p in \<open>simp_all add: ready_def\<close>)
  have 2: "quiet_run (header_line type_header) (?p1, ?u1) = Some (?p1, ?u2)"
    using run_type [OF at(1), of ?u1] by simp
  have 3: "quiet_run (header_line (length_header ?n)) (?p1, ?u2) = Some (?p2, ?u3)"
    by (rule run_length_header [OF at(1)]) (use n in simp)
  have 4: "quiet_run ?z (?p2, ?u3) =
      Some (?p2\<lparr>p_state := s_headers_almost_done, header_state := h_general, p_index := 0\<rparr>,
            ?u3 @ header_events agent_header @ header_events accept_header)"
    by (rule run_client_end [OF at(2)]) simp
  have "quiet_run ?hd (p, u) = Some (?p2\<lparr>p_state := s_headers_almost_done, header_state := h_general, p_index := 0\<rparr>,
      ?u3 @ header_events agent_header @ header_events accept_header)"
    by (rule quiet_append [OF 1], rule quiet_append [OF 2], rule quiet_append [OF 3], rule 4)
  then have 5: "quiet_run ?hd (p, u) = Some (p\<lparr>p_flags := 0, p_method := HTTP_POST, http_major := 1, http_minor := 1,
      content_length := word_of_nat ?n, p_state := s_headers_almost_done, header_state := h_general, p_index := 0\<rparr>,
      ?u3 @ header_events agent_header @ header_events accept_header)"
    by (cases p) (simp del: quiet_run.simps)
  have l: "length ?hd < 8192" using len unfolding hdr by simp
  have "\<exists>p'. ref_run recorder (?hd @ [LF] @ body) (p, u) = Some (p', (?u3 @ header_events agent_header @ header_events accept_header)
      @ [Headers] @ map (Got Body) body @ [Saw Message_Complete]) \<and> ready p' \<and> p_method p' = HTTP_POST"
    by (rule ref_head_and_body [OF 5 l p]) (use n in auto)
  then show ?thesis
    unfolding hdr using m by (auto simp: client_events_def client_headers_def)
qed

section \<open>Properties\<close>

text \<open>
  C1. The parts of a URL, its scheme, host, optional port and path, are found again in the text made
  of them; without a port the default counts.
\<close>

theorem url_parts_found:
  assumes "valid_url u"
  shows "we_url_host (render_url u) = Some (u_host u)
    \<and> we_url_port (render_url u) def = Some (case u_port u of None \<Rightarrow> word_of_int def | Some n \<Rightarrow> word_of_nat n)
    \<and> we_url_path (render_url u) = u_path u
    \<and> we_url_hostport (render_url u) = Some (Some (url_authority u))"
  using host_port_render [OF assms] hostport_render [OF assms] path_render [OF assms]
  by (simp_all add: we_url_host_def we_url_port_def split: option.splits)

definition url_example :: url where
  "url_example = \<lparr>u_scheme = ''http'', u_host = ''h.org'', u_port = Some 8080, u_path = ''/a?u=http://b''\<rparr>"

lemma valid_url_example: "valid_url url_example"
  by (simp add: valid_url_def url_example_def host_char_def url_authority_def HOST_SIZE_def decimal.simps)

theorem url_parts_found_witness:
  "we_url_host (render_url url_example) = Some ''h.org''
   \<and> we_url_port (render_url url_example) 80 = Some 8080
   \<and> we_url_path (render_url url_example) = ''/a?u=http://b''
   \<and> we_url_hostport (render_url url_example) = Some (Some (url_authority url_example))"
  using url_parts_found [OF valid_url_example, of 80] by (simp add: url_example_def)

text \<open>
  C2. Whatever the URL and the length of the body, a request head that is made fits the memory that was
  allocated for it.
\<close>

theorem make_header_fits:
  assumes "we_url_hostport url = Some (Some hostport)" and "int_range postLen"
  shows "we_url_make_header iMethod url postLen = Some
    (if iMethod = 1 then fmtHdrGet (we_url_path url) hostport
     else fmtHdrPost (we_url_path url) hostport (decimal_int postLen))"
  using assms(1) length_decimal_int [OF assms(2)]
  by (simp add: we_url_make_header_def fmtHdrPost_len_def fmtHdrGet_def fmtHdrPost_def Let_def)

theorem make_header_fits_witness:
  "we_url_make_header 3 (render_url url_example) (- (2 ^ 31)) = Some
    (if 3 = (1 :: int) then fmtHdrGet (we_url_path (render_url url_example)) (url_authority url_example)
     else fmtHdrPost (we_url_path (render_url url_example)) (url_authority url_example) (decimal_int (- (2 ^ 31))))"
  by (rule make_header_fits [OF hostport_render [OF valid_url_example]]) (simp add: int_range_def)

text \<open>
  C3. What the HTTP client sends is what an HTTP server of this library gets: the head made from a URL,
  with the body of a \<^verbatim>\<open>POST\<close>, cut into reads in any way, makes the parser report one request with the
  path of the URL, the client's headers with host and port, and the body, and leaves it ready for the next one.
\<close>

theorem client_requests_parsed:
  assumes u: "valid_url u" "sendable (u_path u) (url_authority u)"
    and hdr: "we_url_make_header iMethod (render_url u) (int (length body)) = Some header" "length header \<le> 8192"
    and body: "length body < 2 ^ 31" "iMethod = 1 \<longrightarrow> body = []"
    and p: "ready p" "hp_wf p" and cs: "concat cs = header @ body" "\<forall>c \<in> set cs. c \<noteq> [] \<and> length c < 2 ^ 31"
  shows "\<exists>p'. feed recorder cs (p, es) = Some (p', es @ client_events iMethod (u_path u) (url_authority u) body) \<and> ready p'"
proof -
  have r: "int_range (int (length body))" using body(1) by (simp add: int_range_def)
  have h: "header = (if iMethod = 1 then fmtHdrGet (u_path u) (url_authority u)
      else fmtHdrPost (u_path u) (url_authority u) (decimal (length body)))"
  proof -
    note fits = hostport_render [OF u(1)] path_render [OF u(1)]
    have "length (decimal_int (int (length body))) \<le> 11" by (rule length_decimal_int [OF r])
    then show ?thesis
      using hdr(1) fits by (simp add: we_url_make_header_def Let_def decimal_int_def split: if_splits)
  qed
  have "\<exists>p'. ref_run recorder (header @ body) (p, es) = Some (p', es @ client_events iMethod (u_path u) (url_authority u) body)
      \<and> ready p'"
    using ref_client_get [OF p(1) u(2), of es] ref_client_post [OF p(1) u(2) _ body(1), of iMethod es] body(2) hdr(2)
    by (cases "iMethod = 1") (simp_all add: h)
  then show ?thesis
    using feed_ref_run [OF accumulates_recorder, of p cs es] p cs by (simp add: ready_def)
qed

theorem client_requests_parsed_witness:
  "\<exists>p'. feed recorder [fmtHdrPost (u_path url_example) (url_authority url_example) (decimal 2), ''hi'']
     (http_parser_init HTTP_REQUEST, []) =
     Some (p', [] @ client_events 3 (u_path url_example) (url_authority url_example) ''hi'') \<and> ready p'"
proof (rule client_requests_parsed [OF valid_url_example])
  show "sendable (u_path url_example) (url_authority url_example)"
    using digit_char_num(3) [of 8] digit_char_num(3) [of 0]
    by (simp add: sendable_def url_example_def url_authority_def valid_target_def visible_def valid_header_def decimal.simps
        TOKEN_spec token_spec_def IS_ALPHA_def IS_NUM_def LOWER_def of_char_def)
  have l: "length (fmtHdrPost (u_path url_example) (url_authority url_example) (decimal 2)) \<le> 300"
    by (simp add: fmtHdrPost_def url_example_def url_authority_def decimal.simps)
  show "we_url_make_header 3 (render_url url_example) (int (length ''hi'')) =
      Some (fmtHdrPost (u_path url_example) (url_authority url_example) (decimal 2))"
    using hostport_render [OF valid_url_example] path_render [OF valid_url_example] l
    by (simp add: we_url_make_header_def decimal_int_def fmtHdrPost_len_def fmtHdrPost_def decimal.simps)
  show "length (fmtHdrPost (u_path url_example) (url_authority url_example) (decimal 2)) \<le> 8192" using l by simp
  show "\<forall>c \<in> set [fmtHdrPost (u_path url_example) (url_authority url_example) (decimal 2), ''hi'']. c \<noteq> [] \<and> length c < 2 ^ 31"
    using l by (auto simp: fmtHdrPost_def)
qed (simp_all add: ready_init hp_wf_init)

end
