(* ===== verification/Httpc.thy ===== *)
theory Httpc
  imports Libnet_Runs Http_Execute Url_Helpers
begin

text \<open>
  The HTTP client (\<^verbatim>\<open>httpc.h\<close>, \<^verbatim>\<open>httpc.c\<close>) on top of the library. The clients and the outputs of
  their requests live in the \<open>app\<close> component of the library's state, at addresses. The functions that get
  an output, \<open>uh\<close>, work on the whole state.
\<close>

section \<open>State\<close>

datatype httpc_proc = Httpc_Channel

text \<open>
  The unions of an output, told apart by \<^verbatim>\<open>outType\<close>: the path with the file handle, or the buffer
  (\<^verbatim>\<open>max\<close> is never read).
\<close>

datatype out_type = EOUT_FILE | EOUT_BUFF

datatype 'b coutput = Out_File "byte list" nat | Out_Buff 'b

record ('f, 'b) soutputer =
  so_out :: "'b coutput"
  so_parser :: http_parser
  so_pfn :: "'f option"
  so_pUsr :: nat

record httpc =
  hc_output :: nat
  hc_field :: bool
  hc_timeout :: int
  hc_total :: int
  hc_size :: int
  hc_complete :: bool
  hc_c :: nat

text \<open>Layers above the client extend this record.\<close>

record ('f, 'b) httpc_app =
  httpcs :: "nat \<Rightarrow> httpc option"
  outputs :: "nat \<Rightarrow> ('f, 'b) soutputer option"
  hc_next :: nat

type_synonym ('k, 'f, 'b, 'z) httpc_net = "(httpc_proc, nat, 'k, ('f, 'b, 'z) httpc_app_scheme) libnet"

text \<open>A handler gets the user's pointer, the address of the output (0 is \<^verbatim>\<open>NULL\<close>) and the error code.\<close>

type_synonym ('k, 'f, 'b, 'z) out_handle = "'f \<Rightarrow> nat \<Rightarrow> nat \<Rightarrow> int \<Rightarrow> ('k, 'f, 'b, 'z) httpc_net \<Rightarrow> ('k, 'f, 'b, 'z) httpc_net option"

text \<open>
  What the client calls: the system, the helper library, the files, and \<^verbatim>\<open>evnet_hostbyname\<close>, whose resolver
  is not in the repository (the string that it leaves in the caller's buffer).
\<close>

record ('k, 'b) web =
  wb_os :: "'k os"
  wb_ut :: "'b utils"
  wb_fs :: "'k files"
  wb_hostbyname :: "byte list \<Rightarrow> 'k \<Rightarrow> byte list \<times> 'k"

section \<open>Memory\<close>

definition upd_httpc :: "nat \<Rightarrow> (httpc \<Rightarrow> httpc) \<Rightarrow> ('k, 'f, 'b, 'z) httpc_net \<Rightarrow> ('k, 'f, 'b, 'z) httpc_net option" where
  "upd_httpc m f w = (case httpcs (app w) m of
       None \<Rightarrow> None
     | Some d \<Rightarrow> Some (w\<lparr>app := (app w)\<lparr>httpcs := (httpcs (app w))(m \<mapsto> f d)\<rparr>\<rparr>))"

definition upd_output :: "nat \<Rightarrow> (('f, 'b) soutputer \<Rightarrow> ('f, 'b) soutputer) \<Rightarrow> ('k, 'f, 'b, 'z) httpc_net
    \<Rightarrow> ('k, 'f, 'b, 'z) httpc_net option" where
  "upd_output m f w = (case outputs (app w) m of
       None \<Rightarrow> None
     | Some d \<Rightarrow> Some (w\<lparr>app := (app w)\<lparr>outputs := (outputs (app w))(m \<mapsto> f d)\<rparr>\<rparr>))"

section \<open>The callbacks of the HTTP parser\<close>

text \<open>They work on the files, the client and its output. The count of bytes is taken to stay an \<^verbatim>\<open>int\<close>.\<close>

type_synonym ('k, 'f, 'b) load_st = "'k \<times> httpc \<times> ('f, 'b) soutputer"

definition up_on_status_complete :: "http_parser \<Rightarrow> ('k, 'f, 'b) load_st \<Rightarrow> int \<times> ('k, 'f, 'b) load_st" where
  "up_on_status_complete p s = (if status_code p \<noteq> 200 then - 1 else 0, s)"

definition up_on_header_field :: "'b utils \<Rightarrow> byte list \<Rightarrow> ('k, 'f, 'b) load_st \<Rightarrow> int \<times> ('k, 'f, 'b) load_st" where
  "up_on_header_field ut s = (\<lambda>(k, c, o1).
     (0, k, c\<lparr>hc_field := (cmmn_strincmp ut s ''Content-Length'' (int (length s)) = 0)\<rparr>, o1))"

definition up_on_header_value :: "'b utils \<Rightarrow> byte list \<Rightarrow> ('k, 'f, 'b) load_st \<Rightarrow> int \<times> ('k, 'f, 'b) load_st" where
  "up_on_header_value ut s = (\<lambda>(k, c, o1).
     (0, k, if hc_field c then c\<lparr>hc_total := natoi ut s\<rparr> else c, o1))"

text \<open>The name of the file while it is loaded.\<close>

definition part_name :: "'b utils \<Rightarrow> byte list \<Rightarrow> byte list" where
  "part_name ut path = fmt2 ut ''%s.dt'' [path]"

definition DA_output :: "'b utils \<Rightarrow> 'k files \<Rightarrow> byte list \<Rightarrow> 'k \<times> 'b coutput \<Rightarrow> 'k \<times> 'b coutput" where
  "DA_output ut fs s = (\<lambda>(k, out). case out of
       Out_File path f \<Rightarrow>
         let (f1, k1) = (if f = 0 then fopen fs (part_name ut path) (fremove fs (part_name ut path) k) else (f, k))
         in (if f1 \<noteq> 0 then fwrite fs f1 s k1 else k1, Out_File path f1)
     | Out_Buff b \<Rightarrow> (k, Out_Buff (buffer_append ut b s)))"

definition up_on_body :: "'b utils \<Rightarrow> 'k files \<Rightarrow> byte list \<Rightarrow> ('k, 'f, 'b) load_st \<Rightarrow> int \<times> ('k, 'f, 'b) load_st" where
  "up_on_body ut fs s = (\<lambda>(k, c, o1).
     if length s > 0 then
       let (k1, out1) = DA_output ut fs s (k, so_out o1)
       in (0, k1, c\<lparr>hc_size := hc_size c + int (length s)\<rparr>, o1\<lparr>so_out := out1\<rparr>)
     else (0, k, c, o1))"

definition up_on_message_complete :: "('k, 'f, 'b) load_st \<Rightarrow> int \<times> ('k, 'f, 'b) load_st" where
  "up_on_message_complete = (\<lambda>(k, c, o1). (0, k, c\<lparr>hc_complete := True\<rparr>, o1))"

definition up_http_parser_settings :: "'b utils \<Rightarrow> 'k files \<Rightarrow> ('k, 'f, 'b) load_st http_parser_settings" where
  "up_http_parser_settings ut fs =
     \<lparr>on_message_begin = None,
      on_url = None,
      on_status_complete = Some up_on_status_complete,
      on_header_field = Some (\<lambda>p. up_on_header_field ut),
      on_header_value = Some (\<lambda>p. up_on_header_value ut),
      on_headers_complete = None,
      on_body = Some (\<lambda>p. up_on_body ut fs),
      on_message_complete = Some (\<lambda>p. up_on_message_complete)\<rparr>"

section \<open>The end of a request\<close>

text \<open>What happens to the file of an output.\<close>

definition finish_file :: "'b utils \<Rightarrow> 'k files \<Rightarrow> int \<Rightarrow> 'k \<times> 'b coutput \<Rightarrow> 'k \<times> 'b coutput" where
  "finish_file ut fs code = (\<lambda>(k, out). case out of
       Out_File path f \<Rightarrow>
         if f \<noteq> 0 then
           (if code = 0 then frename fs (part_name ut path) path (fremove fs path (fclose fs f k))
            else fremove fs (part_name ut path) (fclose fs f k), Out_File path 0)
         else (k, out)
     | Out_Buff b \<Rightarrow> (k, out))"

text \<open>Without an output \<^verbatim>\<open>&output->parser\<close> is a null pointer that is written to.\<close>

definition DA_httpComplete :: "('k, 'b) web \<Rightarrow> ('k, 'f, 'b, 'z) out_handle \<Rightarrow> nat \<Rightarrow> ('k, 'f, 'b, 'z) httpc_net
    \<Rightarrow> ('k, 'f, 'b, 'z) httpc_net option" where
  "DA_httpComplete wb uh m w = do {
     hc \<leftarrow> httpcs (app w) m;
     let a = hc_output hc;
     let code = (if hc_complete hc then 0 else - 1);
     w1 \<leftarrow> (if a = 0 then None else upd_output a (\<lambda>d. d\<lparr>so_parser := http_parser_init HTTP_REQUEST\<rparr>) w);
     w2 \<leftarrow> upd_httpc m (\<lambda>d. d\<lparr>hc_output := 0, hc_complete := False\<rparr>) w1;
     o1 \<leftarrow> outputs (app w2) a;
     let (k, out) = finish_file (wb_ut wb) (wb_fs wb) code (kernel w2, so_out o1);
     w3 \<leftarrow> upd_output a (\<lambda>d. d\<lparr>so_out := out\<rparr>) (w2\<lparr>kernel := k\<rparr>);
     w4 \<leftarrow> (case so_pfn o1 of None \<Rightarrow> Some w3 | Some f \<Rightarrow> uh f (so_pUsr o1) a code w3);
     _ \<leftarrow> outputs (app w4) a;
     Some (w4\<lparr>app := (app w4)\<lparr>outputs := (outputs (app w4))(a := None)\<rparr>\<rparr>)
   }"

text \<open>The \<open>EVCLOSED\<close> branch.\<close>

definition httpc_closed :: "('k, 'b) web \<Rightarrow> ('k, 'f, 'b, 'z) out_handle \<Rightarrow> nat \<Rightarrow> ('k, 'f, 'b, 'z) httpc_net
    \<Rightarrow> ('k, 'f, 'b, 'z) httpc_net option" where
  "httpc_closed wb uh m w = do {
     hc \<leftarrow> httpcs (app w) m;
     if hc_c hc = 0 then Some w
     else do {
       w1 \<leftarrow> upd_httpc m (\<lambda>d. d\<lparr>hc_c := 0\<rparr>) w;
       if hc_output hc \<noteq> 0 then DA_httpComplete wb uh m w1 else Some w1
     }
   }"

definition httpc_closing :: "('k, 'b) web \<Rightarrow> ('k, 'f, 'b, 'z) out_handle
    \<Rightarrow> (httpc_proc, nat, 'k, ('f, 'b, 'z) httpc_app_scheme) dispatch" where
  "httpc_closing wb uh p usr msg w = do {
     m \<leftarrow> usr;
     (case msg of EVCLOSED c e \<Rightarrow> httpc_closed wb uh m w | _ \<Rightarrow> None)
   }"

section \<open>Data\<close>

text \<open>
  The loop of the \<open>EVDATA\<close> branch, on the queue, the files, the client and its output. The result tells
  whether there was an error. Every round takes at least a byte from the queue, so that \<open>fuel\<close> above its
  length is enough.
\<close>

fun httpc_loop :: "'b utils \<Rightarrow> 'k files \<Rightarrow> nat \<Rightarrow> dataqueue \<Rightarrow> ('k, 'f, 'b) load_st
    \<Rightarrow> (bool \<times> dataqueue \<times> ('k, 'f, 'b) load_st) option" where
  "httpc_loop ut fs 0 q s = None"
| "httpc_loop ut fs (Suc fuel) q s =
     (if dataSize q = 0 then Some (False, q, s)
      else do {
        (q1, p) \<leftarrow> dq_peek q;
        (used, ps, k, c, o1) \<leftarrow> http_parser_execute (up_http_parser_settings ut fs) p (so_parser (snd (snd s))) s;
        let s1 = (k, c, o1\<lparr>so_parser := ps\<rparr>);
        if length p \<noteq> used then Some (True, q1, s1)
        else httpc_loop ut fs fuel (dataqueue_distill_data q1 (word_of_nat (length p))) s1
      })"

text \<open>With data but without an output, the loop writes through a null pointer.\<close>

definition httpc_data :: "('k, 'b) web \<Rightarrow> ('k, 'f, 'b, 'z) out_handle \<Rightarrow> nat \<Rightarrow> nat \<Rightarrow> ('k, 'f, 'b, 'z) httpc_net
    \<Rightarrow> ('k, 'f, 'b, 'z) httpc_net option" where
  "httpc_data wb uh c m w = do {
     ch \<leftarrow> channels w c;
     let q = inDataqueue ch;
     (bIsError, w1) \<leftarrow>
       (if dataSize q = 0 then Some (False, w)
        else do {
          hc \<leftarrow> httpcs (app w) m;
          o1 \<leftarrow> (if hc_output hc = 0 then None else outputs (app w) (hc_output hc));
          (err, q1, k, hc1, o2) \<leftarrow> httpc_loop (wb_ut wb) (wb_fs wb) (unat (dataSize q) + 1) q (kernel w, hc, o1);
          wa \<leftarrow> upd_httpc m (\<lambda>_. hc1) (w\<lparr>kernel := k\<rparr>);
          wc \<leftarrow> upd_output (hc_output hc) (\<lambda>_. o2) wa;
          wd \<leftarrow> upd_channel wc c (\<lambda>d. d\<lparr>inDataqueue := q1\<rparr>);
          Some (err, wd)
        });
     hc \<leftarrow> httpcs (app w1) m;
     if hc_complete hc then DA_httpComplete wb uh m w1
     else if bIsError then evnet_closechannel (wb_os wb) (httpc_closing wb uh) (hc_c hc) 0 w1
     else Some w1
   }"

definition httpc_dispatch :: "('k, 'b) web \<Rightarrow> ('k, 'f, 'b, 'z) out_handle
    \<Rightarrow> (httpc_proc, nat, 'k, ('f, 'b, 'z) httpc_app_scheme) dispatch" where
  "httpc_dispatch wb uh p usr msg w = do {
     m \<leftarrow> usr;
     (case msg of
        EVDATA c \<Rightarrow> httpc_data wb uh c m w
      | EVCLOSED c e \<Rightarrow> httpc_closed wb uh m w
      | _ \<Rightarrow> Some w)
   }"

section \<open>Requests\<close>

text \<open>
  A channel to the same address is used again. The result of \<^verbatim>\<open>evnet_hostbyname\<close> is not looked at, only the
  buffer.
\<close>

definition httpc_channel :: "('k, 'b) web \<Rightarrow> ('k, 'f, 'b, 'z) out_handle \<Rightarrow> nat \<Rightarrow> byte list \<Rightarrow> u16 \<Rightarrow> ('k, 'f, 'b, 'z) httpc_net
    \<Rightarrow> (nat \<times> ('k, 'f, 'b, 'z) httpc_net) option" where
  "httpc_channel wb uh m ipStr0 port w = do {
     hc \<leftarrow> httpcs (app w) m;
     let c = hc_c hc;
     w1 \<leftarrow> upd_httpc m (\<lambda>d. d\<lparr>hc_c := 0\<rparr>) w;
     (c1, w2) \<leftarrow>
       (if c = 0 then Some (0, w1)
        else do {
          ip \<leftarrow> evnet_channelip c w1;
          cport \<leftarrow> evnet_channelport c w1;
          if ipStr0 \<noteq> ip \<or> port \<noteq> cport
          then do { w2 \<leftarrow> evnet_closechannel (wb_os wb) (httpc_closing wb uh) c 0 w1; Some (0, w2) }
          else Some (c, w1)
        });
     if c1 \<noteq> 0 then Some (c1, w2)
     else do {
       (c2, w3) \<leftarrow> evnet_createchannel (wb_os wb) ipStr0 port w2;
       if c2 = 0 then Some (0, w3)
       else do {
         d \<leftarrow> httpcs (app w3) m;
         (ok, w4) \<leftarrow> evnet_channelbind (wb_os wb) c2 Httpc_Channel (word_of_int (hc_timeout d)) m w3;
         if ok then Some (c2, w4)
         else do { w5 \<leftarrow> evnet_closechannel (wb_os wb) (httpc_closing wb uh) c2 0 w4; Some (0, w5) }
       }
     }
   }"

definition httpc_request :: "('k, 'b) web \<Rightarrow> ('k, 'f, 'b, 'z) out_handle \<Rightarrow> nat \<Rightarrow> byte list \<Rightarrow> byte list \<Rightarrow> byte list
    \<Rightarrow> ('k, 'f, 'b, 'z) httpc_net \<Rightarrow> (bool \<times> ('k, 'f, 'b, 'z) httpc_net) option" where
  "httpc_request wb uh m pszURL postData pszHeader w = do {
     host \<leftarrow> we_url_host pszURL;
     let (ip, k) = wb_hostbyname wb host (kernel w);
     let secrity = (strstr pszURL ''https://'' \<noteq> None);
     port \<leftarrow> we_url_port pszURL (if secrity then 443 else 80);
     (c, w1) \<leftarrow> httpc_channel wb uh m ip port (w\<lparr>kernel := k\<rparr>);
     if c = 0 then Some (False, w1)
     else do {
       hc \<leftarrow> httpcs (app w1) m;
       w2 \<leftarrow> upd_output (hc_output hc) (\<lambda>d. d\<lparr>so_parser := http_parser_init HTTP_RESPONSE\<rparr>) w1;
       w3 \<leftarrow> upd_httpc m (\<lambda>d. d\<lparr>hc_c := c\<rparr>) w2;
       (ok, w4) \<leftarrow> evnet_channelsend (wb_os wb) c pszHeader w3;
       if postData \<noteq> [] then do { (ok2, w5) \<leftarrow> evnet_channelsend (wb_os wb) c postData w4; Some (True, w5) }
       else Some (True, w4)
     }
   }"

text \<open>The path is read for \<^verbatim>\<open>EOUT_FILE\<close> only.\<close>

definition httpc_load :: "('k, 'b) web \<Rightarrow> ('k, 'f, 'b, 'z) out_handle \<Rightarrow> nat \<Rightarrow> byte list \<Rightarrow> int \<Rightarrow> int \<Rightarrow> byte list
    \<Rightarrow> out_type \<Rightarrow> byte list \<Rightarrow> 'f option \<Rightarrow> nat \<Rightarrow> ('k, 'f, 'b, 'z) httpc_net \<Rightarrow> (bool \<times> ('k, 'f, 'b, 'z) httpc_net) option" where
  "httpc_load wb uh m szURL iMethod tmo pszPost outType pathName pfn pUsr w = do {
     let a = hc_next (app w);
     let out = (case outType of EOUT_FILE \<Rightarrow> Out_File (cmmn_strdup (wb_ut wb) pathName) 0 | EOUT_BUFF \<Rightarrow> Out_Buff (buffer_zero (wb_ut wb)));
     let o1 = \<lparr>so_out = out, so_parser = http_parser_init HTTP_REQUEST, so_pfn = pfn, so_pUsr = pUsr\<rparr>;
     w1 \<leftarrow> upd_httpc m (\<lambda>d. d\<lparr>hc_field := False, hc_complete := False, hc_size := 0, hc_total := 0, hc_output := a,
                                hc_timeout := tmo\<rparr>)
            (w\<lparr>app := (app w)\<lparr>outputs := (outputs (app w))(a \<mapsto> o1), hc_next := a + 1\<rparr>\<rparr>);
     let w2 = (if outType = EOUT_FILE then w1\<lparr>kernel := fremove (wb_fs wb) pathName (kernel w1)\<rparr> else w1);
     pszHeader \<leftarrow> we_url_make_header iMethod szURL (int (length pszPost));
     httpc_request wb uh m szURL pszPost pszHeader w2
   }"

definition httpc_clear :: "('k, 'b) web \<Rightarrow> ('k, 'f, 'b, 'z) out_handle \<Rightarrow> nat \<Rightarrow> bool \<Rightarrow> ('k, 'f, 'b, 'z) httpc_net
    \<Rightarrow> ('k, 'f, 'b, 'z) httpc_net option" where
  "httpc_clear wb uh m bNotify w = do {
     hc \<leftarrow> httpcs (app w) m;
     if hc_c hc = 0 then Some w
     else do {
       w1 \<leftarrow> (if \<not> bNotify \<and> hc_output hc \<noteq> 0 then upd_output (hc_output hc) (\<lambda>d. d\<lparr>so_pfn := None\<rparr>) w else Some w);
       evnet_closechannel (wb_os wb) (httpc_closing wb uh) (hc_c hc) 0 w1
     }
   }"

text \<open>The product is an \<^verbatim>\<open>int\<close>, whose overflow has no result.\<close>

definition httpc_percent :: "httpc \<Rightarrow> int option" where
  "httpc_percent c =
     (if hc_total c > 0 then
        if int_range (100 * hc_size c) then Some (100 * hc_size c div hc_total c) else None
      else Some 0)"

end
