(* ===== verification/Harbor.thy ===== *)
theory Harbor
  imports Httpc
begin

text \<open>
  The harbor (\<^verbatim>\<open>harbor.h\<close>, \<^verbatim>\<open>harbor.c\<close>): a queue of messages that are sent one at a time, each as the
  body of an HTTP request. It is a layer above the HTTP client.
\<close>

section \<open>State\<close>

record harbor_message =
  hm_msg :: "byte list"
  hm_msgId :: int

text \<open>\<open>hb_httpc\<close> is the address of the client inside the struct; it lives as long as the harbor.\<close>

record 'cb harbor =
  hb_sendList :: "harbor_message list"
  hb_httpc :: nat
  hb_szURL :: "byte list"
  hb_callback :: 'cb
  hb_isBusy :: bool

datatype harbor_fn = Harbor_HttpHandler

record ('b, 'cb) harbor_app = "(harbor_fn, 'b) httpc_app" +
  harbors :: "nat \<Rightarrow> 'cb harbor option"

type_synonym ('k, 'b, 'cb) harbor_net = "(httpc_proc, nat, 'k, ('b, 'cb) harbor_app) libnet"

text \<open>The message to the application's callback: an error, or the answer to a message.\<close>

datatype harbor_msg = EMSGTYPE_ERROR int int | EMSGTYPE_REMOTE int "byte list"

type_synonym ('k, 'b, 'cb) msg_callback =
  "'cb \<Rightarrow> nat \<Rightarrow> harbor_msg \<Rightarrow> ('k, 'b, 'cb) harbor_net \<Rightarrow> (bool \<times> ('k, 'b, 'cb) harbor_net) option"

definition HARBOR_TIMEOUT :: int where "HARBOR_TIMEOUT = 5"

definition upd_harbor :: "nat \<Rightarrow> ('cb harbor \<Rightarrow> 'cb harbor) \<Rightarrow> ('k, 'b, 'cb) harbor_net \<Rightarrow> ('k, 'b, 'cb) harbor_net option" where
  "upd_harbor h f w = (case harbors (app w) h of
       None \<Rightarrow> None
     | Some d \<Rightarrow> Some (w\<lparr>app := (app w)\<lparr>harbors := (harbors (app w))(h \<mapsto> f d)\<rparr>\<rparr>))"

section \<open>Sending and answering\<close>

text \<open>
  \<^verbatim>\<open>harbor_continue\<close> and \<^verbatim>\<open>harobr_httpHandler\<close> call each other, directly when a request cannot be
  sent, and through the client and the library. \<open>rec\<close> is the handler of the next depth.
\<close>

type_synonym ('k, 'b, 'cb) harbor_handle =
  "harbor_fn \<Rightarrow> nat \<Rightarrow> nat \<Rightarrow> int \<Rightarrow> ('k, 'b, 'cb) harbor_net \<Rightarrow> ('k, 'b, 'cb) harbor_net option"

definition harbor_continue :: "('k, 'b) web \<Rightarrow> ('k, 'b, 'cb) harbor_handle \<Rightarrow> nat \<Rightarrow> ('k, 'b, 'cb) harbor_net
    \<Rightarrow> ('k, 'b, 'cb) harbor_net option" where
  "harbor_continue wb rec h w = do {
     hb \<leftarrow> harbors (app w) h;
     (case hb_sendList hb of
        [] \<Rightarrow> Some w
      | message # _ \<Rightarrow>
          if hb_isBusy hb then Some w
          else do {
            w1 \<leftarrow> upd_harbor h (\<lambda>d. d\<lparr>hb_isBusy := True\<rparr>) w;
            (bRet, w2) \<leftarrow> httpc_load wb rec (hb_httpc hb) (hb_szURL hb) 3 HARBOR_TIMEOUT (hm_msg message) EOUT_BUFF []
                            (Some Harbor_HttpHandler) h w1;
            if bRet then Some w2 else rec Harbor_HttpHandler h 0 (- 5) w2
          })
   }"

text \<open>The handler needs a message in the list: without one \<^verbatim>\<open>list_entry\<close> makes it out of the list head.\<close>

definition harbor_httpHandler :: "('k, 'b) web \<Rightarrow> ('k, 'b, 'cb) msg_callback \<Rightarrow> ('k, 'b, 'cb) harbor_handle \<Rightarrow> nat \<Rightarrow> nat \<Rightarrow> int
    \<Rightarrow> ('k, 'b, 'cb) harbor_net \<Rightarrow> ('k, 'b, 'cb) harbor_net option" where
  "harbor_httpHandler wb cb rec h out errorcode w = do {
     hb \<leftarrow> harbors (app w) h;
     (case hb_sendList hb of
        [] \<Rightarrow> None
      | message # rest \<Rightarrow> do {
          w1 \<leftarrow> upd_harbor h (\<lambda>d. d\<lparr>hb_sendList := rest, hb_isBusy := False\<rparr>) w;
          msg \<leftarrow> (if errorcode \<noteq> 0 then Some (EMSGTYPE_ERROR (hm_msgId message) errorcode)
                 else do {
                   o1 \<leftarrow> (if out = 0 then None else outputs (app w1) out);
                   (case so_out o1 of
                      Out_Buff b \<Rightarrow> Some (EMSGTYPE_REMOTE (hm_msgId message) (buffer_data (wb_ut wb) b))
                    | Out_File _ _ \<Rightarrow> None)
                 });
          (bRet, w2) \<leftarrow> cb (hb_callback hb) h msg w1;
          w3 \<leftarrow> (if errorcode \<noteq> 0 then do {
                   hb2 \<leftarrow> harbors (app w2) h;
                   httpc_clear wb rec (hb_httpc hb2) False w2
                 }
                 else Some w2);
          if bRet then harbor_continue wb rec h w3 else Some w3
        })
   }"

text \<open>The handler, down to a depth of nested calls.\<close>

primrec harbor_handler :: "('k, 'b) web \<Rightarrow> ('k, 'b, 'cb) msg_callback \<Rightarrow> nat \<Rightarrow> ('k, 'b, 'cb) harbor_handle" where
  "harbor_handler wb cb 0 = (\<lambda>f h out errorcode w. None)"
| "harbor_handler wb cb (Suc d) = (\<lambda>f h out errorcode w. harbor_httpHandler wb cb (harbor_handler wb cb d) h out errorcode w)"

definition harbor_send :: "('k, 'b) web \<Rightarrow> ('k, 'b, 'cb) harbor_handle \<Rightarrow> nat \<Rightarrow> int \<Rightarrow> byte list \<Rightarrow> ('k, 'b, 'cb) harbor_net
    \<Rightarrow> ('k, 'b, 'cb) harbor_net option" where
  "harbor_send wb uh h msgId msg w = do {
     w1 \<leftarrow> upd_harbor h (\<lambda>d. d\<lparr>hb_sendList := hb_sendList d @ [\<lparr>hm_msg = msg, hm_msgId = msgId\<rparr>]\<rparr>) w;
     harbor_continue wb uh h w1
   }"

definition harbor_start :: "('k, 'b) web \<Rightarrow> byte list \<Rightarrow> 'cb \<Rightarrow> ('k, 'b, 'cb) harbor_net \<Rightarrow> nat \<times> ('k, 'b, 'cb) harbor_net" where
  "harbor_start wb szURL callback w =
     (let h = hc_next (app w); m = h + 1;
          hb = \<lparr>hb_sendList = [], hb_httpc = m, hb_szURL = cmmn_strdup (wb_ut wb) szURL, hb_callback = callback, hb_isBusy = False\<rparr>;
          hc = \<lparr>hc_output = 0, hc_field = False, hc_timeout = 0, hc_total = 0, hc_size = 0, hc_complete = False, hc_c = 0\<rparr>
      in (h, w\<lparr>app := (app w)\<lparr>harbors := (harbors (app w))(h \<mapsto> hb), httpcs := (httpcs (app w))(m \<mapsto> hc), hc_next := m + 1\<rparr>\<rparr>))"

definition harbor_stop :: "('k, 'b) web \<Rightarrow> ('k, 'b, 'cb) harbor_handle \<Rightarrow> nat \<Rightarrow> ('k, 'b, 'cb) harbor_net
    \<Rightarrow> ('k, 'b, 'cb) harbor_net option" where
  "harbor_stop wb uh h w = do {
     hb \<leftarrow> harbors (app w) h;
     w1 \<leftarrow> httpc_clear wb uh (hb_httpc hb) False w;
     _ \<leftarrow> harbors (app w1) h;
     Some (w1\<lparr>app := (app w1)\<lparr>harbors := (harbors (app w1))(h := None), httpcs := (httpcs (app w1))(hb_httpc hb := None)\<rparr>\<rparr>)
   }"

end
