(* ===== verification/Parser_Users.thy ===== *)
theory Parser_Users
  imports Upload
begin

text \<open>
  What the callbacks of a parser keep of the user's state, a run of the parser keeps. Used for the nodes
  of the HTTP server and for uploads.
\<close>

section \<open>The HTTP parser\<close>

definition http_cbs_keep :: "('u \<Rightarrow> bool) \<Rightarrow> 'u http_parser_settings \<Rightarrow> bool" where
  "http_cbs_keep Q st \<longleftrightarrow>
     (\<forall>cb f. notify_of cb st = Some f \<longrightarrow> (\<forall>p u. Q u \<longrightarrow> Q (snd (f p u))))
     \<and> (\<forall>cb f. data_of cb st = Some f \<longrightarrow> (\<forall>p s u. Q u \<longrightarrow> Q (snd (f p s u))))
     \<and> (\<forall>f. on_headers_complete st = Some f \<longrightarrow> (\<forall>p u. Q u \<longrightarrow> Q (snd (f p u))))"

lemma http_cbs_keepD:
  assumes "http_cbs_keep Q st" and "Q u"
  shows "notify_of cb st = Some f \<Longrightarrow> f p u = (r, u1) \<Longrightarrow> Q u1"
    and "data_of dcb st = Some g \<Longrightarrow> g p s u = (r, u1) \<Longrightarrow> Q u1"
    and "on_headers_complete st = Some h \<Longrightarrow> h p u = (r, u1) \<Longrightarrow> Q u1"
  using assms unfolding http_cbs_keep_def by (metis snd_conv)+

lemma headers_complete_keeps:
  "http_cbs_keep Q st \<Longrightarrow> Q (user m) \<Longrightarrow> Q (user (headers_complete_call st m))"
  by (auto simp: Let_def split: option.splits prod.splits dest: http_cbs_keepD(3))

lemma run_action_keeps:
  "run_action st data a m = Some (r, m1) \<Longrightarrow> http_cbs_keep Q st \<Longrightarrow> Q (user m) \<Longrightarrow> Q (user m1)"
proof (induction a arbitrary: m)
  case (Notify cb er a)
  then show ?case
    by (auto simp: Let_def split: option.splits prod.splits if_splits dest: http_cbs_keepD(1))
next
  case (Data cb l er a)
  show ?case
  proof (cases "marks m cb = None \<or> data_of cb st = None")
    case True
    then show ?thesis using Data by (auto split: option.splits)
  next
    case False
    then obtain mk f where mf: "marks m cb = Some mk" "data_of cb st = Some f" by auto
    then obtain bs where bs: "mem_read data mk (at m + l - mk) = Some bs" "\<not> at m + l < mk"
      using Data.prems(1) by (auto simp: Option.bind_eq_Some_conv split: if_splits)
    obtain c u1 where f: "f (parser m) bs (user m) = (c, u1)" by fastforce
    then have "Q u1" using http_cbs_keepD(2) [OF Data.prems(2,3) mf(2)] by blast
    then show ?thesis using Data.prems(1) mf bs f Data.IH [OF _ Data.prems(2)] by (auto simp: Let_def split: if_splits)
  qed
next
  case (On_Headers_Complete a)
  have "Q (user (headers_complete_call st m))" by (rule headers_complete_keeps [OF On_Headers_Complete.prems(2,3)])
  then show ?case
    using On_Headers_Complete by (auto simp del: headers_complete_call_def simp: Let_def split: if_splits)
qed (auto split: if_splits)

lemma exec_byte_keeps:
  "exec_byte k st data ch m = Some (r, m1) \<Longrightarrow> http_cbs_keep Q st \<Longrightarrow> Q (user m) \<Longrightarrow> Q (user m1)"
proof (induction k arbitrary: m)
  case (Suc k)
  obtain p1 a where pa: "exec_state (p_state (parser m)) (parser m) ch (length data - at m) = (p1, a)" by fastforce
  obtain r2 m2 where 1: "run_action st data a (m\<lparr>parser := p1\<rparr>) = Some (r2, m2)"
    and 2: "(if r2 = Again then exec_byte k st data ch m2 else Some (r2, m2)) = Some (r, m1)"
    using Suc.prems(1) pa by (auto simp: Option.bind_eq_Some_conv)
  have "Q (user m2)" by (rule run_action_keeps [OF 1 Suc.prems(2)]) (simp add: Suc.prems(3))
  with 2 show ?case using Suc.IH [OF _ Suc.prems(2)] by (auto split: if_splits)
qed simp

lemma exec_loop_keeps:
  "exec_loop k st data m = Some (r, m1) \<Longrightarrow> http_cbs_keep Q st \<Longrightarrow> Q (user m) \<Longrightarrow> Q (user m1)"
proof (induction k arbitrary: m)
  case (Suc k)
  have err: "user (snd (exec_error m)) = user m" for m :: "'a exec_st" by (simp add: exec_error_def)
  show ?case
  proof (cases "at m = length data")
    case True
    then obtain out where "run_action st data (CALLBACK_DATA_NOADVANCE Header_Field (CALLBACK_DATA_NOADVANCE Header_Value
          (CALLBACK_DATA_NOADVANCE Url (CALLBACK_DATA_NOADVANCE Body Break)))) m = Some (out, m1)"
      using Suc.prems(1) by (auto simp: exec_finish_def Option.bind_eq_Some_conv simp del: run_action.simps)
    then show ?thesis using Suc.prems(2,3) by (rule run_action_keeps)
  next
    case False
    let ?p = "count_byte (parser m)"
    show ?thesis
    proof (cases "header_overflow ?p")
      case True
      then show ?thesis using False Suc.prems err [of "m\<lparr>parser := ?p\<lparr>http_errno := HPE_HEADER_OVERFLOW\<rparr>\<rparr>"]
        by (auto simp: Let_def)
    next
      case no: False
      then obtain out m2 where 1: "exec_byte 4 st data (data ! at m) (m\<lparr>parser := ?p\<rparr>) = Some (out, m2)"
        and 2: "(case out of Stop r \<Rightarrow> Some (r, m2) | Goto_Error \<Rightarrow> Some (exec_error m2)
            | _ \<Rightarrow> exec_loop k st data (m2\<lparr>at := at m2 + 1\<rparr>)) = Some (r, m1)"
        using Suc.prems(1) False by (auto simp: Let_def Option.bind_eq_Some_conv)
      have "Q (user m2)" by (rule exec_byte_keeps [OF 1 Suc.prems(2)]) (simp add: Suc.prems(3))
      with 2 show ?thesis using Suc.IH [OF _ Suc.prems(2)] err [of m2] by (auto split: outcome.splits)
    qed
  qed
qed simp

lemma http_execute_keeps:
  assumes "http_parser_execute st data p u = Some (r, p1, u1)" and "http_cbs_keep Q st" and "Q u"
  shows "Q u1"
proof (cases "http_errno p \<noteq> HPE_OK \<or> data = []")
  case True
  let ?m = "\<lparr>parser = p, at = 0, marks = (\<lambda>_. None), user = u\<rparr>"
  have "u1 = u \<or> (\<exists>out m1. run_action st [] (Notify Message_Complete 0 Break) ?m = Some (out, m1) \<and> u1 = user m1)"
    using True assms(1) by (auto simp: http_parser_execute_def exec_eof_def Option.bind_eq_Some_conv simp del: run_action.simps
        split: if_splits)
  then show ?thesis using run_action_keeps [OF _ assms(2), of "[]" "Notify Message_Complete 0 Break" ?m] assms(3) by auto
next
  case False
  then obtain m where "exec_loop (length data + 1) st data
      \<lparr>parser = p, at = 0, marks = start_marks (p_state p), user = u\<rparr> = Some (r, m)" "u1 = user m"
    using assms(1) by (auto simp: http_parser_execute_def Option.bind_eq_Some_conv simp del: exec_loop.simps)
  then show ?thesis using exec_loop_keeps [OF _ assms(2)] assms(3) by fastforce
qed

section \<open>The multipart parser\<close>

definition mp_cbs_keep :: "('u \<Rightarrow> bool) \<Rightarrow> 'u multipart_parser_settings \<Rightarrow> bool" where
  "mp_cbs_keep Q st \<longleftrightarrow>
     (\<forall>cb \<in> {mp_on_part_data_begin st, mp_on_headers_complete st, mp_on_part_data_end st, mp_on_body_end st}.
        \<forall>f u. cb = Some f \<longrightarrow> Q u \<longrightarrow> Q (snd (f u)))
     \<and> (\<forall>cb \<in> {mp_on_header_field st, mp_on_header_value st, mp_on_part_data st}.
        \<forall>f s u. cb = Some f \<longrightarrow> Q u \<longrightarrow> Q (snd (f s u)))"

primrec mp_step_user :: "'u mp_step \<Rightarrow> 'u" where
  "mp_step_user (MNext p m u) = u"
| "mp_step_user (MAgain p u) = u"
| "mp_step_user (MReturn n p u) = u"

definition step_keeps :: "('u \<Rightarrow> bool) \<Rightarrow> 'u mp_step option \<Rightarrow> bool" where
  "step_keeps Q r \<longleftrightarrow> (\<forall>s. r = Some s \<longrightarrow> Q (mp_step_user s))"

lemma step_keeps_simps [simp]:
  "step_keeps Q None" "step_keeps Q (Some s) = Q (mp_step_user s)"
  by (simp_all add: step_keeps_def)

lemma step_keeps_bind: "(\<And>x. step_keeps Q (f x)) \<Longrightarrow> step_keeps Q (m \<bind> f)"
  by (cases m) simp_all

lemma step_keeps_if: "(b \<Longrightarrow> step_keeps Q x) \<Longrightarrow> (\<not> b \<Longrightarrow> step_keeps Q y) \<Longrightarrow> step_keeps Q (if b then x else y)"
  by simp

lemma notify_keeps:
  assumes "\<And>f u. cb = Some f \<Longrightarrow> Q u \<Longrightarrow> Q (snd (f u))" and "Q u" and "\<And>u. Q u \<Longrightarrow> step_keeps Q (k u)"
  shows "step_keeps Q (MP_NOTIFY_CB cb i p u k)"
proof (cases cb)
  case (Some f)
  obtain r u1 where f: "f u = (r, u1)" by fastforce
  then have "Q u1" using assms(1) [OF Some assms(2)] by simp
  then show ?thesis using Some assms(3) f by (simp add: MP_NOTIFY_CB_def)
qed (use assms in \<open>simp add: MP_NOTIFY_CB_def\<close>)

lemma emit_keeps:
  assumes "\<And>f s u. cb = Some f \<Longrightarrow> Q u \<Longrightarrow> Q (snd (f s u))" and "Q u" and "\<And>u. Q u \<Longrightarrow> step_keeps Q (k u)"
  shows "step_keeps Q (EMIT_DATA_CB cb mem ptr len i p u k)"
proof (cases cb)
  case (Some f)
  have "step_keeps Q (case f d u of (r, u') \<Rightarrow> if r \<noteq> 0 then Some (MReturn i p u') else k u')" for d
  proof -
    obtain r u1 where f: "f d u = (r, u1)" by fastforce
    then have "Q u1" using assms(1) [OF Some assms(2), of d] by simp
    then show ?thesis using assms(3) f by simp
  qed
  then show ?thesis using Some by (simp add: EMIT_DATA_CB_def step_keeps_bind)
qed (use assms in \<open>simp add: EMIT_DATA_CB_def\<close>)

lemma mp_byte_keeps:
  assumes "mp_cbs_keep Q st" and "Q u"
  shows "step_keeps Q (mp_byte st buf i mark p u)"
proof -
  note cbs = assms(1) [unfolded mp_cbs_keep_def]
  have data: "step_keeps Q (at_mp_part_data st buf c l i m q u)" if "Q u" for c l m q u
    using cbs that by (auto simp: at_mp_part_data_def intro!: emit_keeps step_keeps_bind step_keeps_if)
  have "value": "step_keeps Q (at_mp_header_value st buf c l i m q u)" for c l m q
    using cbs assms(2) by (auto simp: at_mp_header_value_def Let_def intro!: emit_keeps)
  have field: "step_keeps Q (at_mp_header_field st buf c l i m q u)" for c l m q
    using cbs assms(2) by (auto simp: at_mp_header_field_def intro!: emit_keeps)
  have start: "step_keeps Q (at_mp_start_boundary st c i m q u)" for c m q
    using cbs assms(2) by (auto simp: at_mp_start_boundary_def Let_def intro!: notify_keeps step_keeps_bind step_keeps_if)
  show ?thesis
  proof (cases "mp_state p")
    case mp_s_part_data_boundary
    then show ?thesis using cbs assms(2)
      by (auto simp: mp_byte_def Let_def at_mp_part_data_boundary_def intro!: emit_keeps notify_keeps step_keeps_bind step_keeps_if)
  next
    case mp_s_part_data_almost_boundary
    then show ?thesis using cbs assms(2)
      by (auto simp: mp_byte_def Let_def at_mp_part_data_almost_boundary_def intro!: emit_keeps step_keeps_bind step_keeps_if)
  next
    case mp_s_part_data_start
    then show ?thesis using cbs assms(2) data
      by (auto simp: mp_byte_def Let_def at_mp_part_data_start_def intro!: notify_keeps)
  qed (use cbs assms(2) data "value" field start in \<open>auto simp: mp_byte_def Let_def at_mp_start_def
      at_mp_header_field_start_def at_mp_headers_almost_done_def at_mp_header_value_start_def
      at_mp_header_value_almost_done_def at_mp_part_data_almost_end_def
      at_mp_part_data_end_def at_mp_part_data_final_hyphen_def intro!: notify_keeps\<close>)
qed

lemma mp_loop_keeps:
  assumes "mp_cbs_keep Q st"
  shows "mp_loop st buf fuel p i mark u = Some (n, q, v) \<Longrightarrow> Q u \<Longrightarrow> Q v"
proof (induction fuel arbitrary: p i mark u)
  case 0
  then show ?case by (subst (asm) mp_loop.simps) (simp split: if_splits)
next
  case (Suc fuel)
  show ?case
  proof (cases "i < length buf")
    case False
    then show ?thesis using Suc.prems by (subst (asm) mp_loop.simps) simp
  next
    case True
    then obtain s where s: "mp_byte st buf i mark p u = Some s"
      using Suc.prems(1) by (subst (asm) mp_loop.simps) (auto split: option.splits simp: Option.bind_eq_Some_conv)
    have "Q (mp_step_user s)" using mp_byte_keeps [OF assms Suc.prems(2), of buf i mark p] s by simp
    then show ?thesis
      using Suc.prems(1) True s Suc.IH by (subst (asm) mp_loop.simps) (auto split: mp_step.splits)
  qed
qed

lemma multipart_execute_keeps:
  assumes "multipart_parser_execute st p buf u = Some (n, q, v)" and "mp_cbs_keep Q st" and "Q u"
  shows "Q v"
  using assms mp_loop_keeps unfolding multipart_parser_execute_def by metis

end
