(* ===== verification/Httpd_Count.thy ===== *)
theory Httpd_Count
  imports Httpd Parser_Users Channel_App
begin

text \<open>
  The books of an HTTP server: its list of users and its counter, and the nodes of its users, whatever the
  callbacks and the application do.
\<close>

section \<open>What parsing leaves alone in a node\<close>

definition node_frame :: "('b, 'x) node \<Rightarrow> nat \<times> bool \<times> u32 \<times> u32 \<times> 'x" where
  "node_frame n = (nd_usr n, nd_pfnSend n, nd_sendsize n, nd_sentsize n, nd_ext n)"

definition framed :: "nat \<times> bool \<times> u32 \<times> u32 \<times> 'x \<Rightarrow> ('k, 'b, 'x) node_st option \<Rightarrow> bool" where
  "framed fr s \<longleftrightarrow> (\<forall>k n. s = Some (k, n) \<longrightarrow> node_frame n = fr)"

lemma framed_simps [simp]: "framed fr None" "framed fr (Some (k, n)) \<longleftrightarrow> node_frame n = fr"
  by (simp_all add: framed_def)

lemma in_memory_framed:
  assumes "\<And>k n r k' n'. f (k, n) = Some (r, k', n') \<Longrightarrow> node_frame n' = node_frame n" and "framed fr s"
  shows "framed fr (snd (in_memory f s))"
proof (cases "Option.bind s f")
  case None
  then show ?thesis by (simp add: in_memory_def)
next
  case (Some x)
  obtain r k' n' where x: "x = (r, k', n')" by (cases x)
  obtain k n where s: "s = Some (k, n)" using Some by (cases s) auto
  then have "f (k, n) = Some (r, k', n')" using Some x by simp
  then have "node_frame n' = node_frame n" by (rule assms(1))
  then show ?thesis using Some x s assms(2) by (simp add: in_memory_def)
qed

lemma set_upload_frame [simp]: "node_frame (set_upload up n) = node_frame n"
  by (simp add: node_frame_def set_upload_def)

lemma headers_complete_frame: "up_on_headers_complete ut fs (k, n) = Some (r, k', n') \<Longrightarrow> node_frame n' = node_frame n"
  by (auto simp: up_on_headers_complete_def Let_def split_beta Option.bind_eq_Some_conv split: option.splits)

lemmas upload_defs = read_header_name_def read_header_value_def on_part_data_def
  on_part_data_end_def on_body_end_def

lemma upload_cbs_framed: "mp_cbs_keep (framed fr) (parser_body_settings ut fs)"
  by (auto simp: mp_cbs_keep_def parser_body_settings_def upload_defs Let_def Option.bind_eq_Some_conv
      split: if_splits intro!: in_memory_framed dest!: headers_complete_frame)

lemma bodyContinue_frame:
  assumes "upload_bodyContinue ut fs bs (k, n) = Some (r, k', n')"
  shows "node_frame n' = node_frame n"
proof -
  obtain mp mp1 u n1 up where s: "multipart_parser_execute (parser_body_settings ut fs) mp bs (Some (k, n)) = Some (r, mp1, u)"
    "u = Some (k', n1)" "n' = set_upload up n1"
    using assms by (auto simp: upload_bodyContinue_def Option.bind_eq_Some_conv)
  have "framed (node_frame n) u" by (rule multipart_execute_keeps [OF s(1) upload_cbs_framed]) simp
  then show ?thesis using s(2,3) by simp
qed

lemma handleHeader_frame: "upload_handleHeader ut n = Some (ok, n') \<Longrightarrow> node_frame n' = node_frame n"
  by (auto simp: upload_handleHeader_def Let_def Option.bind_eq_Some_conv split: option.splits if_splits)

lemmas node_c_defs = node_c_on_message_begin_def node_c_on_url_def node_c_on_header_field_def
  node_c_on_header_value_def node_c_on_headers_complete_def node_c_on_body_def node_c_on_message_complete_def

lemma node_cbs_framed: "http_cbs_keep (framed fr) (c_http_parser_settings ut fs)"
proof -
  let ?st = "c_http_parser_settings ut fs"
  have "framed fr (snd (f p u))" if "notify_of cb ?st = Some f" "framed fr u" for cb f p u
    using that by (cases cb) (auto simp: c_http_parser_settings_def node_c_defs node_frame_def split: if_splits
        intro!: in_memory_framed)
  moreover have "framed fr (snd (f p s u))" if "data_of cb ?st = Some f" "framed fr u" for cb f p s u
    using that
    by (cases cb) (auto simp: c_http_parser_settings_def node_c_defs Let_def node_frame_def [of "_\<lparr>nd_req := _\<rparr>"]
        node_frame_def [of "_\<lparr>nd_headers := _\<rparr>"] node_frame_def [of "_\<lparr>nd_IsFileUpload := _\<rparr>"] node_frame_def [of fr for fr]
        Option.bind_eq_Some_conv split: if_splits req.splits intro!: in_memory_framed dest!: bodyContinue_frame)
  moreover have "framed fr (snd (f p u))" if "on_headers_complete ?st = Some f" "framed fr u" for f p u
    using that by (auto simp: c_http_parser_settings_def node_c_defs Option.bind_eq_Some_conv split: if_splits
        intro!: in_memory_framed dest!: handleHeader_frame)
  ultimately show ?thesis unfolding http_cbs_keep_def by blast
qed

lemma node_parser_frame:
  assumes "node_parser ut fs bs (k, n) = Some (r, pos, k', n')"
  shows "node_frame n' = node_frame n"
proof -
  obtain used p u n1 where s: "http_parser_execute (c_http_parser_settings ut fs) bs (nd_parser n) (Some (k, n)) = Some (used, p, u)"
    "u = Some (k', n1)" "n' = n1\<lparr>nd_parser := p\<rparr>"
    using assms by (auto simp: node_parser_def node_run_def Option.bind_eq_Some_conv split: if_splits)
  have "framed (node_frame n) u" by (rule http_execute_keeps [OF s(1) node_cbs_framed]) simp
  then show ?thesis using s(2,3) by (simp add: node_frame_def)
qed

section \<open>The books\<close>

definition members :: "nat \<Rightarrow> ('h, 'b, 'x) http_app \<Rightarrow> nat set" where
  "members m s = {u. \<exists>usr. husrs s u = Some usr \<and> hu_httpd usr = m}"

text \<open>
  The list of server \<open>m\<close> holds its users but for \<open>X\<close>, those that are just being closed, and the counter is
  the length of the list. Every user with a node has one of its own.
\<close>

definition own_nodes :: "('h, 'b, 'x) http_app \<Rightarrow> bool" where
  "own_nodes s \<longleftrightarrow> (\<forall>u usr. husrs s u = Some usr \<longrightarrow> hu_node usr \<noteq> 0 \<longrightarrow> (\<exists>n. nodes s (hu_node usr) = Some n \<and> nd_usr n = u))"

definition fresh_from :: "('h, 'b, 'x) http_app \<Rightarrow> bool" where
  "fresh_from s \<longleftrightarrow> 0 < h_next s \<and> (\<forall>a. h_next s \<le> a \<longrightarrow> husrs s a = None \<and> nodes s a = None \<and> httpds s a = None)"

definition books :: "nat \<Rightarrow> nat set \<Rightarrow> ('h, 'b, 'x) http_app \<Rightarrow> bool" where
  "books m X s \<longleftrightarrow> (\<exists>d. httpds s m = Some d \<and> hd_curCon d = int (length (hd_usr_list d)) \<and> distinct (hd_usr_list d)
       \<and> set (hd_usr_list d) = members m s - X) \<and> own_nodes s \<and> fresh_from s"

lemma booksE:
  assumes "books m X s"
  obtains d where "httpds s m = Some d" "hd_curCon d = int (length (hd_usr_list d))" "distinct (hd_usr_list d)"
    "set (hd_usr_list d) = members m s - X" "own_nodes s" "fresh_from s"
  using assms by (auto simp: books_def)

lemma own_nodesD:
  "own_nodes s \<Longrightarrow> husrs s u = Some usr \<Longrightarrow> hu_node usr \<noteq> 0 \<Longrightarrow> \<exists>n. nodes s (hu_node usr) = Some n \<and> nd_usr n = u"
  by (simp add: own_nodes_def)

text \<open>A change that concerns neither the servers' books nor who has which node.\<close>

lemma books_cong:
  assumes b: "books m X s" and "httpds s' m = httpds s m" and f: "fresh_from s'"
    and u: "\<And>u. map_option (\<lambda>d. (hu_httpd d, hu_node d)) (husrs s' u) = map_option (\<lambda>d. (hu_httpd d, hu_node d)) (husrs s u)"
    and n: "\<And>a. map_option nd_usr (nodes s' a) = map_option nd_usr (nodes s a)"
  shows "books m X s'"
proof -
  have users: "\<exists>d. husrs s u = Some d \<and> hu_httpd d = hu_httpd d' \<and> hu_node d = hu_node d'" if "husrs s' u = Some d'" for u d'
    using u [of u] that by (cases "husrs s u") auto
  have users': "\<exists>d'. husrs s' u = Some d' \<and> hu_httpd d' = hu_httpd d" if "husrs s u = Some d" for u d
    using u [of u] that by (cases "husrs s' u") auto
  have "members m s' = members m s" using users users' unfolding members_def by fastforce
  moreover have "own_nodes s'"
    unfolding own_nodes_def
  proof (intro allI impI)
    fix u usr' assume a: "husrs s' u = Some usr'" "hu_node usr' \<noteq> 0"
    then obtain usr where "husrs s u = Some usr" "hu_node usr = hu_node usr'" using users by blast
    then obtain k where "nodes s (hu_node usr') = Some k" "nd_usr k = u"
      using b a(2) own_nodesD by (metis booksE)
    then show "\<exists>n. nodes s' (hu_node usr') = Some n \<and> nd_usr n = u"
      using n [of "hu_node usr'"] by (cases "nodes s' (hu_node usr')") auto
  qed
  ultimately show ?thesis using b f assms(2) by (simp add: books_def)
qed

text \<open>
  What is asked of the application's handler: it keeps the books, users and nodes may only disappear while
  it runs (no connection is accepted then), and they keep their owners.
\<close>

definition later :: "('h, 'b, 'x) http_app \<Rightarrow> ('h, 'b, 'x) http_app \<Rightarrow> bool" where
  "later s s' \<longleftrightarrow>
     (\<forall>u usr'. husrs s' u = Some usr' \<longrightarrow> (\<exists>usr. husrs s u = Some usr \<and> hu_httpd usr = hu_httpd usr' \<and> hu_node usr = hu_node usr'))
     \<and> (\<forall>a n'. nodes s' a = Some n' \<longrightarrow> (\<exists>n. nodes s a = Some n \<and> nd_usr n = nd_usr n'))"

definition handler_books :: "nat \<Rightarrow> ('k, 'h, 'b, 'x) node_handle \<Rightarrow> bool" where
  "handler_books m uh \<longleftrightarrow> (\<forall>f n e i j w w' X. books m X (app w) \<and> uh f n e i j w = Some w' \<longrightarrow>
     books m X (app w') \<and> later (app w) (app w'))"

lemma handler_booksD:
  assumes "handler_books m uh" and "books m X (app w)" and "uh f n e i j w = Some w'"
  shows "books m X (app w')" and "later (app w) (app w')"
  using assms unfolding handler_books_def by blast+

section \<open>Closing\<close>

lemma unlink_pUsr:
  "unlink_channel a w = Some w' \<Longrightarrow> map_option ch_pUsr (channels w' b) = map_option ch_pUsr (channels w b)"
  by (auto simp: unlink_channel_def upd_channel_def Let_def Option.bind_eq_Some_conv split: option.splits if_splits)

text \<open>The end of a node and of its user, after the handler has been told.\<close>

lemma free_user_books:
  assumes b: "books m (insert u X) s" and usr: "husrs s u = Some usr"
    and n: "no \<noteq> 0 \<longrightarrow> (\<exists>n. nodes s no = Some n \<and> nd_usr n = u)" and X: "hu_httpd usr = m \<longrightarrow> u \<notin> X"
  shows "books m X (s\<lparr>nodes := (if no = 0 then nodes s else (nodes s)(no := None)), husrs := (husrs s)(u := None)\<rparr>)"
    (is "books m X ?s")
proof -
  obtain d where d: "httpds s m = Some d" "hd_curCon d = int (length (hd_usr_list d))" "distinct (hd_usr_list d)"
    "set (hd_usr_list d) = members m s - insert u X" "own_nodes s" "fresh_from s" by (rule booksE [OF b])
  have "members m ?s = members m s - {u}" by (auto simp: members_def)
  then have "set (hd_usr_list d) = members m ?s - X" using d(4) by auto
  moreover have "own_nodes ?s"
    unfolding own_nodes_def
  proof (intro allI impI)
    fix v w assume v: "husrs ?s v = Some w" "hu_node w \<noteq> 0"
    then have "v \<noteq> u" "husrs s v = Some w" by (auto split: if_splits)
    then obtain k where k: "nodes s (hu_node w) = Some k" "nd_usr k = v" using own_nodesD [OF d(5)] v(2) by blast
    then have "hu_node w \<noteq> no" using n \<open>v \<noteq> u\<close> v(2) by auto
    then show "\<exists>n. nodes ?s (hu_node w) = Some n \<and> nd_usr n = v" using k by simp
  qed
  moreover have "fresh_from ?s" using d(6) by (auto simp: fresh_from_def)
  ultimately show ?thesis using d(1-3) by (auto simp: books_def)
qed

lemma closed_books:
  assumes h: "handler_books m uh" and b: "books m {} (app w)" and cu: "evnet_channeluser c w = Some (Some u)"
    and cl: "httpd_closed uh c u w = Some w'"
  shows "books m {} (app w')"
proof -
  obtain usr d1 w1 where usr: "husrs (app w) u = Some usr" and d1: "httpds (app w) (hu_httpd usr) = Some d1"
    and w1: "w1 = w\<lparr>app := (app w)\<lparr>httpds := (httpds (app w))(hu_httpd usr \<mapsto>
        d1\<lparr>hd_usr_list := remove1 u (hd_usr_list d1), hd_curCon := hd_curCon d1 - 1\<rparr>)\<rparr>\<rparr>"
    and rest: "httpd_channelClose uh (hu_httpd usr) c w1 = Some w'"
    using cl by (auto simp: httpd_closed_def upd_httpd_def Let_def Option.bind_eq_Some_conv split: option.splits)
  have same: "husrs (app w1) = husrs (app w)" "nodes (app w1) = nodes (app w)" "h_next (app w1) = h_next (app w)"
    by (simp_all add: w1)
  obtain d where d: "httpds (app w) m = Some d" "hd_curCon d = int (length (hd_usr_list d))" "distinct (hd_usr_list d)"
    "set (hd_usr_list d) = members m (app w)" "own_nodes (app w)" "fresh_from (app w)" using booksE [OF b] by auto
  have mem: "members m (app w1) = members m (app w)" by (simp add: members_def same)
  have b1: "books m {u} (app w1)"
  proof (cases "hu_httpd usr = m")
    case True
    then have u: "u \<in> set (hd_usr_list d)" using d(4) usr by (auto simp: members_def)
    then have "length (remove1 u (hd_usr_list d)) + 1 = length (hd_usr_list d)"
      using length_pos_if_in_set [OF u] u by (simp add: length_remove1)
    then have "int (length (remove1 u (hd_usr_list d))) = hd_curCon d - 1" using d(2) by linarith
    moreover have "set (remove1 u (hd_usr_list d)) = members m (app w1) - {u}" using d(3,4) mem by simp
    moreover have "fresh_from (app w1)" using d(6) usr d1 by (auto simp: fresh_from_def w1)
    ultimately show ?thesis
      using d d1 True by (auto simp: books_def w1 own_nodes_def distinct_remove1)
  next
    case False
    then have "u \<notin> members m (app w)" using usr by (auto simp: members_def)
    moreover have "fresh_from (app w1)" using d(6) d1 by (auto simp: fresh_from_def w1)
    ultimately show ?thesis using d mem False by (auto simp: books_def w1 own_nodes_def)
  qed
  have cu1: "evnet_channeluser c w1 = Some (Some u)" using cu by (simp add: evnet_channeluser_def w1)
  show ?thesis
  proof (cases "hu_node usr = 0")
    case True
    then have "app w' = (app w1)\<lparr>husrs := (husrs (app w1))(u := None)\<rparr>"
      using rest cu1 usr same by (auto simp: httpd_channelClose_def)
    moreover have "books m {} ((app w1)\<lparr>nodes := nodes (app w1), husrs := (husrs (app w1))(u := None)\<rparr>)"
      using free_user_books [OF b1, of usr 0] usr same(1) by simp
    ultimately show ?thesis by simp
  next
    case False
    then obtain f w2 n2 usr2 where hd: "uh f (hu_node usr) ENODECLEAR 0 0 w1 = Some w2"
      and n2: "nodes (app w2) (hu_node usr) = Some n2" and usr2: "husrs (app w2) u = Some usr2"
      and w': "app w' = (app w2)\<lparr>nodes := (nodes (app w2))(hu_node usr := None), husrs := (husrs (app w2))(u := None)\<rparr>"
      using rest cu1 usr same by (auto simp: httpd_channelClose_def node_free_def Option.bind_eq_Some_conv split: if_splits)
    note k = handler_booksD [OF h b1 hd]
    obtain k1 where "nodes (app w1) (hu_node usr) = Some k1" "nd_usr k1 = u"
      using own_nodesD [OF d(5) usr False] same by auto
    then have "nd_usr n2 = u" using k(2) n2 unfolding later_def by force
    then show ?thesis using free_user_books [OF k(1), of usr2 "hu_node usr"] usr2 n2 w' False by simp
  qed
qed

lemma closing_books:
  assumes h: "handler_books m uh" and b: "books m {} (app w)"
    and cl: "evnet_closechannel os (httpd_closing uh) c e w = Some w'"
  shows "books m {} (app w')"
proof -
  obtain ch w1 w2 w3 w4 w5 d where s: "channels w c = Some ch" "unlink_channel c w = Some w1"
    "(case ch_handler ch of None \<Rightarrow> Some w1 | Some h \<Rightarrow> httpd_closing uh h (ch_pUsr ch) (EVCLOSED c e) w1) = Some w2"
    "disable os FLG_RECV_ENABLED AE_READABLE c w2 = Some w3" "disable os FLG_SEND_ENABLED AE_WRITABLE c w3 = Some w4"
    "upd_channel w4 c (\<lambda>d. d\<lparr>inDataqueue := dataqueue_remove_data (inDataqueue d) True,
                                outDataqueue := dataqueue_remove_data (outDataqueue d) True\<rparr>) = Some w5"
    "channels w5 c = Some d"
    using cl by (auto simp: evnet_closechannel_def channel_close_def Option.bind_eq_Some_conv)
  have "app w' = app w5" using cl s by (auto simp: evnet_closechannel_def channel_close_def Let_def)
  also have "app w5 = app w2" using disable_app [OF s(4)] disable_app [OF s(5)] upd_channel_app [OF s(6)] by simp
  finally have app: "app w' = app w2" .
  have b1: "books m {} (app w1)" using unlink_app [OF s(2)] b by simp
  show ?thesis
  proof (cases "ch_handler ch")
    case None
    then show ?thesis using s(3) app b1 by simp
  next
    case (Some p)
    then obtain u where u: "ch_pUsr ch = Some u" "httpd_closed uh c u w1 = Some w2"
      using s(3) by (cases p) (auto simp: httpd_closing_def Option.bind_eq_Some_conv)
    have "evnet_channeluser c w1 = Some (Some u)"
      using unlink_pUsr [OF s(2), of c] s(1) u(1) by (simp add: evnet_channeluser_def)
    then show ?thesis using closed_books [OF h b1 _ u(2)] app by simp
  qed
qed

section \<open>The other callbacks\<close>

lemma fresh_mono:
  "fresh_from s \<Longrightarrow> h_next s \<le> h_next s' \<Longrightarrow> (\<And>a. h_next s' \<le> a \<Longrightarrow> husrs s' a = husrs s a \<and> nodes s' a = nodes s a \<and> httpds s' a = httpds s a)
   \<Longrightarrow> fresh_from s'"
  by (fastforce simp: fresh_from_def)

lemma below_next:
  "fresh_from s \<Longrightarrow> husrs s a = Some x \<Longrightarrow> a < h_next s" "fresh_from s \<Longrightarrow> nodes s a = Some y \<Longrightarrow> a < h_next s"
  "fresh_from s \<Longrightarrow> httpds s a = Some z \<Longrightarrow> a < h_next s"
  by (metis fresh_from_def linorder_not_le option.distinct(1))+

lemma upd_node_books:
  assumes "upd_node n f w = Some w'" and "books m X (app w)" and "\<And>d. nodes (app w) n = Some d \<Longrightarrow> nd_usr (f d) = nd_usr d"
  shows "books m X (app w')"
proof -
  obtain d where d: "nodes (app w) n = Some d" "app w' = (app w)\<lparr>nodes := (nodes (app w))(n \<mapsto> f d)\<rparr>"
    using assms(1) by (auto simp: upd_node_def split: option.splits)
  have f: "fresh_from (app w)" using assms(2) by (rule booksE)
  have "fresh_from (app w')" using f below_next(2) [OF f d(1)] d(2) by (intro fresh_mono [OF f]) auto
  then show ?thesis by (rule books_cong [OF assms(2), rotated]) (use d assms(3) in auto)
qed

lemma uncomplete_books:
  assumes "uncomplete_node ut ext c w = Some (no, w')" and b: "books m X (app w)"
  shows "books m X (app w')"
proof -
  obtain u usr where u: "husrs (app w) u = Some usr"
    and r: "(if hu_node usr \<noteq> 0 then do {
       n \<leftarrow> nodes (app w) (hu_node usr);
       Some (if nd_status n = estatusnone then hu_node usr else 0, w)
     }
     else do {
       w1 \<leftarrow> upd_husr u (\<lambda>d. d\<lparr>hu_node := h_next (app w)\<rparr>)
              (w\<lparr>app := (app w)\<lparr>nodes := (nodes (app w))(h_next (app w) \<mapsto> new_node ut ext u), h_next := h_next (app w) + 1\<rparr>\<rparr>);
       Some (h_next (app w), w1)
     }) = Some (no, w')"
    using assms(1) by (auto simp only: uncomplete_node_def Let_def Option.bind_eq_Some_conv)
  have c: "w' = w \<or> app w' = (app w)\<lparr>nodes := (nodes (app w))(h_next (app w) \<mapsto> new_node ut ext u),
      h_next := h_next (app w) + 1, husrs := (husrs (app w))(u \<mapsto> usr\<lparr>hu_node := h_next (app w)\<rparr>)\<rparr>"
    using r u by (cases "hu_node usr = 0") (auto simp: upd_husr_def Option.bind_eq_Some_conv)
  show ?thesis
  proof (cases "w' = w")
    case False
    let ?a = "h_next (app w)"
    obtain d where d: "httpds (app w) m = Some d" "hd_curCon d = int (length (hd_usr_list d))" "distinct (hd_usr_list d)"
      "set (hd_usr_list d) = members m (app w) - X" "own_nodes (app w)" "fresh_from (app w)" by (rule booksE [OF b])
    have w': "app w' = (app w)\<lparr>nodes := (nodes (app w))(?a \<mapsto> new_node ut ext u),
      h_next := ?a + 1, husrs := (husrs (app w))(u \<mapsto> usr\<lparr>hu_node := ?a\<rparr>)\<rparr>" using c False by simp
    have "members m (app w') = members m (app w)" using u by (auto simp: members_def w')
    moreover have "own_nodes (app w')"
      unfolding own_nodes_def
    proof (intro allI impI)
      fix v x assume v: "husrs (app w') v = Some x" "hu_node x \<noteq> 0"
      show "\<exists>n. nodes (app w') (hu_node x) = Some n \<and> nd_usr n = v"
      proof (cases "v = u")
        case True
        then show ?thesis using v by (auto simp: w' new_node_def)
      next
        case False
        then obtain k where k: "nodes (app w) (hu_node x) = Some k" "nd_usr k = v"
          using v own_nodesD [OF d(5), of v x] by (auto simp: w')
        then have "hu_node x \<noteq> ?a" using below_next(2) [OF d(6) k(1)] by simp
        then show ?thesis using k by (simp add: w')
      qed
    qed
    moreover have "fresh_from (app w')"
      using below_next(1) [OF d(6) u] by (intro fresh_mono [OF d(6)]) (auto simp: w')
    ultimately show ?thesis using d by (auto simp: books_def w')
  qed (use b in simp)
qed

lemma data_loop_books:
  assumes h: "handler_books m uh"
  shows "httpd_data_loop os ut fs uh ext n c fuel w = Some w' \<Longrightarrow> books m {} (app w) \<Longrightarrow> books m {} (app w')"
proof (induction fuel arbitrary: w)
  case (Suc fuel)
  obtain ch where ch: "channels w c = Some ch" using Suc.prems(1) by (auto simp: Option.bind_eq_Some_conv)
  show ?case
  proof (cases "dataSize (inDataqueue ch) = 0")
    case True
    then show ?thesis using Suc.prems ch by simp
  next
    case False
    then obtain no w1 where un: "uncomplete_node ut ext c w = Some (no, w1)"
      using Suc.prems(1) ch by (auto simp: Option.bind_eq_Some_conv)
    have b1: "books m {} (app w1)" by (rule uncomplete_books [OF un Suc.prems(2)])
    show ?thesis
    proof (cases "no = 0")
      case True
      then show ?thesis using Suc.prems(1) ch False un b1 by simp
    next
      case no: False
      let ?dist = "\<lambda>w pos. upd_channel w c (\<lambda>d. d\<lparr>inDataqueue := dataqueue_distill_data (inDataqueue d) (word_of_nat pos)\<rparr>)"
      obtain q buffer w2 nd r pos k nd1 w3 where s: "upd_channel w1 c (\<lambda>d. d\<lparr>inDataqueue := q\<rparr>) = Some w2"
        "nodes (app w2) no = Some nd" "node_parser ut fs buffer (kernel w2, nd) = Some (r, pos, k, nd1)"
        "upd_node no (\<lambda>_. nd1) (w2\<lparr>kernel := k\<rparr>) = Some w3"
        and last: "(if r = 0 then
             if nd_status nd1 \<noteq> estatnodeeady then evnet_closechannel os (httpd_closing uh) c 0 w3
             else do { w4 \<leftarrow> ?dist w3 pos; node_continue uh n no w4 }
           else if pos = 0 then Some w3
           else do { w4 \<leftarrow> ?dist w3 pos; httpd_data_loop os ut fs uh ext n c fuel w4 }) = Some w'"
        using Suc.prems(1) ch False un no by (auto simp: Let_def Option.bind_eq_Some_conv simp del: word_of_nat_eq_0_iff)
      have b2: "books m {} (app (w2\<lparr>kernel := k\<rparr>))" using b1 upd_channel_app [OF s(1)] by simp
      have b3: "books m {} (app w3)"
        by (rule upd_node_books [OF s(4) b2]) (use node_parser_frame [OF s(3)] s(2) in \<open>simp add: node_frame_def\<close>)
      have dist: "books m {} (app w4)" if "?dist w3 pos = Some w4" for w4
        using upd_channel_app [OF that] b3 by simp
      show ?thesis
      proof (cases "r = 0")
        case False
        then show ?thesis using last b3 dist Suc.IH by (auto simp: Option.bind_eq_Some_conv split: if_splits)
      next
        case True
        show ?thesis
        proof (cases "nd_status nd1 = estatnodeeady")
          case False
          then show ?thesis using last True closing_books [OF h b3] by simp
        next
          case ready: True
          then obtain w4 w5 f where w4: "?dist w3 pos = Some w4"
            "upd_node no (\<lambda>d. d\<lparr>nd_status := estatushandle, nd_pfnSend := True\<rparr>) w4 = Some w5"
            "uh f no ENODEHANDLE 0 0 w5 = Some w'"
            using last True by (auto simp: node_continue_def Option.bind_eq_Some_conv)
          have "books m {} (app w5)" by (rule upd_node_books [OF w4(2) dist [OF w4(1)]]) simp
          then show ?thesis using handler_booksD(1) [OF h _ w4(3)] by blast
        qed
      qed
    qed
  qed
qed simp

lemma sent_books:
  assumes h: "handler_books m uh" and b: "books m {} (app w)" and st: "httpd_sent uh sz u w = Some w'"
  shows "books m {} (app w')"
proof -
  obtain usr where usr: "husrs (app w) u = Some usr" using st by (auto simp: httpd_sent_def Option.bind_eq_Some_conv)
  let ?no = "hu_node usr"
  show ?thesis
  proof (cases "?no = 0")
    case True
    then show ?thesis using st usr b by (simp add: httpd_sent_def)
  next
    case False
    then obtain w1 nd where w1: "upd_node ?no (\<lambda>d. d\<lparr>nd_sentsize := nd_sentsize d + word_of_int sz\<rparr>) w = Some w1"
      and nd: "nodes (app w1) ?no = Some nd"
      and rest: "(if nd_sendsize nd \<noteq> nd_sentsize nd then Some w1
       else do {
         d \<leftarrow> httpds (app w1) (hu_httpd usr);
         (case nd_status nd of
            estatushandle \<Rightarrow> uh (hd_handler d) ?no ENODECONTINUE sz 0 w1
          | estatusdone \<Rightarrow> do {
              w2 \<leftarrow> upd_husr u (\<lambda>d. d\<lparr>hu_node := 0\<rparr>) w1;
              w3 \<leftarrow> uh (hd_handler d) ?no ENODECLEAR 0 0 w2;
              node_free ?no w3
            }
          | _ \<Rightarrow> Some w1)
       }) = Some w'"
      using st usr by (auto simp: httpd_sent_def Let_def Option.bind_eq_Some_conv)
    have b1: "books m {} (app w1)" by (rule upd_node_books [OF w1 b]) simp
    show ?thesis
    proof (cases "nd_sendsize nd = nd_sentsize nd \<and> nd_status nd = estatusdone")
      case True
      then obtain f w2 w3 where w2: "upd_husr u (\<lambda>d. d\<lparr>hu_node := 0\<rparr>) w1 = Some w2"
        and hd: "uh f ?no ENODECLEAR 0 0 w2 = Some w3" and fr: "node_free ?no w3 = Some w'"
        using rest by (auto simp: Option.bind_eq_Some_conv)
      obtain usr1 where usr1: "husrs (app w1) u = Some usr1" and a2: "app w2 = (app w1)\<lparr>husrs := (husrs (app w1))(u \<mapsto> usr1\<lparr>hu_node := 0\<rparr>)\<rparr>"
        using w2 by (auto simp: upd_husr_def split: option.splits)
      have hu: "husrs (app w1) = husrs (app w)" using w1 by (auto simp: upd_node_def split: option.splits)
      obtain d where d: "httpds (app w1) m = Some d" "hd_curCon d = int (length (hd_usr_list d))" "distinct (hd_usr_list d)"
        "set (hd_usr_list d) = members m (app w1) - {}" "own_nodes (app w1)" "fresh_from (app w1)" by (rule booksE [OF b1])
      have "members m (app w2) = members m (app w1)" using usr1 by (auto simp: members_def a2)
      moreover have "own_nodes (app w2)" using d(5) by (auto simp: own_nodes_def a2)
      moreover have "fresh_from (app w2)" using d(6) below_next(1) [OF d(6) usr1] by (intro fresh_mono [OF d(6)]) (auto simp: a2)
      ultimately have b2: "books m {} (app w2)" using d by (auto simp: books_def a2)
      note k = handler_booksD [OF h b2 hd]
      obtain n3 where n3: "nodes (app w3) ?no = Some n3" and a3: "app w' = (app w3)\<lparr>nodes := (nodes (app w3))(?no := None)\<rparr>"
        using fr by (auto simp: node_free_def split: if_splits)
      obtain k1 where "nodes (app w1) ?no = Some k1" "nd_usr k1 = u" using own_nodesD [OF d(5), of u usr] usr hu False by auto
      then have owner: "nd_usr n3 = u" using k(2) n3 unfolding later_def a2 by force
      have nonode: "hu_node x = 0" if "husrs (app w3) u = Some x" for x
      proof -
        have "husrs (app w2) u = Some (usr1\<lparr>hu_node := 0\<rparr>)" by (simp add: a2)
        then show ?thesis using k(2) that unfolding later_def by fastforce
      qed
      obtain e where e: "httpds (app w3) m = Some e" "hd_curCon e = int (length (hd_usr_list e))" "distinct (hd_usr_list e)"
        "set (hd_usr_list e) = members m (app w3) - {}" "own_nodes (app w3)" "fresh_from (app w3)" by (rule booksE [OF k(1)])
      have "own_nodes (app w')"
        unfolding own_nodes_def
      proof (intro allI impI)
        fix v x assume v: "husrs (app w') v = Some x" "hu_node x \<noteq> 0"
        then have v3: "husrs (app w3) v = Some x" by (simp add: a3)
        then have "v \<noteq> u" using nonode v(2) by auto
        obtain y where y: "nodes (app w3) (hu_node x) = Some y" "nd_usr y = v" using own_nodesD [OF e(5) v3 v(2)] by blast
        then have "hu_node x \<noteq> ?no" using n3 owner \<open>v \<noteq> u\<close> by auto
        then show "\<exists>n. nodes (app w') (hu_node x) = Some n \<and> nd_usr n = v" using y by (simp add: a3)
      qed
      moreover have "members m (app w') = members m (app w3)" by (simp add: members_def a3)
      moreover have "fresh_from (app w')" using e(6) by (auto simp: fresh_from_def a3)
      ultimately show ?thesis using e by (auto simp: books_def a3)
    next
      case False
      then show ?thesis using rest b1 handler_booksD(1) [OF h b1]
        by (cases "nd_status nd") (auto simp: Option.bind_eq_Some_conv split: if_splits)
    qed
  qed
qed

lemma accepted_books:
  assumes h: "handler_books m uh" and b: "books m {} (app w)" and ac: "httpd_accepted os uh n c w = Some w'"
  shows "books m {} (app w')"
proof -
  obtain dn where dn: "httpds (app w) n = Some dn" using ac by (auto simp: httpd_accepted_def Option.bind_eq_Some_conv)
  show ?thesis
  proof (cases "evnet_size w \<le> hd_curCon dn")
    case True
    then show ?thesis using ac dn closing_books [OF h b] by (simp add: httpd_accepted_def)
  next
    case False
    let ?u = "h_next (app w)"
    let ?usr = "\<lparr>hu_channel = c, hu_node = 0, hu_httpd = n, hu_dwUsrID = h_ID (app w)\<rparr>"
    let ?s = "(app w)\<lparr>husrs := (husrs (app w))(?u \<mapsto> ?usr), h_next := ?u + 1, h_ID := h_ID (app w) + 1\<rparr>"
    obtain ok w2 where w2: "evnet_channelbind os c Httpd_Channel (word_of_int (hd_timeout dn)) ?u (w\<lparr>app := ?s\<rparr>) = Some (ok, w2)"
      "upd_httpd n (\<lambda>d. d\<lparr>hd_usr_list := hd_usr_list d @ [?u], hd_curCon := hd_curCon d + 1\<rparr>) w2 = Some w'"
      using ac dn False by (auto simp: httpd_accepted_def Let_def Option.bind_eq_Some_conv)
    have "app w2 = ?s" using bind_app [OF w2(1) [unfolded evnet_channelbind_def]] by simp
    then have w': "app w' = ?s\<lparr>httpds := (httpds (app w))(n \<mapsto> dn\<lparr>hd_usr_list := hd_usr_list dn @ [?u], hd_curCon := hd_curCon dn + 1\<rparr>)\<rparr>"
      using w2(2) dn by (auto simp: upd_httpd_def)
    obtain d where d: "httpds (app w) m = Some d" "hd_curCon d = int (length (hd_usr_list d))" "distinct (hd_usr_list d)"
      "set (hd_usr_list d) = members m (app w) - {}" "own_nodes (app w)" "fresh_from (app w)" by (rule booksE [OF b])
    have new: "husrs (app w) ?u = None" using d(6) by (simp add: fresh_from_def)
    have "members m (app w') = (if n = m then insert ?u (members m (app w)) else members m (app w))"
      using new by (auto simp: members_def w')
    moreover have "?u \<notin> members m (app w)" using new by (simp add: members_def)
    moreover have "own_nodes (app w')" using d(5) by (auto simp: own_nodes_def w')
    moreover have "fresh_from (app w')" using below_next(3) [OF d(6) dn] by (intro fresh_mono [OF d(6)]) (auto simp: w')
    ultimately show ?thesis using d dn by (auto simp: books_def w')
  qed
qed

lemma send_books:
  assumes "node_send os n data l w = Some w'" and "books m X (app w)"
  shows "books m X (app w')"
proof -
  obtain c ok w1 where s: "evnet_channelsend os c data w = Some (ok, w1)"
    "upd_node n (\<lambda>d. d\<lparr>nd_sendsize := nd_sendsize d + word_of_nat (length data),
                       nd_status := (if l then estatusdone else nd_status d)\<rparr>) w1 = Some w'"
    using assms(1) by (auto simp: node_send_def Option.bind_eq_Some_conv)
  have "app w1 = app w" by (rule send_app [OF s(1) [unfolded evnet_channelsend_def]])
  then show ?thesis using assms(2) by (intro upd_node_books [OF s(2)]) simp_all
qed

lemma start_books:
  assumes "httpd_start os h port tmo w = Some (n, w')" and b: "books m X (app w)"
  shows "books m X (app w')"
proof -
  let ?m = "h_next (app w)" and ?w = "w\<lparr>app := (app w)\<lparr>h_next := h_next (app w) + 1\<rparr>\<rparr>"
  obtain a w1 where a: "evnet_createacceptor os port Httpd_Acceptor ?m ?w = (a, w1)" by fastforce
  have app1: "app w1 = app ?w" using a by (auto simp: evnet_createacceptor_def acceptor_create_def Let_def split: prod.splits if_splits)
  have f: "fresh_from (app w)" using b by (rule booksE)
  obtain d where d: "httpds (app w) m = Some d" using b by (rule booksE)
  have m: "m < ?m" by (rule below_next(3) [OF f d])
  have "app w' = app w1 \<or> (\<exists>md. app w' = (app w1)\<lparr>httpds := (httpds (app w1))(?m \<mapsto> md)\<rparr>)"
    using assms(1) a by (auto simp: httpd_start_def Let_def Option.bind_eq_Some_conv evnet_acceptorstart_def
        acceptor_start_def dest!: event_app split: if_splits)
  then have s: "httpds (app w') m = httpds (app w) m" "husrs (app w') = husrs (app w)" "nodes (app w') = nodes (app w)"
    "h_next (app w') = ?m + 1" "\<forall>a. ?m < a \<longrightarrow> httpds (app w') a = httpds (app w) a" using app1 m by auto
  show ?thesis
    by (rule books_cong [OF b s(1)]) (use s in \<open>auto intro: fresh_mono [OF f]\<close>)
qed

section \<open>Runs\<close>

text \<open>
  What happens to the server's layer: the library calls one of its callbacks, for a channel with the user it
  was bound to; the application sends, closes a connection or starts another server; the library and the kernel
  do what does not concern this layer.
\<close>

inductive http_step :: "'k os \<Rightarrow> 'b utils \<Rightarrow> 'k files \<Rightarrow> ('k, 'h, 'b, 'x) node_handle \<Rightarrow> 'x
    \<Rightarrow> ('k, 'h, 'b, 'x) http_net \<Rightarrow> ('k, 'h, 'b, 'x) http_net \<Rightarrow> bool"
  for os :: "'k os" and ut :: "'b utils" and fs :: "'k files" and uh :: "('k, 'h, 'b, 'x) node_handle" and ext :: 'x where
  accept: "httpd_dispatch os ut fs uh ext Httpd_Acceptor usr msg w = Some w' \<Longrightarrow> http_step os ut fs uh ext w w'"
| call: "evnet_channeluser c w = Some usr \<Longrightarrow> msg \<in> {EVDATA c, EVSENT c n, EVCLOSED c e} \<Longrightarrow>
    httpd_dispatch os ut fs uh ext Httpd_Channel usr msg w = Some w' \<Longrightarrow> http_step os ut fs uh ext w w'"
| send: "node_send os n data l w = Some w' \<Longrightarrow> http_step os ut fs uh ext w w'"
| close: "evnet_closechannel os (httpd_closing uh) c e w = Some w' \<Longrightarrow> http_step os ut fs uh ext w w'"
| start: "httpd_start os h port tmo w = Some (n, w') \<Longrightarrow> http_step os ut fs uh ext w w'"
| library: "app w' = app w \<Longrightarrow> http_step os ut fs uh ext w w'"

lemma http_step_books:
  assumes h: "handler_books m uh" and st: "http_step os ut fs uh ext w w'" and b: "books m {} (app w)"
  shows "books m {} (app w')"
  using st
proof (cases rule: http_step.cases)
  case (accept usr msg)
  then show ?thesis using accepted_books [OF h b] by (cases msg) (auto simp: httpd_dispatch_def Option.bind_eq_Some_conv)
next
  case (call c usr msg n e)
  then obtain u where u: "usr = Some u" by (cases usr) (simp_all add: httpd_dispatch_def)
  consider "msg = EVDATA c" | "msg = EVSENT c n" | "msg = EVCLOSED c e" using call(2) by auto
  then show ?thesis
  proof cases
    case 1
    then show ?thesis using call(3) u data_loop_books [OF h _ b]
      by (auto simp: httpd_dispatch_def httpd_data_def Option.bind_eq_Some_conv simp del: httpd_data_loop.simps)
  next
    case 2
    then show ?thesis using call(3) u sent_books [OF h b] by (simp add: httpd_dispatch_def)
  next
    case 3
    then show ?thesis using call(1,3) u closed_books [OF h b] by (simp add: httpd_dispatch_def)
  qed
next
  case (send n data l)
  then show ?thesis using send_books b by blast
next
  case (close c e)
  then show ?thesis using closing_books [OF h b] by blast
next
  case (start h port tmo n)
  then show ?thesis by (rule start_books [OF _ b])
next
  case library
  then show ?thesis using b by simp
qed

end
