(* ===== verification/Sim_Web.thy ===== *)
theory Sim_Web
  imports Sim_Kernel Url_Helpers
begin

text \<open>
  A helper library and files that behave as documented: buffers are byte lists, fresh memory is zero, and a
  kernel without a disk. What the layers of HTTP take as arguments can be met, and their runs can be computed.
\<close>

definition sim_stricmp :: "byte list \<Rightarrow> byte list \<Rightarrow> int" where
  "sim_stricmp a b = (if map LOWER a = map LOWER b then 0 else 1)"

definition sim_strincmp :: "byte list \<Rightarrow> byte list \<Rightarrow> int \<Rightarrow> int" where
  "sim_strincmp a b n = sim_stricmp (take (nat n) a) (take (nat n) b)"

fun sim_fmt :: "byte list \<Rightarrow> byte list list \<Rightarrow> byte list" where
  "sim_fmt (c # d # f) (a # as) = (if c = CHR ''%'' \<and> d = CHR ''s'' then a @ sim_fmt f as else c # sim_fmt (d # f) (a # as))"
| "sim_fmt f as = f"

definition sim_ut :: "byte list utils" where
  "sim_ut = \<lparr>cmmn_strndup = (\<lambda>s. s), cmmn_strdup = (\<lambda>s. s), cmmn_strincmp = sim_strincmp,
     natoi = (\<lambda>s. digits_value (takeWhile IS_NUM s)), stricmp = sim_stricmp, fmt2 = sim_fmt,
     buffer_zero = [], buffer_init = (\<lambda>b. []), buffer_append = (@), buffer_data = (\<lambda>b. b),
     malloc_bytes = (\<lambda>n. replicate n NUL)\<rparr>"

definition no_disk :: "'k files" where
  "no_disk = \<lparr>fopen = (\<lambda>name k. (0, k)), fwrite = (\<lambda>f s k. k), fclose = (\<lambda>f k. k), fremove = (\<lambda>name k. k),
     frename = (\<lambda>a b k. k)\<rparr>"

end
