(* ===== verification/Httpd_Props.thy ===== *)
theory Httpd_Props
  imports Httpd_Count Sim_Web
begin

text \<open>The properties of the HTTP server.\<close>

section \<open>Connections\<close>

lemma run_books:
  assumes "handler_books m uh" and "books m {} (app w0)" and "(http_step os ut fs uh ext)\<^sup>*\<^sup>* w0 w"
  shows "books m {} (app w)"
  using assms(3,2) by (induction rule: rtranclp_induct) (auto intro: http_step_books [OF assms(1)])

text \<open>
  C1. Over any sequence of callbacks and calls, for any application that keeps the books, the list of an
  HTTP server holds each of its users exactly once, and its counter \<^verbatim>\<open>curCon\<close> is the number of them.
\<close>

theorem httpd_connection_count:
  assumes "handler_books m uh" and "books m {} (app w0)" and "(http_step os ut fs uh ext)\<^sup>*\<^sup>* w0 w"
  shows "\<exists>d. httpds (app w) m = Some d \<and> distinct (hd_usr_list d)
    \<and> set (hd_usr_list d) = {u. \<exists>usr. husrs (app w) u = Some usr \<and> hu_httpd usr = m}
    \<and> hd_curCon d = int (card {u. \<exists>usr. husrs (app w) u = Some usr \<and> hu_httpd usr = m})"
proof -
  obtain d where "httpds (app w) m = Some d" "hd_curCon d = int (length (hd_usr_list d))" "distinct (hd_usr_list d)"
    "set (hd_usr_list d) = members m (app w) - {}" by (rule booksE [OF run_books [OF assms]])
  then show ?thesis using distinct_card [of "hd_usr_list d"] by (auto simp: members_def)
qed

text \<open>For the witnesses: a server, and an application that answers nothing.\<close>

definition answer_nothing :: "(sim_kernel, unit, byte list, unit) node_handle" where
  "answer_nothing f n e i j w = Some w"

definition http_start :: "(sim_kernel, unit, byte list, unit) http_net" where
  "http_start = \<lparr>channelHead = 0, has_loop = True, epfd = 3, evLoop = ae_fresh_loop 8 10, channels = Map.empty,
     acceptors = Map.empty, next_free = 1, pipe_rd = 4, pipe_wr = 5, lastCrondTime = 0, kernel = sim_start\<lparr>sk_next := 8\<rparr>,
     app = \<lparr>httpds = [1 \<mapsto> \<lparr>hd_handler = (), hd_timeout = 60, hd_acceptor = 9, hd_curCon = 0, hd_usr_list = []\<rparr>],
            husrs = Map.empty, nodes = Map.empty, h_next = 2, h_ID = 0\<rparr>\<rparr>"

definition http_accept_run :: "((sim_kernel, unit, byte list, unit) http_net \<times> (sim_kernel, unit, byte list, unit) http_net) option" where
  "http_accept_run = do {
     (c, w1) \<leftarrow> channel_create 7 ''10.0.0.1'' 4711 False http_start;
     w2 \<leftarrow> httpd_dispatch sim_os sim_ut no_disk answer_nothing () Httpd_Acceptor (Some 1) (EVACCEPTED c) w1;
     Some (w1, w2)
   }"

lemma http_accept_run_ok: "map_option (\<lambda>(w1, w2). map_option hd_usr_list (httpds (app w2) 1)) http_accept_run = Some (Some [2])"
  by code_simp

lemma http_start_books: "books 1 {} (app http_start)"
  by (auto simp: books_def http_start_def members_def own_nodes_def fresh_from_def)

lemma answer_nothing_books: "handler_books m answer_nothing"
  by (auto simp: handler_books_def answer_nothing_def later_def)

lemma http_accept_steps:
  obtains w1 w2 d where "(http_step sim_os sim_ut no_disk answer_nothing ())\<^sup>*\<^sup>* http_start w2"
    "http_accept_run = Some (w1, w2)" "httpds (app w2) 1 = Some d" "hd_usr_list d = [2]"
proof -
  obtain w1 w2 c d where r: "channel_create 7 ''10.0.0.1'' 4711 False http_start = Some (c, w1)"
    "httpd_dispatch sim_os sim_ut no_disk answer_nothing () Httpd_Acceptor (Some 1) (EVACCEPTED c) w1 = Some w2"
    "http_accept_run = Some (w1, w2)" "httpds (app w2) 1 = Some d" "hd_usr_list d = [2]"
    using http_accept_run_ok by (auto simp: http_accept_run_def Option.bind_eq_Some_conv)
  have "http_step sim_os sim_ut no_disk answer_nothing () http_start w1" by (rule http_step.library) (rule create_app [OF r(1)])
  moreover have "http_step sim_os sim_ut no_disk answer_nothing () w1 w2" by (rule http_step.accept [OF r(2)])
  ultimately have "(http_step sim_os sim_ut no_disk answer_nothing ())\<^sup>*\<^sup>* http_start w2"
    by (metis converse_rtranclp_into_rtranclp r_into_rtranclp)
  then show ?thesis using that r(3-5) by blast
qed

theorem httpd_connection_count_witness:
  "\<exists>w d. (http_step sim_os sim_ut no_disk answer_nothing ())\<^sup>*\<^sup>* http_start w \<and> httpds (app w) 1 = Some d
     \<and> hd_usr_list d = [2] \<and> hd_curCon d = 1"
proof -
  obtain w d where w: "(http_step sim_os sim_ut no_disk answer_nothing ())\<^sup>*\<^sup>* http_start w"
    "httpds (app w) 1 = Some d" "hd_usr_list d = [2]" by (rule http_accept_steps)
  have "hd_curCon d = int (card (set (hd_usr_list d)))"
    using httpd_connection_count [OF answer_nothing_books http_start_books w(1)] w(2) by auto
  then show ?thesis using w by auto
qed

text \<open>
  C2. Over any such sequence the pointers of the server's layer lead where their types say: the node of a
  user is a live node that belongs to this very user, no other user has it, and both lie at addresses
  that were handed out.
\<close>

theorem httpd_pointers_typed:
  assumes "handler_books m uh" and "books m {} (app w0)" and "(http_step os ut fs uh ext)\<^sup>*\<^sup>* w0 w"
    and "husrs (app w) u = Some usr" and "hu_node usr \<noteq> 0"
  shows "\<exists>n. nodes (app w) (hu_node usr) = Some n \<and> nd_usr n = u \<and> u < h_next (app w) \<and> hu_node usr < h_next (app w)
    \<and> (\<forall>v usr'. husrs (app w) v = Some usr' \<longrightarrow> hu_node usr' = hu_node usr \<longrightarrow> v = u)"
proof -
  have o: "own_nodes (app w)" and f: "fresh_from (app w)" using booksE [OF run_books [OF assms(1-3)]] by metis+
  obtain n where n: "nodes (app w) (hu_node usr) = Some n" "nd_usr n = u" using own_nodesD [OF o assms(4,5)] by blast
  moreover have "v = u" if "husrs (app w) v = Some usr'" "hu_node usr' = hu_node usr" for v usr'
    using own_nodesD [OF o that(1)] that(2) n assms(5) by auto
  ultimately show ?thesis using below_next(1) [OF f assms(4)] below_next(2) [OF f n(1)] by blast
qed

text \<open>The first bytes of a request reach the connection that was accepted.\<close>

definition request_start :: dataqueue where
  "request_start = \<lparr>insertPos = 6, terminalPos = 6, queryPos = 0, dataSize = 6, bufferSize = 6,
     m_pDataQueueBuffer = Some ''GET /a''\<rparr>"

definition http_data_run :: "(sim_kernel, unit, byte list, unit) http_net \<Rightarrow> (sim_kernel, unit, byte list, unit) http_net option" where
  "http_data_run w = do {
     w3 \<leftarrow> upd_channel w 1 (\<lambda>d. d\<lparr>inDataqueue := request_start\<rparr>);
     httpd_dispatch sim_os sim_ut no_disk answer_nothing () Httpd_Channel (Some 2) (EVDATA 1) w3
   }"

lemma http_data_run_ok:
  "map_option (\<lambda>w. (map_option hu_node (husrs (app w) 2), map_option nd_usr (nodes (app w) 3)))
     (Option.bind http_accept_run (\<lambda>(w1, w2). http_data_run w2)) = Some (Some 3, Some 2)"
  by code_simp

lemma http_bound_ok: "Option.bind http_accept_run (\<lambda>(w1, w2). evnet_channeluser 1 w2) = Some (Some 2)"
  by code_simp

theorem httpd_pointers_typed_witness:
  "\<exists>w usr n. (http_step sim_os sim_ut no_disk answer_nothing ())\<^sup>*\<^sup>* http_start w \<and> husrs (app w) 2 = Some usr
     \<and> hu_node usr = 3 \<and> nodes (app w) 3 = Some n \<and> nd_usr n = 2 \<and> 3 < h_next (app w)"
proof -
  obtain w1 w2 d where w2: "(http_step sim_os sim_ut no_disk answer_nothing ())\<^sup>*\<^sup>* http_start w2"
    "http_accept_run = Some (w1, w2)" by (rule http_accept_steps)
  have out: "map_option (\<lambda>w. map_option hu_node (husrs (app w) 2)) (http_data_run w2) = Some (Some 3)"
    using http_data_run_ok unfolding w2(2) by (auto simp del: One_nat_def)
  then obtain w3 w4 where w4: "upd_channel w2 1 (\<lambda>d. d\<lparr>inDataqueue := request_start\<rparr>) = Some w3"
    "httpd_dispatch sim_os sim_ut no_disk answer_nothing () Httpd_Channel (Some 2) (EVDATA 1) w3 = Some w4"
    unfolding http_data_run_def by (auto simp: Option.bind_eq_Some_conv simp del: One_nat_def)
  have out4: "map_option hu_node (husrs (app w4) 2) = Some 3"
    using out w4 by (simp add: http_data_run_def del: One_nat_def)
  have "evnet_channeluser 1 w2 = Some (Some 2)"
    using http_bound_ok unfolding w2(2) by simp
  then have cu: "evnet_channeluser 1 w3 = Some (Some 2)"
    using w4(1) by (auto simp: evnet_channeluser_def upd_channel_def split: option.splits)
  have "http_step sim_os sim_ut no_disk answer_nothing () w2 w3" by (rule http_step.library) (rule upd_channel_app [OF w4(1)])
  moreover have "http_step sim_os sim_ut no_disk answer_nothing () w3 w4" by (rule http_step.call [OF cu _ w4(2)]) simp
  ultimately have run: "(http_step sim_os sim_ut no_disk answer_nothing ())\<^sup>*\<^sup>* http_start w4"
    using w2(1) by (meson rtranclp.rtrancl_into_rtrancl)
  obtain usr where usr: "husrs (app w4) 2 = Some usr" "hu_node usr = 3" using out4 by auto
  show ?thesis
    using httpd_pointers_typed [OF answer_nothing_books http_start_books run usr(1)] run usr by auto
qed

section \<open>The loop over the data\<close>

lemma uncomplete_channels:
  assumes "uncomplete_node ut ext c w = Some (no, w1)"
  shows "channels w1 = channels w"
proof -
  obtain u usr where "husrs (app w) u = Some usr"
    and r: "(if hu_node usr \<noteq> 0 then do {
       n \<leftarrow> nodes (app w) (hu_node usr);
       Some (if nd_status n = estatusnone then hu_node usr else 0, w)
     }
     else do {
       w1 \<leftarrow> upd_husr u (\<lambda>d. d\<lparr>hu_node := h_next (app w)\<rparr>)
              (w\<lparr>app := (app w)\<lparr>nodes := (nodes (app w))(h_next (app w) \<mapsto> new_node ut ext u), h_next := h_next (app w) + 1\<rparr>\<rparr>);
       Some (h_next (app w), w1)
     }) = Some (no, w1)"
    using assms by (auto simp only: uncomplete_node_def Let_def Option.bind_eq_Some_conv)
  then show ?thesis by (cases "hu_node usr = 0") (auto simp: upd_husr_def Option.bind_eq_Some_conv)
qed

lemma node_parser_pos:
  assumes "node_parser ut fs bs s = Some (r, pos, k, n)" and "r \<noteq> 0"
  shows "pos = length bs"
  using assms by (auto simp: node_parser_def Option.bind_eq_Some_conv split: if_splits)

text \<open>A round that goes on has taken something from the queue.\<close>

lemma data_loop_fuel:
  assumes "channels w c = Some ch" and "dq_inv (inDataqueue ch)"
    and "unat (dataSize (inDataqueue ch)) < fuel" and "unat (dataSize (inDataqueue ch)) < fuel'"
  shows "httpd_data_loop os ut fs uh ext m c fuel w = httpd_data_loop os ut fs uh ext m c fuel' w"
  using assms
proof (induction fuel arbitrary: fuel' w ch)
  case (Suc fuel)
  then obtain f' where f': "fuel' = Suc f'" by (cases fuel') auto
  show ?case
  proof (cases "dataSize (inDataqueue ch) = 0")
    case False
    let ?q = "inDataqueue ch"
    have len: "length (dq_contents ?q) = unat (dataSize ?q)" by (rule dq_length_contents [OF Suc.prems(2)])
    then have ne: "dq_contents ?q \<noteq> []" using False by (auto simp: unat_eq_0)
    obtain q buffer where q: "dq_peek ?q = Some (q, buffer)" "buffer \<noteq> []" "prefix buffer (dq_contents ?q)"
      and d: "\<And>k. k \<le> length buffer \<Longrightarrow> dq_inv (dataqueue_distill_data q (word_of_nat k))
          \<and> dq_contents (dataqueue_distill_data q (word_of_nat k)) = drop k (dq_contents ?q)"
      using dq.read_step [OF Suc.prems(2) ne] by metis
    let ?next = "\<lambda>fuel w3 pos. do {
        w4 \<leftarrow> upd_channel w3 c (\<lambda>d. d\<lparr>inDataqueue := dataqueue_distill_data (inDataqueue d) (word_of_nat pos)\<rparr>);
        httpd_data_loop os ut fs uh ext m c fuel w4 }"
    have go: "?next fuel w3 pos = ?next f' w3 pos"
      if un: "uncomplete_node ut ext c w = Some (no, w1)" and w2: "upd_channel w1 c (\<lambda>d. d\<lparr>inDataqueue := q\<rparr>) = Some w2"
        and np: "node_parser ut fs buffer (kernel w2, nd) = Some (r, pos, k, nd1)" "r \<noteq> 0"
        and w3: "upd_node no (\<lambda>_. nd1) (w2\<lparr>kernel := k\<rparr>) = Some w3" for no w1 w2 nd r pos k nd1 w3
    proof -
      have pos: "pos = length buffer" by (rule node_parser_pos [OF np])
      obtain ch3 where ch3: "channels w3 c = Some ch3" "inDataqueue ch3 = q"
        using w3 w2 uncomplete_channels [OF un] Suc.prems(1)
        by (auto simp: upd_node_def upd_channel_def split: option.splits)
      let ?q2 = "dataqueue_distill_data q (word_of_nat pos)"
      let ?ch4 = "ch3\<lparr>inDataqueue := ?q2\<rparr>"
      have q2: "dq_inv ?q2" "dq_contents ?q2 = drop pos (dq_contents ?q)" using d [of pos] pos by auto
      have "unat (dataSize ?q2) < unat (dataSize ?q)"
        using dq_length_contents [OF q2(1)] q2(2) len pos q(2) ne by (simp add: length_greater_0_conv [symmetric] del: length_greater_0_conv)
      then have "httpd_data_loop os ut fs uh ext m c fuel (w3\<lparr>channels := (channels w3)(c \<mapsto> ?ch4)\<rparr>)
          = httpd_data_loop os ut fs uh ext m c f' (w3\<lparr>channels := (channels w3)(c \<mapsto> ?ch4)\<rparr>)"
        using Suc.prems(3,4) f' q2(1) by (intro Suc.IH [of _ ?ch4]) auto
      then show ?thesis using ch3 by (simp add: upd_channel_def)
    qed
    show ?thesis
      unfolding f' using False Suc.prems(1) q(1) go
      by (auto simp: Let_def simp del: word_of_nat_eq_0_iff intro!: Option.bind_cong)
  qed (use Suc.prems(1) f' in simp)
qed simp

text \<open>
  C3. The loop over the data of a connection returns: a round that goes on takes at least a byte, so that
  the fuel of the model, a round for every byte and one more, is enough, and any more makes no difference.
\<close>

theorem httpd_data_terminates:
  assumes "husrs (app w) u = Some usr" and "channels w c = Some ch" and "dq_inv (inDataqueue ch)"
    and "unat (dataSize (inDataqueue ch)) < fuel"
  shows "httpd_data os ut fs uh ext c u w = httpd_data_loop os ut fs uh ext (hu_httpd usr) c fuel w"
  using assms data_loop_fuel [OF assms(2,3), of "unat (dataSize (inDataqueue ch)) + 1" fuel] by (simp add: httpd_data_def)

text \<open>A connection with bytes waiting, and the user it was bound to.\<close>

definition full_queue :: "byte list \<Rightarrow> dataqueue" where
  "full_queue bs = \<lparr>insertPos = word_of_nat (length bs), terminalPos = word_of_nat (length bs), queryPos = 0,
     dataSize = word_of_nat (length bs), bufferSize = word_of_nat (length bs), m_pDataQueueBuffer = Some bs\<rparr>"

definition http_connected :: "byte list \<Rightarrow> (sim_kernel, unit, byte list, unit) http_net" where
  "http_connected bs = http_start\<lparr>channels := [1 \<mapsto> (new_channel 7 ''10.0.0.1'' 4711 False)\<lparr>inDataqueue := full_queue bs,
       ch_handler := Some Httpd_Channel, ch_pUsr := Some 5\<rparr>],
     app := (app http_start)\<lparr>husrs := [5 \<mapsto> \<lparr>hu_channel = 1, hu_node = 0, hu_httpd = 1, hu_dwUsrID = 0\<rparr>], h_next := 6\<rparr>\<rparr>"

theorem httpd_data_terminates_witness:
  "httpd_data sim_os sim_ut no_disk answer_nothing () 1 5 (http_connected ''GET /a'')
     = httpd_data_loop sim_os sim_ut no_disk answer_nothing () 1 1 60 (http_connected ''GET /a'')"
  using httpd_data_terminates [of "http_connected ''GET /a''" 5 "the (husrs (app (http_connected ''GET /a'')) 5)" 1
      "the (channels (http_connected ''GET /a'') 1)" 60 sim_os sim_ut no_disk answer_nothing "()"]
  by (simp add: http_connected_def http_start_def full_queue_def dq_inv_def dq_linear_def dq_bytes_def)

section \<open>What two requests in one read do\<close>

definition upload_request :: "byte list" where
  "upload_request = ''POST /upload HTTP/1.1'' @ [CR, LF] @ ''Content-Type: multipart/form-data; boundary=b'' @ [CR, LF]
     @ ''Content-Length: 0'' @ [CR, LF, CR, LF]"

definition post_request :: "byte list" where
  "post_request = ''POST /a HTTP/1.1'' @ [CR, LF] @ ''Content-Length: 1'' @ [CR, LF, CR, LF] @ ''x''"

text \<open>
  C4. Requests that arrive in one read go into one node, each over the last. An upload and a plain request
  are each served alone, and the upload after the plain one; but when the plain request follows the upload
  in the same read, its body is appended to a buffer that shares its memory with the state of the upload.
\<close>

theorem httpd_requests_share_node:
  "httpd_data sim_os sim_ut no_disk answer_nothing () 1 5 (http_connected upload_request) \<noteq> None
   \<and> httpd_data sim_os sim_ut no_disk answer_nothing () 1 5 (http_connected post_request) \<noteq> None
   \<and> httpd_data sim_os sim_ut no_disk answer_nothing () 1 5 (http_connected (post_request @ upload_request)) \<noteq> None
   \<and> httpd_data sim_os sim_ut no_disk answer_nothing () 1 5 (http_connected (upload_request @ post_request)) = None"
proof (intro conjI)
  show "httpd_data sim_os sim_ut no_disk answer_nothing () 1 5 (http_connected upload_request) \<noteq> None" by code_simp
  show "httpd_data sim_os sim_ut no_disk answer_nothing () 1 5 (http_connected post_request) \<noteq> None" by code_simp
  show "httpd_data sim_os sim_ut no_disk answer_nothing () 1 5 (http_connected (post_request @ upload_request)) \<noteq> None"
    by code_simp
  show "httpd_data sim_os sim_ut no_disk answer_nothing () 1 5 (http_connected (upload_request @ post_request)) = None"
    by code_simp
qed

text \<open>The URL and the headers that a node has after some reads.\<close>

fun node_reads :: "byte list list \<Rightarrow> (unit, byte list, unit) node_st \<Rightarrow> (byte list option \<times> header_t list) option" where
  "node_reads [] (k, n) = Some (nd_URL n, nd_headers n)"
| "node_reads (c # cs) s = Option.bind (node_parser sim_ut no_disk c s) (\<lambda>(r, pos, s1). node_reads cs s1)"

definition get_head :: "byte list" where
  "get_head = ''GET /ab HTTP/1.1'' @ [CR, LF] @ ''Host: h.org'' @ [CR, LF, CR, LF]"

text \<open>
  C5. A URL or a header value that is cut by the end of a read is lost but for its last piece, and a header
  name that is cut becomes two headers.
\<close>

theorem httpd_cut_loses_pieces:
  "node_reads [get_head] ((), new_node sim_ut () 5)
     = Some (Some ''/ab'', [\<lparr>fieldname = ''Host'', fieldvalue = Some ''h.org''\<rparr>])
   \<and> node_reads [take 6 get_head, drop 6 get_head] ((), new_node sim_ut () 5)
     = Some (Some ''b'', [\<lparr>fieldname = ''Host'', fieldvalue = Some ''h.org''\<rparr>])
   \<and> node_reads [take 20 get_head, drop 20 get_head] ((), new_node sim_ut () 5)
     = Some (Some ''/ab'', [\<lparr>fieldname = ''st'', fieldvalue = Some ''h.org''\<rparr>, \<lparr>fieldname = ''Ho'', fieldvalue = None\<rparr>])
   \<and> node_reads [take 25 get_head, drop 25 get_head] ((), new_node sim_ut () 5)
     = Some (Some ''/ab'', [\<lparr>fieldname = ''Host'', fieldvalue = Some ''.org''\<rparr>])"
  by (intro conjI) code_simp+

end
