(* ===== verification/Spec2Isabelle.thy ===== *)
theory Spec2Isabelle
  imports Msg_Parser Http_Props Http_Request Http_Roundtrip Http_Chunked Multipart_Props Libnet_Props Evactor Msg_Net_Props Httpd Url_Props Harbor Httpd_Props
begin

text \<open>
  A verification library for evnet, an event-driven network library in C.
\<close>

end
